(* ===== verification/Vel_Prelude.thy ===== *)
theory Vel_Prelude
  imports Main "HOL-Library.Word"
begin

text \<open>
  What every component shares: the machine integer types, the little-endian
  byte encoding of the wire, a byte-addressed memory, the text formatting the
  firmware log uses, and the transition-system interface that turns a
  one-step invariant into an invariant of every reachable state.
\<close>

unbundle bit_operations_syntax

type_synonym u8 = "8 word"
type_synonym u16 = "16 word"
type_synonym u32 = "32 word"
type_synonym u64 = "64 word"
type_synonym bytes = "u8 list"

named_theorems frames "which parts of the state an operation leaves alone"
named_theorems keeps "an operation keeps an invariant"

section \<open>Little-endian encoding\<close>

text \<open>
  \<open>cpu_to_leNN\<close> and \<open>leNN_to_cpu\<close> of the sources: a value as \<open>n\<close> bytes, least
  significant first, and back.
\<close>

fun to_le :: "nat \<Rightarrow> nat \<Rightarrow> bytes" where
  "to_le 0 v = []"
| "to_le (Suc n) v = word_of_nat v # to_le n (v div 256)"

fun of_le :: "bytes \<Rightarrow> nat" where
  "of_le [] = 0"
| "of_le (b # bs) = unat b + 256 * of_le bs"

definition put_le :: "nat \<Rightarrow> 'a::len word \<Rightarrow> bytes" where
  "put_le n w = to_le n (unat w)"

definition get_le :: "nat \<Rightarrow> nat \<Rightarrow> bytes \<Rightarrow> 'a::len word" where
  "get_le off n bs = word_of_nat (of_le (take n (drop off bs)))"

lemma unat_bound: "unat (w :: 'a::len word) < 2 ^ LENGTH('a)"
  by (rule unsigned_less)

lemma unat_u8: "unat (b :: u8) < 256"
  using unat_bound [of b] by simp

lemma unat_u16: "unat (x :: u16) < 65536"
  using unat_bound [of x] by simp

lemma unat_ucast_le: "unat (ucast w :: 'b::len word) \<le> unat (w :: 'a::len word)"
  by (simp add: unsigned_ucast_eq)

lemma unat_ucast_u32 [simp]: "unat (ucast (a :: u32) :: u64) = unat a"
proof -
  have "unat a < 2 ^ 64" using unat_bound [of a] by simp
  then show ?thesis by (simp add: unsigned_ucast_eq take_bit_nat_eq_self)
qed

lemma unat_ucast_u16 [simp]: "unat (ucast (a :: u16) :: u32) = unat a" "unat (ucast (a :: u16) :: u64) = unat a"
proof -
  have "unat a < 2 ^ 32" "unat a < 2 ^ 64" using unat_bound [of a] by simp_all
  then show "unat (ucast a :: u32) = unat a" "unat (ucast a :: u64) = unat a"
    by (simp_all add: unsigned_ucast_eq take_bit_nat_eq_self)
qed

lemma u64_sum_bound: "(ucast (a :: u32) :: u64) + ucast (b :: u32) > c \<longleftrightarrow> unat a + unat b > unat c"
proof -
  have "unat a < 2 ^ 32" "unat b < 2 ^ 32"
    using unat_bound [of a] unat_bound [of b] by simp_all
  then show ?thesis by (simp add: word_less_nat_alt unat_word_ariths)
qed

lemma narrow_widen: "(ucast (ucast (x :: u16) :: u32) :: u16) = x"
  by (rule bit_word_eqI) (simp add: bit_simps)

lemma narrow_add: "(ucast (x + y :: u32) :: u16) = ucast x + ucast y"
  by (simp add: word_unat_eq_iff unsigned_ucast_eq take_bit_eq_mod unat_word_ariths mod_simps mod_mod_cancel)

lemma length_to_le [simp]: "length (to_le n v) = n"
  by (induction n arbitrary: v) auto

lemma length_put_le [simp]: "length (put_le n w) = n"
  by (simp add: put_le_def)

lemma of_le_to_le: "of_le (to_le n v) = v mod 256 ^ n"
proof (induction n arbitrary: v)
  case 0
  show ?case by simp
next
  case (Suc n)
  have "v mod 256 ^ Suc n = v mod 256 + 256 * (v div 256 mod 256 ^ n)"
    by (simp add: mod_mult2_eq)
  with Suc show ?case by (simp add: unat_of_nat)
qed

lemma of_le_bound: "of_le bs < 256 ^ length bs"
proof (induction bs)
  case Nil
  show ?case by simp
next
  case (Cons b bs)
  have "unat b < 256" by (rule unat_u8)
  with Cons show ?case by simp
qed

lemma to_le_of_le: "to_le (length bs) (of_le bs) = bs"
proof (induction bs)
  case Nil
  show ?case by simp
next
  case (Cons b bs)
  have b: "unat b < 256" by (rule unat_u8)
  then have "(unat b + 256 * of_le bs) div 256 = of_le bs" by simp
  moreover have "unat (word_of_nat (unat b + 256 * of_le bs) :: u8) = unat b"
    using b by (simp only: unat_of_nat) simp
  then have "word_of_nat (unat b + 256 * of_le bs) = b"
    by (simp only: word_unat_eq_iff)
  ultimately show ?case using Cons by simp
qed

lemma to_le_numeral [simp]:
  "to_le (numeral k) v = word_of_nat v # to_le (pred_numeral k) (v div 256)"
  by (simp only: numeral_eq_Suc [of k] to_le.simps)

lemma get_le_nth:
  assumes "bs = pre @ put_le n w @ post" and "length pre = off" and "LENGTH('a) \<le> 8 * n"
  shows "get_le off n bs = (w :: 'a::len word)"
proof -
  have "(256::nat) ^ n = 2 ^ (8 * n)" by (simp add: power_mult)
  also have "2 ^ LENGTH('a) \<le> (2::nat) ^ (8 * n)"
    using assms(3) by (rule power_increasing) simp
  finally have "unat w < 256 ^ n"
    using unat_bound [of w] \<open>(256::nat) ^ n = 2 ^ (8 * n)\<close> by linarith
  with assms(1,2) show ?thesis
    by (simp add: get_le_def put_le_def of_le_to_le)
qed

lemma get_le_put_le [simp]:
  "LENGTH('a) \<le> 8 * n \<Longrightarrow> get_le 0 n (put_le n (w :: 'a::len word) @ post) = w"
  by (rule get_le_nth [where pre = "[]"]) simp_all

lemma get_le_put_le_all [simp]:
  "LENGTH('a) \<le> 8 * n \<Longrightarrow> get_le 0 n (put_le n (w :: 'a::len word)) = w"
  using get_le_put_le [where post = "[]"] by simp

lemma get_le_skip: "length pre \<le> off \<Longrightarrow> get_le off n (pre @ bs) = get_le (off - length pre) n bs"
  by (simp add: get_le_def)

lemma get_le_eq_take:
  "off + n \<le> m \<Longrightarrow> get_le off n (take m bs) = get_le off n bs"
  by (simp add: get_le_def drop_take)

lemma ex_less_2: "(\<exists>n < (2::nat). P n) \<longleftrightarrow> P 0 \<or> P 1"
  by (auto simp: less_2_cases_iff)

lemma all_less_2: "(\<forall>n < (2::nat). P n) \<longleftrightarrow> P 0 \<and> P 1"
  by (auto simp: less_2_cases_iff)

section \<open>Byte-addressed memory\<close>

type_synonym store = "nat \<Rightarrow> u8"

definition mem_load :: "store \<Rightarrow> nat \<Rightarrow> nat \<Rightarrow> bytes" where
  "mem_load m off n = map m [off..<off + n]"

definition mem_store :: "store \<Rightarrow> nat \<Rightarrow> bytes \<Rightarrow> store" where
  "mem_store m off bs = (\<lambda>i. if off \<le> i \<and> i < off + length bs then bs ! (i - off) else m i)"

lemma length_mem_load [simp]: "length (mem_load m off n) = n"
  by (simp add: mem_load_def)

lemma mem_load_nth [simp]: "i < n \<Longrightarrow> mem_load m off n ! i = m (off + i)"
  by (simp add: mem_load_def)

lemma mem_store_out:
  "i < off \<or> off + length bs \<le> i \<Longrightarrow> mem_store m off bs i = m i"
  by (auto simp: mem_store_def)

lemma mem_store_in:
  "i < length bs \<Longrightarrow> mem_store m off bs (off + i) = bs ! i"
  by (simp add: mem_store_def)

lemma mem_load_store_same [simp]:
  "length bs = n \<Longrightarrow> mem_load (mem_store m off bs) off n = bs"
  by (rule nth_equalityI) (auto simp: mem_store_in)

lemma mem_load_store_other:
  "off' + n \<le> off \<or> off + length bs \<le> off' \<Longrightarrow>
     mem_load (mem_store m off bs) off' n = mem_load m off' n"
  by (auto simp: mem_load_def mem_store_def)

lemma mem_load_split: "mem_load m off (a + b) = mem_load m off a @ mem_load m (off + a) b"
  using upt_add_eq_append [of off "off + a" b] by (simp add: mem_load_def add.assoc)

lemma mem_load_cong:
  "(\<And>i. off \<le> i \<Longrightarrow> i < off + n \<Longrightarrow> m i = m' i) \<Longrightarrow> mem_load m off n = mem_load m' off n"
  by (simp add: mem_load_def)

lemma mem_load_sub: "a + b \<le> n \<Longrightarrow> take b (drop a (mem_load m off n)) = mem_load m (off + a) b"
  by (rule nth_equalityI) (auto simp: add.assoc)

end
