(* ===== verification/Vel_Loop.thy ===== *)
theory Vel_Loop
  imports Vel_Prelude
begin

text \<open>
  The consuming loop both planes of the device run, \<open>while (pop(...)) { serve }\<close>. The ring is
  host memory, so nothing in the code bounds the loop: it is a partial function whose value
  \<open>None\<close> means it never returns. The first contract says what every iteration preserves, the
  second when the loop ends.
\<close>

partial_function (option) drain_loop ::
  "('s \<Rightarrow> 's \<times> 'e option) \<Rightarrow> ('e \<Rightarrow> 's \<Rightarrow> 's \<times> bool) \<Rightarrow> 's \<Rightarrow> 's option" where
  "drain_loop pop serve s =
     (case pop s of
        (t, None) \<Rightarrow> Some t
      | (t, Some e) \<Rightarrow>
          (case serve e t of (u, again) \<Rightarrow> if again then drain_loop pop serve u else Some u))"

locale loop_keeps =
  fixes pop :: "'s \<Rightarrow> 's \<times> 'e option"
    and serve :: "'e \<Rightarrow> 's \<Rightarrow> 's \<times> bool"
    and inv :: "'s \<Rightarrow> bool"
  assumes pop_inv: "inv s \<Longrightarrow> pop s = (t, r) \<Longrightarrow> inv t"
    and serve_inv: "inv s \<Longrightarrow> serve e s = (t, b) \<Longrightarrow> inv t"
begin

lemma drain_inv:
  assumes "drain_loop pop serve s = Some t" and "inv s"
  shows "inv t"
proof -
  have "p = pop \<longrightarrow> sv = serve \<longrightarrow> inv s \<longrightarrow> inv t" if "drain_loop p sv s = Some t" for p sv s t
  proof (rule drain_loop.raw_induct [where P = "\<lambda>p sv s t. p = pop \<longrightarrow> sv = serve \<longrightarrow> inv s \<longrightarrow> inv t",
        OF _ that], goal_cases)
    case (1 dl p sv s t)
    show ?case
    proof (intro impI)
      assume e: "p = pop" "sv = serve" "inv s"
      obtain u r where p: "pop s = (u, r)" by fastforce
      then have "inv u" using e(3) by (rule pop_inv [rotated])
      then show "inv t" using 1 p e
        by (auto split: prod.splits option.splits if_splits dest: serve_inv)
    qed
  qed
  with assms show ?thesis by blast
qed

end

text \<open>
  The state at the head of the \<open>n\<close>-th pass of the loop (\<open>None\<close> when it ended before), and the loop
  cut after \<open>k\<close> elements: it has a value when the loop returns having taken at most \<open>k\<close>.
\<close>

primrec drain_pass ::
  "('s \<Rightarrow> 's \<times> 'e option) \<Rightarrow> ('e \<Rightarrow> 's \<Rightarrow> 's \<times> bool) \<Rightarrow> nat \<Rightarrow> 's \<Rightarrow> 's option" where
  "drain_pass pop serve 0 s = Some s"
| "drain_pass pop serve (Suc n) s =
     (case pop s of
        (t, None) \<Rightarrow> None
      | (t, Some e) \<Rightarrow>
          (case serve e t of (u, again) \<Rightarrow> if again then drain_pass pop serve n u else None))"

primrec drain_within ::
  "('s \<Rightarrow> 's \<times> 'e option) \<Rightarrow> ('e \<Rightarrow> 's \<Rightarrow> 's \<times> bool) \<Rightarrow> nat \<Rightarrow> 's \<Rightarrow> 's option" where
  "drain_within pop serve 0 s = (case pop s of (t, None) \<Rightarrow> Some t | (t, Some e) \<Rightarrow> None)"
| "drain_within pop serve (Suc k) s =
     (case pop s of
        (t, None) \<Rightarrow> Some t
      | (t, Some e) \<Rightarrow>
          (case serve e t of (u, again) \<Rightarrow> if again then drain_within pop serve k u else Some u))"

lemma drain_within_loop: "drain_within pop serve k s = Some t \<Longrightarrow> drain_loop pop serve s = Some t"
proof (induction k arbitrary: s)
  case 0
  then show ?case
    by (auto simp: drain_loop.simps [of pop serve s] split: prod.splits option.splits)
next
  case (Suc k)
  then show ?case
    by (auto simp: drain_loop.simps [of pop serve s] split: prod.splits option.splits if_splits)
qed

lemma one_pass_states:
  assumes "pop s = (t, Some e)" and "serve e t = (u, True)" and "pop u = (v, None)"
    and "drain_pass pop serve n s = Some x"
  shows "x = s \<or> x = u"
proof (cases n)
  case (Suc m)
  then show ?thesis using assms by (cases m) simp_all
qed (use assms(4) in simp)

text \<open>
  When the loop ends: it takes the elements between a cursor of its own and an index somebody else
  publishes, both 16 bits wide and free running, and serving an element leaves the cursor alone.
\<close>

locale loop_ends =
  fixes pop :: "'s \<Rightarrow> 's \<times> 'e option"
    and serve :: "'e \<Rightarrow> 's \<Rightarrow> 's \<times> bool"
    and idx :: "'s \<Rightarrow> u16"
    and cursor :: "'s \<Rightarrow> u16"
  assumes pop_more: "pop s = (t, Some e) \<Longrightarrow> idx s \<noteq> cursor s \<and> cursor t = cursor s + 1"
    and serve_cursor: "serve e s = (t, b) \<Longrightarrow> cursor t = cursor s"
begin

lemma drain_ends:
  "(\<And>n t. drain_pass pop serve n s = Some t \<Longrightarrow> idx t = i) \<Longrightarrow>
     \<exists>t. drain_within pop serve (unat (i - cursor s)) s = Some t"
proof (induction "unat (i - cursor s)" arbitrary: s)
  case 0
  have "idx s = i" using 0(2) [of 0 s] by simp
  then have "idx s = cursor s" using 0(1) by (simp add: unat_eq_0)
  then have "snd (pop s) = None" using pop_more [of s] by (cases "pop s", cases "snd (pop s)") auto
  then show ?case by (cases "pop s") (simp flip: 0(1))
next
  case (Suc k)
  obtain t r where p: "pop s = (t, r)" by fastforce
  show ?case
  proof (cases r)
    case (Some e)
    obtain u b where sv: "serve e t = (u, b)" by fastforce
    have c: "cursor u = cursor s + 1" using pop_more [of s t e] serve_cursor [OF sv] p Some by simp
    have nz: "i - cursor s \<noteq> 0" using Suc(2) by auto
    have "i - cursor u = i - cursor s - 1" by (simp add: c)
    then have "unat (i - cursor u) = unat (i - cursor s) - 1" using unat_minus_one [OF nz] by (simp only:)
    then have k: "k = unat (i - cursor u)" unfolding Suc(2) [symmetric] by simp
    have "\<exists>v. drain_within pop serve k u = Some v" if "b"
      using Suc(1) [OF k] Suc(3) [of "Suc n" for n] p Some sv that k by simp
    then show ?thesis using p Some sv by (simp flip: Suc(2))
  qed (use p in \<open>simp flip: Suc(2)\<close>)
qed

lemma drain_returns:
  assumes "\<And>n t. drain_pass pop serve n s = Some t \<Longrightarrow> idx t = idx s"
  shows "\<exists>t. drain_loop pop serve s = Some t \<and> drain_within pop serve (unat (idx s - cursor s)) s = Some t"
proof -
  obtain t where "drain_within pop serve (unat (idx s - cursor s)) s = Some t"
    using drain_ends [OF assms] by (rule exE)
  with drain_within_loop [OF this] show ?thesis by blast
qed

end

text \<open>A set of states no iteration leaves, and in which there is always a head, never ends.\<close>

locale loop_never_ends =
  fixes pop :: "'s \<Rightarrow> 's \<times> 'e option"
    and serve :: "'e \<Rightarrow> 's \<Rightarrow> 's \<times> bool"
    and stuck :: "'s \<Rightarrow> bool"
  assumes stuck_step: "stuck s \<Longrightarrow> \<exists>t e u. pop s = (t, Some e) \<and> serve e t = (u, True) \<and> stuck u"
begin

lemma drain_diverges: "stuck s \<Longrightarrow> drain_loop pop serve s = None"
proof -
  have "p = pop \<longrightarrow> sv = serve \<longrightarrow> \<not> stuck s" if "drain_loop p sv s = Some t" for p sv s t
  proof (rule drain_loop.raw_induct [where P = "\<lambda>p sv s t. p = pop \<longrightarrow> sv = serve \<longrightarrow> \<not> stuck s",
        OF _ that], goal_cases)
    case (1 dl p sv s t)
    then show ?case using stuck_step [of s] by auto
  qed
  then show "stuck s \<Longrightarrow> drain_loop pop serve s = None" by (cases "drain_loop pop serve s") auto
qed

end

end
