(* ===== verification/Vel_HW.thy ===== *)
theory Vel_HW
  imports Vel_Prelude
begin

text \<open>
  The shared hardware contract, \<open>qemu-device/velocitor_hw.h\<close>: geometry, register
  offsets of BAR0, wire offsets, and register values. A C macro is an untyped
  integer literal, so each constant is one numeral usable at every width the code
  uses it at; all of them unfold in the simplifier.
\<close>

definition VEL_PCI_VENDOR_ID :: "'a::numeral" where [simp]: "VEL_PCI_VENDOR_ID = 0x1b36"
definition VEL_PCI_DEVICE_ID :: "'a::numeral" where [simp]: "VEL_PCI_DEVICE_ID = 0x100"
definition VEL_PCI_REVISION :: "'a::one" where [simp]: "VEL_PCI_REVISION = 1"
definition VEL_PCI_CLASS :: "'a::numeral" where [simp]: "VEL_PCI_CLASS = 0x1200"
definition VEL_PCI_CAP_MSIX :: "'a::numeral" where [simp]: "VEL_PCI_CAP_MSIX = 0x40"
definition VEL_PCI_CAP_EXPRESS :: "'a::numeral" where [simp]: "VEL_PCI_CAP_EXPRESS = 0x60"
definition VEL_MEM_SIZE :: "'a::numeral" where [simp]: "VEL_MEM_SIZE = 0x10000000"
definition VEL_NODES :: "'a::numeral" where [simp]: "VEL_NODES = 2"
definition VEL_ENGINES :: "'a::numeral" where [simp]: "VEL_ENGINES = 2"
definition VEL_STREAMS :: "'a::numeral" where [simp]: "VEL_STREAMS = 2"
definition VEL_APERTURE_SIZE :: "'a::numeral" where [simp]: "VEL_APERTURE_SIZE = 0x1000000"
definition VEL_WINDOW_SIZE :: "'a::numeral" where [simp]: "VEL_WINDOW_SIZE = 0x1000000"
definition VEL_DMA_BITS :: "'a::numeral" where [simp]: "VEL_DMA_BITS = 42"
definition VEL_FAR_PENALTY :: "'a::numeral" where [simp]: "VEL_FAR_PENALTY = 4"
definition VEL_HOST_POOL_SIZE :: "'a::numeral" where [simp]: "VEL_HOST_POOL_SIZE = 0x4000000"
definition VEL_ALLOC_ALIGN :: "'a::numeral" where [simp]: "VEL_ALLOC_ALIGN = 256"
definition VEL_NODE_ANY :: "'a::numeral" where [simp]: "VEL_NODE_ANY = 0xffffffff"
definition VEL_ENGINE_ANY :: "'a::numeral" where [simp]: "VEL_ENGINE_ANY = 0xffffffff"
definition VEL_NODE_SIZE :: "'a::numeral" where [simp]: "VEL_NODE_SIZE = 0x8000000"
definition VEL_NODE0_BASE :: "'a::numeral" where [simp]: "VEL_NODE0_BASE = 0x1000000"
definition VEL_NODE0_END :: "'a::numeral" where [simp]: "VEL_NODE0_END = 0x8000000"
definition VEL_NODE1_BASE :: "'a::numeral" where [simp]: "VEL_NODE1_BASE = 0x8000000"
definition VEL_NODE1_END :: "'a::numeral" where [simp]: "VEL_NODE1_END = 0x10000000"
definition VEL_VIRTIO_ID :: "'a::numeral" where [simp]: "VEL_VIRTIO_ID = 0x4000"
definition VEL_VRING_NUM :: "'a::numeral" where [simp]: "VEL_VRING_NUM = 256"
definition VEL_VRING_ALIGN :: "'a::numeral" where [simp]: "VEL_VRING_ALIGN = 4096"
definition VEL_MSIX_VECTORS :: "'a::numeral" where [simp]: "VEL_MSIX_VECTORS = 6"
definition VEL_VQ_CTRL_RX :: "'a::zero" where [simp]: "VEL_VQ_CTRL_RX = 0"
definition VEL_VQ_CTRL_TX :: "'a::one" where [simp]: "VEL_VQ_CTRL_TX = 1"
definition VEL_VQ_ENGINE0 :: "'a::numeral" where [simp]: "VEL_VQ_ENGINE0 = 2"
definition VEL_VQ_ENGINE1 :: "'a::numeral" where [simp]: "VEL_VQ_ENGINE1 = 3"
definition VEL_VQ_COUNT :: "'a::numeral" where [simp]: "VEL_VQ_COUNT = 4"
definition VEL_RPMSG_NS_ADDR :: "'a::numeral" where [simp]: "VEL_RPMSG_NS_ADDR = 53"
definition VEL_RPMSG_CTRL_ADDR :: "'a::numeral" where [simp]: "VEL_RPMSG_CTRL_ADDR = 1024"
definition VEL_CTRL_NAME :: string where [simp]: "VEL_CTRL_NAME = ''velocitor-ctrl''"
definition VEL_OP_INFO :: "'a::one" where [simp]: "VEL_OP_INFO = 1"
definition VEL_OP_ALLOC :: "'a::numeral" where [simp]: "VEL_OP_ALLOC = 2"
definition VEL_OP_FREE :: "'a::numeral" where [simp]: "VEL_OP_FREE = 3"
definition VEL_OP_STAT :: "'a::numeral" where [simp]: "VEL_OP_STAT = 4"
definition VEL_DATA_OP_COPY_H2D :: "'a::one" where [simp]: "VEL_DATA_OP_COPY_H2D = 1"
definition VEL_DATA_OP_COPY_D2H :: "'a::numeral" where [simp]: "VEL_DATA_OP_COPY_D2H = 2"
definition VEL_DATA_OP_GEMM :: "'a::numeral" where [simp]: "VEL_DATA_OP_GEMM = 3"
definition VEL_DTYPE_FP32 :: "'a::zero" where [simp]: "VEL_DTYPE_FP32 = 0"
definition VEL_DTYPE_BF16 :: "'a::one" where [simp]: "VEL_DTYPE_BF16 = 1"
definition VEL_CYCLES_COPY :: "'a::numeral" where [simp]: "VEL_CYCLES_COPY = 100"
definition VEL_HOST_RANGE_SIZE :: "'a::numeral" where [simp]: "VEL_HOST_RANGE_SIZE = 0x10"
definition VEL_HOST_RANGE_OFF_ADDR :: "'a::zero" where [simp]: "VEL_HOST_RANGE_OFF_ADDR = 0"
definition VEL_HOST_RANGE_OFF_LEN :: "'a::numeral" where [simp]: "VEL_HOST_RANGE_OFF_LEN = 0x8"
definition VEL_REQ_HDR_OFF_SEQ :: "'a::zero" where [simp]: "VEL_REQ_HDR_OFF_SEQ = 0"
definition VEL_REQ_HDR_OFF_GENERATION :: "'a::numeral" where [simp]: "VEL_REQ_HDR_OFF_GENERATION = 0x4"
definition VEL_REQ_HDR_OFF_OP :: "'a::numeral" where [simp]: "VEL_REQ_HDR_OFF_OP = 0x8"
definition VEL_REQ_HDR_OFF_FLAGS :: "'a::numeral" where [simp]: "VEL_REQ_HDR_OFF_FLAGS = 0xa"
definition VEL_REQ_HDR_SIZE :: "'a::numeral" where [simp]: "VEL_REQ_HDR_SIZE = 0x10"
definition VEL_COPY_HDR_OFF_HANDLE :: "'a::zero" where [simp]: "VEL_COPY_HDR_OFF_HANDLE = 0"
definition VEL_COPY_HDR_OFF_OFFSET :: "'a::numeral" where [simp]: "VEL_COPY_HDR_OFF_OFFSET = 0x8"
definition VEL_COPY_HDR_OFF_HOST :: "'a::numeral" where [simp]: "VEL_COPY_HDR_OFF_HOST = 0x10"
definition VEL_COPY_HDR_SIZE :: "'a::numeral" where [simp]: "VEL_COPY_HDR_SIZE = 0x20"
definition VEL_GEMM_HDR_OFF_H_A :: "'a::zero" where [simp]: "VEL_GEMM_HDR_OFF_H_A = 0"
definition VEL_GEMM_HDR_OFF_M :: "'a::numeral" where [simp]: "VEL_GEMM_HDR_OFF_M = 0xc"
definition VEL_GEMM_HDR_OFF_DTYPE :: "'a::numeral" where [simp]: "VEL_GEMM_HDR_OFF_DTYPE = 0x18"
definition VEL_GEMM_HDR_OFF_FLAGS :: "'a::numeral" where [simp]: "VEL_GEMM_HDR_OFF_FLAGS = 0x1c"
definition VEL_GEMM_HDR_OFF_HOST :: "'a::numeral" where [simp]: "VEL_GEMM_HDR_OFF_HOST = 0x20"
definition VEL_GEMM_HDR_SIZE :: "'a::numeral" where [simp]: "VEL_GEMM_HDR_SIZE = 0x50"
definition VEL_RESP_OFF_SEQ :: "'a::zero" where [simp]: "VEL_RESP_OFF_SEQ = 0"
definition VEL_RESP_OFF_STATUS :: "'a::numeral" where [simp]: "VEL_RESP_OFF_STATUS = 0x4"
definition VEL_RESP_OFF_CYCLES :: "'a::numeral" where [simp]: "VEL_RESP_OFF_CYCLES = 0x8"
definition VEL_RESP_OFF_FAR_ACCESSES :: "'a::numeral" where [simp]: "VEL_RESP_OFF_FAR_ACCESSES = 0x10"
definition VEL_RESP_OFF_ENGINE :: "'a::numeral" where [simp]: "VEL_RESP_OFF_ENGINE = 0x14"
definition VEL_RESP_SIZE :: "'a::numeral" where [simp]: "VEL_RESP_SIZE = 0x18"
definition VEL_DATA_INFLIGHT :: "'a::numeral" where [simp]: "VEL_DATA_INFLIGHT = 128"
definition VEL_CTRL_CAP_NODE_HINT :: "'a::one" where [simp]: "VEL_CTRL_CAP_NODE_HINT = 1"
definition VEL_FW_MAGIC :: "'a::numeral" where [simp]: "VEL_FW_MAGIC = 0x4f465456"
definition VEL_FW_ABI :: "'a::one" where [simp]: "VEL_FW_ABI = 1"
definition VEL_FW_HDR_DA :: "'a::zero" where [simp]: "VEL_FW_HDR_DA = 0"
definition VEL_FW_NAME :: string where [simp]: "VEL_FW_NAME = ''velocitor-fw.elf''"
definition VEL_FW_HDR_OFF_MAGIC :: "'a::zero" where [simp]: "VEL_FW_HDR_OFF_MAGIC = 0"
definition VEL_FW_HDR_OFF_ABI :: "'a::numeral" where [simp]: "VEL_FW_HDR_OFF_ABI = 0x4"
definition VEL_FW_HDR_OFF_TRACE_DA :: "'a::numeral" where [simp]: "VEL_FW_HDR_OFF_TRACE_DA = 0x8"
definition VEL_FW_HDR_OFF_TRACE_LEN :: "'a::numeral" where [simp]: "VEL_FW_HDR_OFF_TRACE_LEN = 0xc"
definition VEL_FW_HDR_SIZE :: "'a::numeral" where [simp]: "VEL_FW_HDR_SIZE = 0x10"
definition VEL_TRACE_SIZE :: "'a::numeral" where [simp]: "VEL_TRACE_SIZE = 0x10000"
definition VEL_TRACE_ENTRY :: "'a::numeral" where [simp]: "VEL_TRACE_ENTRY = 128"
definition VEL_TRACE_ENTRIES :: "'a::numeral" where [simp]: "VEL_TRACE_ENTRIES = 511"
definition VEL_TRACE_OFF_HEAD :: "'a::zero" where [simp]: "VEL_TRACE_OFF_HEAD = 0"
definition VEL_TRACE_OFF_TAIL :: "'a::numeral" where [simp]: "VEL_TRACE_OFF_TAIL = 0x4"
definition VEL_TRACE_OFF_DROPPED :: "'a::numeral" where [simp]: "VEL_TRACE_OFF_DROPPED = 0x8"
definition VEL_TRACE_OFF_ENTRY_SIZE :: "'a::numeral" where [simp]: "VEL_TRACE_OFF_ENTRY_SIZE = 0xc"
definition VEL_TRACE_HDR_SIZE :: "'a::numeral" where [simp]: "VEL_TRACE_HDR_SIZE = 0x10"
definition VEL_TRACE_LEVEL_INFO :: "'a::zero" where [simp]: "VEL_TRACE_LEVEL_INFO = 0"
definition VEL_TRACE_LEVEL_WARN :: "'a::one" where [simp]: "VEL_TRACE_LEVEL_WARN = 1"
definition VEL_TRACE_LEVEL_ERROR :: "'a::numeral" where [simp]: "VEL_TRACE_LEVEL_ERROR = 2"
definition VEL_TRACE_ENGINE_NONE :: "'a::numeral" where [simp]: "VEL_TRACE_ENGINE_NONE = 0xffff"
definition VEL_TRACE_SEQ_NONE :: "'a::zero" where [simp]: "VEL_TRACE_SEQ_NONE = 0"
definition VEL_BAR0_INDEX :: "'a::zero" where [simp]: "VEL_BAR0_INDEX = 0"
definition VEL_BAR0_SIZE :: "'a::numeral" where [simp]: "VEL_BAR0_SIZE = 4096"
definition VEL_BAR2_INDEX :: "'a::numeral" where [simp]: "VEL_BAR2_INDEX = 2"
definition VEL_BAR2_SIZE :: "'a::numeral" where [simp]: "VEL_BAR2_SIZE = 0x2000000"
definition VEL_BAR4_INDEX :: "'a::numeral" where [simp]: "VEL_BAR4_INDEX = 4"
definition VEL_BAR4_SIZE :: "'a::numeral" where [simp]: "VEL_BAR4_SIZE = 0x2000"
definition VEL_MSIX_TABLE_OFF :: "'a::zero" where [simp]: "VEL_MSIX_TABLE_OFF = 0"
definition VEL_MSIX_PBA_OFF :: "'a::numeral" where [simp]: "VEL_MSIX_PBA_OFF = 0x1000"
definition VEL_IRQ_VEC_CONFIG :: "'a::zero" where [simp]: "VEL_IRQ_VEC_CONFIG = 0"
definition VEL_IRQ_VEC_VRING0 :: "'a::one" where [simp]: "VEL_IRQ_VEC_VRING0 = 1"
definition VEL_IRQ_VEC_VRING1 :: "'a::numeral" where [simp]: "VEL_IRQ_VEC_VRING1 = 2"
definition VEL_IRQ_VEC_ENGQ0 :: "'a::numeral" where [simp]: "VEL_IRQ_VEC_ENGQ0 = 3"
definition VEL_IRQ_VEC_ENGQ1 :: "'a::numeral" where [simp]: "VEL_IRQ_VEC_ENGQ1 = 4"
definition VEL_IRQ_VEC_ERROR :: "'a::numeral" where [simp]: "VEL_IRQ_VEC_ERROR = 5"
definition VEL_IRQ_LATCHED :: "'a::numeral" where [simp]: "VEL_IRQ_LATCHED = 33"
definition VEL_BAR2_WINDOW_OFF :: "'a::numeral" where [simp]: "VEL_BAR2_WINDOW_OFF = 0x1000000"
definition VEL_BLK_CTRL_BASE :: "'a::zero" where [simp]: "VEL_BLK_CTRL_BASE = 0"
definition VEL_BLK_CTRL_END :: "'a::numeral" where [simp]: "VEL_BLK_CTRL_END = 0x4f"
definition VEL_BLK_ERR_BASE :: "'a::numeral" where [simp]: "VEL_BLK_ERR_BASE = 0x50"
definition VEL_BLK_ERR_END :: "'a::numeral" where [simp]: "VEL_BLK_ERR_END = 0x6f"
definition VEL_BLK_DBGDMA_BASE :: "'a::numeral" where [simp]: "VEL_BLK_DBGDMA_BASE = 0x70"
definition VEL_BLK_DBGDMA_END :: "'a::numeral" where [simp]: "VEL_BLK_DBGDMA_END = 0x8f"
definition VEL_BLK_CNT_BASE :: "'a::numeral" where [simp]: "VEL_BLK_CNT_BASE = 0x90"
definition VEL_BLK_CNT_END :: "'a::numeral" where [simp]: "VEL_BLK_CNT_END = 0xef"
definition VEL_BLK_RSC_BASE :: "'a::numeral" where [simp]: "VEL_BLK_RSC_BASE = 0xf0"
definition VEL_BLK_RSC_END :: "'a::numeral" where [simp]: "VEL_BLK_RSC_END = 0xff"
definition VEL_BLK_VQ_BASE :: "'a::numeral" where [simp]: "VEL_BLK_VQ_BASE = 0x100"
definition VEL_BLK_VQ_END :: "'a::numeral" where [simp]: "VEL_BLK_VQ_END = 0x12f"
definition VEL_REG_MAGIC :: "'a::zero" where [simp]: "VEL_REG_MAGIC = 0"
definition VEL_REG_VERSION :: "'a::numeral" where [simp]: "VEL_REG_VERSION = 0x4"
definition VEL_REG_CAPS :: "'a::numeral" where [simp]: "VEL_REG_CAPS = 0x8"
definition VEL_REG_SCRATCH :: "'a::numeral" where [simp]: "VEL_REG_SCRATCH = 0xc"
definition VEL_REG_MEM_SIZE :: "'a::numeral" where [simp]: "VEL_REG_MEM_SIZE = 0x10"
definition VEL_REG_TOPOLOGY :: "'a::numeral" where [simp]: "VEL_REG_TOPOLOGY = 0x14"
definition VEL_REG_DMA_BITS :: "'a::numeral" where [simp]: "VEL_REG_DMA_BITS = 0x18"
definition VEL_REG_RESET :: "'a::numeral" where [simp]: "VEL_REG_RESET = 0x1c"
definition VEL_REG_FW_STATUS :: "'a::numeral" where [simp]: "VEL_REG_FW_STATUS = 0x20"
definition VEL_REG_WIN_BASE :: "'a::numeral" where [simp]: "VEL_REG_WIN_BASE = 0x24"
definition VEL_REG_IRQ_STATUS :: "'a::numeral" where [simp]: "VEL_REG_IRQ_STATUS = 0x28"
definition VEL_REG_IRQ_MASK :: "'a::numeral" where [simp]: "VEL_REG_IRQ_MASK = 0x2c"
definition VEL_REG_IRQ_ACK :: "'a::numeral" where [simp]: "VEL_REG_IRQ_ACK = 0x30"
definition VEL_REG_DOORBELL :: "'a::numeral" where [simp]: "VEL_REG_DOORBELL = 0x34"
definition VEL_REG_FW_ABI :: "'a::numeral" where [simp]: "VEL_REG_FW_ABI = 0x38"
definition VEL_REG_GENERATION :: "'a::numeral" where [simp]: "VEL_REG_GENERATION = 0x3c"
definition VEL_REG_ERR_INJECT :: "'a::numeral" where [simp]: "VEL_REG_ERR_INJECT = 0x40"
definition VEL_REG_ERR_INJECT_ARG :: "'a::numeral" where [simp]: "VEL_REG_ERR_INJECT_ARG = 0x44"
definition VEL_REG_ERR_CODE :: "'a::numeral" where [simp]: "VEL_REG_ERR_CODE = 0x50"
definition VEL_REG_ERR_INFO_LO :: "'a::numeral" where [simp]: "VEL_REG_ERR_INFO_LO = 0x54"
definition VEL_REG_ERR_INFO_HI :: "'a::numeral" where [simp]: "VEL_REG_ERR_INFO_HI = 0x58"
definition VEL_REG_ERR_NOTIFYID :: "'a::numeral" where [simp]: "VEL_REG_ERR_NOTIFYID = 0x5c"
definition VEL_REG_ERR_HANDLE :: "'a::numeral" where [simp]: "VEL_REG_ERR_HANDLE = 0x60"
definition VEL_REG_ERR_GENERATION :: "'a::numeral" where [simp]: "VEL_REG_ERR_GENERATION = 0x64"
definition VEL_REG_ERR_DROPPED :: "'a::numeral" where [simp]: "VEL_REG_ERR_DROPPED = 0x68"
definition VEL_REG_DBG_DMA_ADDR_LO :: "'a::numeral" where [simp]: "VEL_REG_DBG_DMA_ADDR_LO = 0x70"
definition VEL_REG_DBG_DMA_ADDR_HI :: "'a::numeral" where [simp]: "VEL_REG_DBG_DMA_ADDR_HI = 0x74"
definition VEL_REG_DBG_DMA_DEV :: "'a::numeral" where [simp]: "VEL_REG_DBG_DMA_DEV = 0x78"
definition VEL_REG_DBG_DMA_LEN :: "'a::numeral" where [simp]: "VEL_REG_DBG_DMA_LEN = 0x7c"
definition VEL_REG_DBG_DMA_CTL :: "'a::numeral" where [simp]: "VEL_REG_DBG_DMA_CTL = 0x80"
definition VEL_REG_DBG_DMA_STATUS :: "'a::numeral" where [simp]: "VEL_REG_DBG_DMA_STATUS = 0x84"
definition VEL_DBG_DMA_H2D :: "'a::one" where [simp]: "VEL_DBG_DMA_H2D = 1"
definition VEL_DBG_DMA_D2H :: "'a::numeral" where [simp]: "VEL_DBG_DMA_D2H = 2"
definition VEL_DMA_STATUS_IDLE :: "'a::zero" where [simp]: "VEL_DMA_STATUS_IDLE = 0"
definition VEL_DMA_STATUS_BUSY :: "'a::one" where [simp]: "VEL_DMA_STATUS_BUSY = 1"
definition VEL_DMA_STATUS_DONE :: "'a::numeral" where [simp]: "VEL_DMA_STATUS_DONE = 2"
definition VEL_DMA_STATUS_ERROR :: "'a::numeral" where [simp]: "VEL_DMA_STATUS_ERROR = 3"
definition VEL_REG_CNT_RESET :: "'a::numeral" where [simp]: "VEL_REG_CNT_RESET = 0x90"
definition VEL_REG_CNT_SNAP :: "'a::numeral" where [simp]: "VEL_REG_CNT_SNAP = 0x94"
definition VEL_REG_CNT_DB_RX :: "'a::numeral" where [simp]: "VEL_REG_CNT_DB_RX = 0x98"
definition VEL_REG_CNT_NOTIFY_TX :: "'a::numeral" where [simp]: "VEL_REG_CNT_NOTIFY_TX = 0x9c"
definition VEL_REG_CNT_NOTIFY_COALESCED :: "'a::numeral" where [simp]: "VEL_REG_CNT_NOTIFY_COALESCED = 0xa0"
definition VEL_REG_CNT_NOTIFY_DROPPED :: "'a::numeral" where [simp]: "VEL_REG_CNT_NOTIFY_DROPPED = 0xa4"
definition VEL_REG_CNT_DESC :: "'a::numeral" where [simp]: "VEL_REG_CNT_DESC = 0xa8"
definition VEL_REG_CNT_GEMM :: "'a::numeral" where [simp]: "VEL_REG_CNT_GEMM = 0xac"
definition VEL_REG_CNT_DMA_RD :: "'a::numeral" where [simp]: "VEL_REG_CNT_DMA_RD = 0xb0"
definition VEL_REG_CNT_DMA_WR :: "'a::numeral" where [simp]: "VEL_REG_CNT_DMA_WR = 0xb4"
definition VEL_REG_CNT_BYTES_RD_LO :: "'a::numeral" where [simp]: "VEL_REG_CNT_BYTES_RD_LO = 0xb8"
definition VEL_REG_CNT_BYTES_RD_HI :: "'a::numeral" where [simp]: "VEL_REG_CNT_BYTES_RD_HI = 0xbc"
definition VEL_REG_CNT_BYTES_WR_LO :: "'a::numeral" where [simp]: "VEL_REG_CNT_BYTES_WR_LO = 0xc0"
definition VEL_REG_CNT_BYTES_WR_HI :: "'a::numeral" where [simp]: "VEL_REG_CNT_BYTES_WR_HI = 0xc4"
definition VEL_REG_CNT_WIN_MOVE :: "'a::numeral" where [simp]: "VEL_REG_CNT_WIN_MOVE = 0xc8"
definition VEL_REG_CNT_FAR_ACCESS :: "'a::numeral" where [simp]: "VEL_REG_CNT_FAR_ACCESS = 0xcc"
definition VEL_REG_CNT_ERR_DESC :: "'a::numeral" where [simp]: "VEL_REG_CNT_ERR_DESC = 0xd0"
definition VEL_REG_CNT_ERR_RANGE :: "'a::numeral" where [simp]: "VEL_REG_CNT_ERR_RANGE = 0xd4"
definition VEL_REG_CNT_STALL_E0 :: "'a::numeral" where [simp]: "VEL_REG_CNT_STALL_E0 = 0xd8"
definition VEL_REG_CNT_STALL_E1 :: "'a::numeral" where [simp]: "VEL_REG_CNT_STALL_E1 = 0xdc"
definition VEL_REG_CNT_CYCLES_E0 :: "'a::numeral" where [simp]: "VEL_REG_CNT_CYCLES_E0 = 0xe0"
definition VEL_REG_CNT_CYCLES_E1 :: "'a::numeral" where [simp]: "VEL_REG_CNT_CYCLES_E1 = 0xe4"
definition VEL_CNT_FIRST :: "'a::numeral" where [simp]: "VEL_CNT_FIRST = 152"
definition VEL_CNT_LAST :: "'a::numeral" where [simp]: "VEL_CNT_LAST = 228"
definition VEL_CNT_COUNT :: "'a::numeral" where [simp]: "VEL_CNT_COUNT = 20"
definition VEL_REG_RSC_ADDR_LO :: "'a::numeral" where [simp]: "VEL_REG_RSC_ADDR_LO = 0xf0"
definition VEL_REG_RSC_ADDR_HI :: "'a::numeral" where [simp]: "VEL_REG_RSC_ADDR_HI = 0xf4"
definition VEL_REG_RSC_LEN :: "'a::numeral" where [simp]: "VEL_REG_RSC_LEN = 0xf8"
definition VEL_REG_RSC_VALID :: "'a::numeral" where [simp]: "VEL_REG_RSC_VALID = 0xfc"
definition VEL_REG_VQ_SELECT :: "'a::numeral" where [simp]: "VEL_REG_VQ_SELECT = 0x100"
definition VEL_REG_VQ_NUM_MAX :: "'a::numeral" where [simp]: "VEL_REG_VQ_NUM_MAX = 0x104"
definition VEL_REG_VQ_NUM :: "'a::numeral" where [simp]: "VEL_REG_VQ_NUM = 0x108"
definition VEL_REG_VQ_ENABLE :: "'a::numeral" where [simp]: "VEL_REG_VQ_ENABLE = 0x10c"
definition VEL_REG_VQ_DESC_LO :: "'a::numeral" where [simp]: "VEL_REG_VQ_DESC_LO = 0x110"
definition VEL_REG_VQ_DESC_HI :: "'a::numeral" where [simp]: "VEL_REG_VQ_DESC_HI = 0x114"
definition VEL_REG_VQ_AVAIL_LO :: "'a::numeral" where [simp]: "VEL_REG_VQ_AVAIL_LO = 0x118"
definition VEL_REG_VQ_AVAIL_HI :: "'a::numeral" where [simp]: "VEL_REG_VQ_AVAIL_HI = 0x11c"
definition VEL_REG_VQ_USED_LO :: "'a::numeral" where [simp]: "VEL_REG_VQ_USED_LO = 0x120"
definition VEL_REG_VQ_USED_HI :: "'a::numeral" where [simp]: "VEL_REG_VQ_USED_HI = 0x124"
definition VEL_REG_VQ_MSIX_VECTOR :: "'a::numeral" where [simp]: "VEL_REG_VQ_MSIX_VECTOR = 0x128"
definition VEL_MAGIC :: "'a::numeral" where [simp]: "VEL_MAGIC = 0x4f4c4556"
definition VEL_VERSION_MAJOR :: "'a::zero" where [simp]: "VEL_VERSION_MAJOR = 0"
definition VEL_VERSION_MINOR :: "'a::numeral" where [simp]: "VEL_VERSION_MINOR = 6"
definition VEL_VERSION :: "'a::numeral" where [simp]: "VEL_VERSION = 6"
definition VEL_CAP_FP32 :: "'a::one" where [simp]: "VEL_CAP_FP32 = 1"
definition VEL_CAP_BF16 :: "'a::numeral" where [simp]: "VEL_CAP_BF16 = 2"
definition VEL_CAP_TRANSPOSE :: "'a::numeral" where [simp]: "VEL_CAP_TRANSPOSE = 4"
definition VEL_TOPOLOGY :: "'a::numeral" where [simp]: "VEL_TOPOLOGY = 0x20002"
definition VEL_ERR_INJECT_GEMM_EIO :: "'a::one" where [simp]: "VEL_ERR_INJECT_GEMM_EIO = 1"
definition VEL_ERR_INJECT_CORRUPT :: "'a::numeral" where [simp]: "VEL_ERR_INJECT_CORRUPT = 2"
definition VEL_ERR_INJECT_FW_CRASH :: "'a::numeral" where [simp]: "VEL_ERR_INJECT_FW_CRASH = 4"
definition VEL_ERR_INJECT_DELAY :: "'a::numeral" where [simp]: "VEL_ERR_INJECT_DELAY = 8"
definition VEL_ERR_INJECT_DROP_NOTIF :: "'a::numeral" where [simp]: "VEL_ERR_INJECT_DROP_NOTIF = 16"
definition VEL_ERR_INJECT_ALLOC_FAIL :: "'a::numeral" where [simp]: "VEL_ERR_INJECT_ALLOC_FAIL = 32"
definition VEL_ERR_INJECT_WIN_IGNORE :: "'a::numeral" where [simp]: "VEL_ERR_INJECT_WIN_IGNORE = 64"
definition VEL_ERR_INJECT_ENG1_STALL :: "'a::numeral" where [simp]: "VEL_ERR_INJECT_ENG1_STALL = 128"
definition VEL_ERR_INJECT_STALE_GEN :: "'a::numeral" where [simp]: "VEL_ERR_INJECT_STALE_GEN = 256"
definition VEL_NOTIFYID_NONE :: "'a::numeral" where [simp]: "VEL_NOTIFYID_NONE = 0xffffffff"
definition VEL_FW_STATUS_RESET :: "'a::zero" where [simp]: "VEL_FW_STATUS_RESET = 0"
definition VEL_FW_STATUS_VERIFIED :: "'a::one" where [simp]: "VEL_FW_STATUS_VERIFIED = 1"
definition VEL_FW_STATUS_RUNNING :: "'a::numeral" where [simp]: "VEL_FW_STATUS_RUNNING = 2"
definition VEL_FW_STATUS_CRASHED :: "'a::numeral" where [simp]: "VEL_FW_STATUS_CRASHED = 3"
definition VEL_ERR_NONE :: "'a::zero" where [simp]: "VEL_ERR_NONE = 0"
definition VEL_ERR_BAD_DESC :: "'a::one" where [simp]: "VEL_ERR_BAD_DESC = 1"
definition VEL_ERR_OUT_OF_BOUNDS :: "'a::numeral" where [simp]: "VEL_ERR_OUT_OF_BOUNDS = 2"
definition VEL_ERR_BAD_HANDLE :: "'a::numeral" where [simp]: "VEL_ERR_BAD_HANDLE = 3"
definition VEL_ERR_DMA_WIDTH :: "'a::numeral" where [simp]: "VEL_ERR_DMA_WIDTH = 4"
definition VEL_ERR_GEMM_DIMS :: "'a::numeral" where [simp]: "VEL_ERR_GEMM_DIMS = 5"
definition VEL_ERR_DTYPE :: "'a::numeral" where [simp]: "VEL_ERR_DTYPE = 6"
definition VEL_ERR_NOMEM :: "'a::numeral" where [simp]: "VEL_ERR_NOMEM = 7"
definition VEL_ERR_WINDOW_MOVED :: "'a::numeral" where [simp]: "VEL_ERR_WINDOW_MOVED = 8"
definition VEL_ERR_STALE :: "'a::numeral" where [simp]: "VEL_ERR_STALE = 9"
definition VEL_ERR_FW_HEADER :: "'a::numeral" where [simp]: "VEL_ERR_FW_HEADER = 10"

text \<open>The index of a readable counter register in the counter block.\<close>

definition VEL_CNT_INDEX :: "u64 \<Rightarrow> nat" where
  "VEL_CNT_INDEX off = unat ((off - VEL_CNT_FIRST) div 4)"

text \<open>The derived geometry of the header, as the source writes it.\<close>

lemma geometry:
  "(VEL_NODE_SIZE :: nat) = VEL_MEM_SIZE div VEL_NODES"
  "(VEL_NODE0_BASE :: nat) = VEL_APERTURE_SIZE"
  "(VEL_NODE1_END :: nat) = VEL_MEM_SIZE"
  "(VEL_CNT_COUNT :: nat) = (VEL_CNT_LAST - VEL_CNT_FIRST) div 4 + 1"
  "(VEL_BAR2_SIZE :: nat) = VEL_APERTURE_SIZE + VEL_WINDOW_SIZE"
  by simp_all

section \<open>Error numbers\<close>

text \<open>The \<open>errno\<close> values the sources return negated (Linux generic numbering).\<close>

definition EIO :: int where [simp]: "EIO = 5"
definition ENOMEM :: int where [simp]: "ENOMEM = 12"
definition EFAULT :: int where [simp]: "EFAULT = 14"
definition EBUSY :: int where [simp]: "EBUSY = 16"
definition ENODEV :: int where [simp]: "ENODEV = 19"
definition EINVAL :: int where [simp]: "EINVAL = 22"
definition ENOTTY :: int where [simp]: "ENOTTY = 25"
definition ENAMETOOLONG :: int where [simp]: "ENAMETOOLONG = 36"
definition ENOSYS :: int where [simp]: "ENOSYS = 38"
definition EPROTO :: int where [simp]: "EPROTO = 71"
definition EMSGSIZE :: int where [simp]: "EMSGSIZE = 90"
definition ETIMEDOUT :: int where [simp]: "ETIMEDOUT = 110"
definition ESTALE :: int where [simp]: "ESTALE = 116"
definition EREMOTEIO :: int where [simp]: "EREMOTEIO = 121"
definition ECANCELED :: int where [simp]: "ECANCELED = 125"
definition ENOENT :: int where [simp]: "ENOENT = 2"

end
