(* ===== verification/Vel_State.thy ===== *)
theory Vel_State
  imports Vel_HW
begin

text \<open>
  The state of the QEMU device model (\<open>qemu-device/velocitor.c\<close>), field by field,
  and the parts of QEMU it rests on. The arrays of the C structures are functions
  from the index; that every index the code computes is in range is proved, not
  assumed (the queue, allocator and trace invariants).

  QEMU itself is not under \<open>src/\<close>: the PCI DMA address space is the parameter
  \<open>pci_bus\<close>, over an arbitrary type \<open>'h\<close> of host memories. A read answers the
  bytes put in the caller's buffer and whether the transaction succeeded
  (\<open>MEMTX_OK\<close>); a write answers the new host memory and the same flag.
\<close>

record 'h pci_bus =
  pci_dma_read :: "'h \<Rightarrow> u64 \<Rightarrow> nat \<Rightarrow> bytes \<times> bool"
  pci_dma_write :: "'h \<Rightarrow> u64 \<Rightarrow> bytes \<Rightarrow> 'h \<times> bool"

text \<open>
  The documented behaviour of \<open>pci_dma_read\<close> that the model relies on: it fills the
  whole buffer it is given.
\<close>

definition bus_fills :: "'h pci_bus \<Rightarrow> bool" where
  "bus_fills B \<longleftrightarrow> (\<forall>h a n. length (fst (pci_dma_read B h a n)) = n)"

lemma bus_fillsD: "bus_fills B \<Longrightarrow> pci_dma_read B h a n = (bs, ok) \<Longrightarrow> length bs = n"
  by (metis bus_fills_def fst_conv)

text \<open>Plain memory behind the bus, at which the theorems are instantiated.\<close>

definition ram_bus :: "store pci_bus" where
  "ram_bus = \<lparr>pci_dma_read = \<lambda>m a n. (mem_load m (unat a) n, True),
     pci_dma_write = \<lambda>m a bs. (mem_store m (unat a) bs, True)\<rparr>"

lemma ram_bus_simps [simp]:
  "pci_dma_read ram_bus m a n = (mem_load m (unat a) n, True)"
  "pci_dma_write ram_bus m a bs = (mem_store m (unat a) bs, True)"
  by (simp_all add: ram_bus_def)

lemma ram_bus_fills: "bus_fills ram_bus"
  by (simp add: bus_fills_def ram_bus_def)

record velocitor_queue =
  q_num :: u32
  q_enable :: u32
  q_desc_lo :: u32
  q_desc_hi :: u32
  q_avail_lo :: u32
  q_avail_hi :: u32
  q_used_lo :: u32
  q_used_hi :: u32
  q_msix_vector :: u32
  q_notifyid :: u32
  q_vdev_off :: u32
  q_gfeatures :: u32
  q_vstatus :: u32
  q_last_avail :: u32

record velocitor_alloc =
  a_offset :: u64
  a_size :: u64
  a_node :: u32
  a_live :: u32

definition VEL_MAX_HANDLES :: u32 where [simp]: "VEL_MAX_HANDLES = 1024"

text \<open>
  Beside the C fields: \<open>window_off\<close> is the offset of the movable alias of BAR2
  (\<open>memory_region_set_alias_offset\<close>), the three timers are the deadline they are
  armed for, \<open>clock\<close> is the virtual clock, \<open>msix_on\<close> is \<open>msix_enabled()\<close>,
  \<open>msix_log\<close> the messages sent by \<open>msix_notify()\<close> (newest first), and \<open>host\<close>
  the memory behind the PCI bus.
\<close>

record 'h velocitor_state =
  scratch :: u32
  mem :: store
  window_off :: u64
  win_base :: u32
  win_pending :: u32
  cnt :: "nat \<Rightarrow> u32"
  cnt_snap :: "nat \<Rightarrow> u32"
  irq_status :: u32
  irq_mask :: u32
  reset :: u32
  fw_status :: u32
  fw_abi :: u32
  generation :: u32
  trace_da :: u32
  trace_len :: u32
  trace_epoch :: u64
  boot_timer :: "u64 option"
  dma_timer :: "u64 option"
  dma_addr_lo :: u32
  dma_addr_hi :: u32
  dma_dev :: u32
  dma_len :: u32
  dma_ctl :: u32
  dma_status :: u32
  rsc_addr_lo :: u32
  rsc_addr_hi :: u32
  rsc_len :: u32
  rsc_valid :: u32
  vq_select :: u32
  vq :: "nat \<Rightarrow> velocitor_queue"
  rpmsg_announced :: bool
  vq_pending :: u32
  vq_timer :: "u64 option"
  err_code :: u32
  err_info_lo :: u32
  err_info_hi :: u32
  err_notifyid :: u32
  err_handle :: u32
  err_generation :: u32
  err_dropped :: u32
  node_bump :: "nat \<Rightarrow> u64"
  next_handle :: u32
  live_handles :: u32
  alloc :: "nat \<Rightarrow> velocitor_alloc"
  err_inject :: u32
  err_inject_arg :: u32
  clock :: u64
  msix_on :: bool
  msix_log :: "nat list"
  host :: 'h

text \<open>
  A fresh object: QEMU zeroes the instance before \<open>velocitor_realize\<close> runs.
\<close>

definition no_queue :: velocitor_queue where
  "no_queue = \<lparr>q_num = 0, q_enable = 0, q_desc_lo = 0, q_desc_hi = 0, q_avail_lo = 0, q_avail_hi = 0,
     q_used_lo = 0, q_used_hi = 0, q_msix_vector = 0, q_notifyid = 0, q_vdev_off = 0,
     q_gfeatures = 0, q_vstatus = 0, q_last_avail = 0\<rparr>"

definition no_block :: velocitor_alloc where
  "no_block = \<lparr>a_offset = 0, a_size = 0, a_node = 0, a_live = 0\<rparr>"

definition velocitor_new :: "'h \<Rightarrow> 'h velocitor_state" where
  "velocitor_new h = \<lparr>scratch = 0, mem = (\<lambda>_. 0), window_off = 0, win_base = 0, win_pending = 0,
     cnt = (\<lambda>_. 0), cnt_snap = (\<lambda>_. 0), irq_status = 0, irq_mask = 0, reset = 0, fw_status = 0,
     fw_abi = 0, generation = 0, trace_da = 0, trace_len = 0, trace_epoch = 0, boot_timer = None,
     dma_timer = None, dma_addr_lo = 0, dma_addr_hi = 0, dma_dev = 0, dma_len = 0, dma_ctl = 0,
     dma_status = 0, rsc_addr_lo = 0, rsc_addr_hi = 0, rsc_len = 0, rsc_valid = 0, vq_select = 0,
     vq = (\<lambda>_. no_queue), rpmsg_announced = False, vq_pending = 0, vq_timer = None, err_code = 0,
     err_info_lo = 0, err_info_hi = 0, err_notifyid = 0, err_handle = 0, err_generation = 0,
     err_dropped = 0, node_bump = (\<lambda>_. 0), next_handle = 0, live_handles = 0,
     alloc = (\<lambda>_. no_block), err_inject = 0, err_inject_arg = 0, clock = 0, msix_on = False,
     msix_log = [], host = h\<rparr>"

text \<open>A 64-bit address held in two 32-bit registers, \<open>((uint64_t)hi << 32) | lo\<close>.\<close>

definition addr64 :: "u32 \<Rightarrow> u32 \<Rightarrow> u64" where
  "addr64 hi lo = push_bit 32 (ucast hi) OR ucast lo"

text \<open>\<open>s->cnt[VEL_CNT_INDEX(reg)] += n\<close>, wrapping at 32 bits.\<close>

definition cnt_add :: "u64 \<Rightarrow> u32 \<Rightarrow> 'h velocitor_state \<Rightarrow> 'h velocitor_state" where
  "cnt_add reg n s = s\<lparr>cnt := (cnt s)(VEL_CNT_INDEX reg := cnt s (VEL_CNT_INDEX reg) + n)\<rparr>"

text \<open>\<open>1u << v\<close> as the interrupt code uses it.\<close>

definition irq_bit :: "u32 \<Rightarrow> u32" where
  "irq_bit v = push_bit (unat v) 1"

section \<open>Projections of the state by component\<close>

text \<open>
  What each component owns. An operation of another component is shown to leave the
  projection alone, and the invariants are stated over the projections.
\<close>

definition queue_cfg ::
  "velocitor_queue \<Rightarrow> u32 \<times> u32 \<times> u64 \<times> u64 \<times> u64 \<times> u32" where
  "queue_cfg v = (q_num v, q_enable v, addr64 (q_desc_hi v) (q_desc_lo v),
     addr64 (q_avail_hi v) (q_avail_lo v), addr64 (q_used_hi v) (q_used_lo v), q_msix_vector v)"

definition queues_of :: "'h velocitor_state \<Rightarrow> _" where
  "queues_of s = (vq_select s, \<lambda>q. queue_cfg (vq s q))"

definition heap_of :: "'h velocitor_state \<Rightarrow> _" where
  "heap_of s = (node_bump s, next_handle s, live_handles s, alloc s)"

definition firmware_of :: "'h velocitor_state \<Rightarrow> _" where
  "firmware_of s = (reset s, fw_status s, fw_abi s, generation s, trace_da s, trace_len s,
     trace_epoch s, boot_timer s)"

definition window_of :: "'h velocitor_state \<Rightarrow> _" where
  "window_of s = (window_off s, win_base s, win_pending s)"

definition irq_of :: "'h velocitor_state \<Rightarrow> _" where
  "irq_of s = (irq_status s, irq_mask s)"

definition error_of :: "'h velocitor_state \<Rightarrow> _" where
  "error_of s = (err_code s, err_info_lo s, err_info_hi s, err_notifyid s, err_handle s,
     err_generation s, err_dropped s)"

definition dma_of :: "'h velocitor_state \<Rightarrow> _" where
  "dma_of s = (dma_timer s, dma_addr_lo s, dma_addr_hi s, dma_dev s, dma_len s, dma_ctl s,
     dma_status s)"

text \<open>
  Device memory outside the trace ring the firmware announced. While the ring lies in
  the fixed aperture, an operation that only logs leaves this projection alone.
\<close>

definition ring_ok :: "'h velocitor_state \<Rightarrow> bool" where
  "ring_ok s \<longleftrightarrow> trace_da s = 0 \<or> unat (trace_da s) + VEL_TRACE_SIZE \<le> VEL_APERTURE_SIZE"

definition trace_area :: "'h velocitor_state \<Rightarrow> nat set" where
  "trace_area s = (if trace_da s = 0 then {}
     else {unat (trace_da s) div 4 * 4 ..< unat (trace_da s) + VEL_TRACE_SIZE})"

definition store_of :: "'h velocitor_state \<Rightarrow> store" where
  "store_of s = (\<lambda>i. if \<not> ring_ok s \<or> i \<in> trace_area s then 0 else mem s i)"

lemmas store_of_unfold = store_of_def ring_ok_def trace_area_def

lemmas projections = queues_of_def heap_of_def firmware_of_def window_of_def irq_of_def
  error_of_def dma_of_def

text \<open>No byte beyond the device memory is ever written.\<close>

definition mem_bounded :: "'h velocitor_state \<Rightarrow> bool" where
  "mem_bounded s \<longleftrightarrow> (\<forall>i \<ge> VEL_MEM_SIZE. mem s i = 0)"

lemma mem_bounded_store:
  assumes "store_of t = store_of s" and "ring_ok s" and "ring_ok t" and "mem_bounded s"
  shows "mem_bounded t"
proof -
  have "mem t i = mem s i" if "i \<ge> VEL_MEM_SIZE" for i
  proof -
    have "i \<notin> trace_area s" "i \<notin> trace_area t"
      using that assms(2,3) by (auto simp: trace_area_def ring_ok_def)
    then show ?thesis using assms(1-3) by (auto simp: store_of_def dest!: fun_cong [of _ _ i])
  qed
  with assms(4) show ?thesis by (simp add: mem_bounded_def)
qed

text \<open>Everything but interrupts and the error block.\<close>

definition rest_of :: "'h velocitor_state \<Rightarrow> _" where
  "rest_of s = (queues_of s, heap_of s, firmware_of s, window_of s, dma_of s, store_of s)"

text \<open>A write to a field of one component belongs to no other projection.\<close>

lemma upd_scratch [frames]:
  "queues_of (scratch_update f s) = queues_of s" "heap_of (scratch_update f s) = heap_of s"
  "firmware_of (scratch_update f s) = firmware_of s" "window_of (scratch_update f s) = window_of s"
  "irq_of (scratch_update f s) = irq_of s" "error_of (scratch_update f s) = error_of s"
  "dma_of (scratch_update f s) = dma_of s" "store_of (scratch_update f s) = store_of s"
  by (simp_all add: projections store_of_unfold cong: if_cong)

lemma upd_mem [frames]:
  "queues_of (mem_update f s) = queues_of s" "heap_of (mem_update f s) = heap_of s"
  "firmware_of (mem_update f s) = firmware_of s" "window_of (mem_update f s) = window_of s"
  "irq_of (mem_update f s) = irq_of s" "error_of (mem_update f s) = error_of s"
  "dma_of (mem_update f s) = dma_of s"
  by (simp_all add: projections store_of_unfold cong: if_cong)

lemma upd_cnt [frames]:
  "queues_of (cnt_update f s) = queues_of s" "heap_of (cnt_update f s) = heap_of s"
  "firmware_of (cnt_update f s) = firmware_of s" "window_of (cnt_update f s) = window_of s"
  "irq_of (cnt_update f s) = irq_of s" "error_of (cnt_update f s) = error_of s"
  "dma_of (cnt_update f s) = dma_of s" "store_of (cnt_update f s) = store_of s"
  by (simp_all add: projections store_of_unfold cong: if_cong)

lemma upd_cnt_snap [frames]:
  "queues_of (cnt_snap_update f s) = queues_of s" "heap_of (cnt_snap_update f s) = heap_of s"
  "firmware_of (cnt_snap_update f s) = firmware_of s" "window_of (cnt_snap_update f s) = window_of s"
  "irq_of (cnt_snap_update f s) = irq_of s" "error_of (cnt_snap_update f s) = error_of s"
  "dma_of (cnt_snap_update f s) = dma_of s" "store_of (cnt_snap_update f s) = store_of s"
  by (simp_all add: projections store_of_unfold cong: if_cong)

lemma upd_irq_status [frames]:
  "queues_of (irq_status_update f s) = queues_of s" "heap_of (irq_status_update f s) = heap_of s"
  "firmware_of (irq_status_update f s) = firmware_of s" "window_of (irq_status_update f s) = window_of s"
  "error_of (irq_status_update f s) = error_of s" "dma_of (irq_status_update f s) = dma_of s"
  "store_of (irq_status_update f s) = store_of s"
  by (simp_all add: projections store_of_unfold cong: if_cong)

lemma upd_irq_mask [frames]:
  "queues_of (irq_mask_update f s) = queues_of s" "heap_of (irq_mask_update f s) = heap_of s"
  "firmware_of (irq_mask_update f s) = firmware_of s" "window_of (irq_mask_update f s) = window_of s"
  "error_of (irq_mask_update f s) = error_of s" "dma_of (irq_mask_update f s) = dma_of s"
  "store_of (irq_mask_update f s) = store_of s"
  by (simp_all add: projections store_of_unfold cong: if_cong)

lemma upd_dma_timer [frames]:
  "queues_of (dma_timer_update f s) = queues_of s" "heap_of (dma_timer_update f s) = heap_of s"
  "firmware_of (dma_timer_update f s) = firmware_of s" "window_of (dma_timer_update f s) = window_of s"
  "irq_of (dma_timer_update f s) = irq_of s" "error_of (dma_timer_update f s) = error_of s"
  "store_of (dma_timer_update f s) = store_of s"
  by (simp_all add: projections store_of_unfold cong: if_cong)

lemma upd_dma_addr_lo [frames]:
  "queues_of (dma_addr_lo_update f s) = queues_of s" "heap_of (dma_addr_lo_update f s) = heap_of s"
  "firmware_of (dma_addr_lo_update f s) = firmware_of s" "window_of (dma_addr_lo_update f s) = window_of s"
  "irq_of (dma_addr_lo_update f s) = irq_of s" "error_of (dma_addr_lo_update f s) = error_of s"
  "store_of (dma_addr_lo_update f s) = store_of s"
  by (simp_all add: projections store_of_unfold cong: if_cong)

lemma upd_dma_addr_hi [frames]:
  "queues_of (dma_addr_hi_update f s) = queues_of s" "heap_of (dma_addr_hi_update f s) = heap_of s"
  "firmware_of (dma_addr_hi_update f s) = firmware_of s" "window_of (dma_addr_hi_update f s) = window_of s"
  "irq_of (dma_addr_hi_update f s) = irq_of s" "error_of (dma_addr_hi_update f s) = error_of s"
  "store_of (dma_addr_hi_update f s) = store_of s"
  by (simp_all add: projections store_of_unfold cong: if_cong)

lemma upd_dma_dev [frames]:
  "queues_of (dma_dev_update f s) = queues_of s" "heap_of (dma_dev_update f s) = heap_of s"
  "firmware_of (dma_dev_update f s) = firmware_of s" "window_of (dma_dev_update f s) = window_of s"
  "irq_of (dma_dev_update f s) = irq_of s" "error_of (dma_dev_update f s) = error_of s"
  "store_of (dma_dev_update f s) = store_of s"
  by (simp_all add: projections store_of_unfold cong: if_cong)

lemma upd_dma_len [frames]:
  "queues_of (dma_len_update f s) = queues_of s" "heap_of (dma_len_update f s) = heap_of s"
  "firmware_of (dma_len_update f s) = firmware_of s" "window_of (dma_len_update f s) = window_of s"
  "irq_of (dma_len_update f s) = irq_of s" "error_of (dma_len_update f s) = error_of s"
  "store_of (dma_len_update f s) = store_of s"
  by (simp_all add: projections store_of_unfold cong: if_cong)

lemma upd_dma_ctl [frames]:
  "queues_of (dma_ctl_update f s) = queues_of s" "heap_of (dma_ctl_update f s) = heap_of s"
  "firmware_of (dma_ctl_update f s) = firmware_of s" "window_of (dma_ctl_update f s) = window_of s"
  "irq_of (dma_ctl_update f s) = irq_of s" "error_of (dma_ctl_update f s) = error_of s"
  "store_of (dma_ctl_update f s) = store_of s"
  by (simp_all add: projections store_of_unfold cong: if_cong)

lemma upd_dma_status [frames]:
  "queues_of (dma_status_update f s) = queues_of s" "heap_of (dma_status_update f s) = heap_of s"
  "firmware_of (dma_status_update f s) = firmware_of s" "window_of (dma_status_update f s) = window_of s"
  "irq_of (dma_status_update f s) = irq_of s" "error_of (dma_status_update f s) = error_of s"
  "store_of (dma_status_update f s) = store_of s"
  by (simp_all add: projections store_of_unfold cong: if_cong)

lemma upd_rsc_addr_lo [frames]:
  "queues_of (rsc_addr_lo_update f s) = queues_of s" "heap_of (rsc_addr_lo_update f s) = heap_of s"
  "firmware_of (rsc_addr_lo_update f s) = firmware_of s" "window_of (rsc_addr_lo_update f s) = window_of s"
  "irq_of (rsc_addr_lo_update f s) = irq_of s" "error_of (rsc_addr_lo_update f s) = error_of s"
  "dma_of (rsc_addr_lo_update f s) = dma_of s" "store_of (rsc_addr_lo_update f s) = store_of s"
  by (simp_all add: projections store_of_unfold cong: if_cong)

lemma upd_rsc_addr_hi [frames]:
  "queues_of (rsc_addr_hi_update f s) = queues_of s" "heap_of (rsc_addr_hi_update f s) = heap_of s"
  "firmware_of (rsc_addr_hi_update f s) = firmware_of s" "window_of (rsc_addr_hi_update f s) = window_of s"
  "irq_of (rsc_addr_hi_update f s) = irq_of s" "error_of (rsc_addr_hi_update f s) = error_of s"
  "dma_of (rsc_addr_hi_update f s) = dma_of s" "store_of (rsc_addr_hi_update f s) = store_of s"
  by (simp_all add: projections store_of_unfold cong: if_cong)

lemma upd_rsc_len [frames]:
  "queues_of (rsc_len_update f s) = queues_of s" "heap_of (rsc_len_update f s) = heap_of s"
  "firmware_of (rsc_len_update f s) = firmware_of s" "window_of (rsc_len_update f s) = window_of s"
  "irq_of (rsc_len_update f s) = irq_of s" "error_of (rsc_len_update f s) = error_of s"
  "dma_of (rsc_len_update f s) = dma_of s" "store_of (rsc_len_update f s) = store_of s"
  by (simp_all add: projections store_of_unfold cong: if_cong)

lemma upd_rpmsg_announced [frames]:
  "queues_of (rpmsg_announced_update f s) = queues_of s" "heap_of (rpmsg_announced_update f s) = heap_of s"
  "firmware_of (rpmsg_announced_update f s) = firmware_of s" "window_of (rpmsg_announced_update f s) = window_of s"
  "irq_of (rpmsg_announced_update f s) = irq_of s" "error_of (rpmsg_announced_update f s) = error_of s"
  "dma_of (rpmsg_announced_update f s) = dma_of s" "store_of (rpmsg_announced_update f s) = store_of s"
  by (simp_all add: projections store_of_unfold cong: if_cong)

lemma upd_vq_pending [frames]:
  "queues_of (vq_pending_update f s) = queues_of s" "heap_of (vq_pending_update f s) = heap_of s"
  "firmware_of (vq_pending_update f s) = firmware_of s" "window_of (vq_pending_update f s) = window_of s"
  "irq_of (vq_pending_update f s) = irq_of s" "error_of (vq_pending_update f s) = error_of s"
  "dma_of (vq_pending_update f s) = dma_of s" "store_of (vq_pending_update f s) = store_of s"
  by (simp_all add: projections store_of_unfold cong: if_cong)

lemma upd_vq_timer [frames]:
  "queues_of (vq_timer_update f s) = queues_of s" "heap_of (vq_timer_update f s) = heap_of s"
  "firmware_of (vq_timer_update f s) = firmware_of s" "window_of (vq_timer_update f s) = window_of s"
  "irq_of (vq_timer_update f s) = irq_of s" "error_of (vq_timer_update f s) = error_of s"
  "dma_of (vq_timer_update f s) = dma_of s" "store_of (vq_timer_update f s) = store_of s"
  by (simp_all add: projections store_of_unfold cong: if_cong)

lemma upd_err_code [frames]:
  "queues_of (err_code_update f s) = queues_of s" "heap_of (err_code_update f s) = heap_of s"
  "firmware_of (err_code_update f s) = firmware_of s" "window_of (err_code_update f s) = window_of s"
  "irq_of (err_code_update f s) = irq_of s" "dma_of (err_code_update f s) = dma_of s"
  "store_of (err_code_update f s) = store_of s"
  by (simp_all add: projections store_of_unfold cong: if_cong)

lemma upd_err_info_lo [frames]:
  "queues_of (err_info_lo_update f s) = queues_of s" "heap_of (err_info_lo_update f s) = heap_of s"
  "firmware_of (err_info_lo_update f s) = firmware_of s" "window_of (err_info_lo_update f s) = window_of s"
  "irq_of (err_info_lo_update f s) = irq_of s" "dma_of (err_info_lo_update f s) = dma_of s"
  "store_of (err_info_lo_update f s) = store_of s"
  by (simp_all add: projections store_of_unfold cong: if_cong)

lemma upd_err_info_hi [frames]:
  "queues_of (err_info_hi_update f s) = queues_of s" "heap_of (err_info_hi_update f s) = heap_of s"
  "firmware_of (err_info_hi_update f s) = firmware_of s" "window_of (err_info_hi_update f s) = window_of s"
  "irq_of (err_info_hi_update f s) = irq_of s" "dma_of (err_info_hi_update f s) = dma_of s"
  "store_of (err_info_hi_update f s) = store_of s"
  by (simp_all add: projections store_of_unfold cong: if_cong)

lemma upd_err_notifyid [frames]:
  "queues_of (err_notifyid_update f s) = queues_of s" "heap_of (err_notifyid_update f s) = heap_of s"
  "firmware_of (err_notifyid_update f s) = firmware_of s" "window_of (err_notifyid_update f s) = window_of s"
  "irq_of (err_notifyid_update f s) = irq_of s" "dma_of (err_notifyid_update f s) = dma_of s"
  "store_of (err_notifyid_update f s) = store_of s"
  by (simp_all add: projections store_of_unfold cong: if_cong)

lemma upd_err_handle [frames]:
  "queues_of (err_handle_update f s) = queues_of s" "heap_of (err_handle_update f s) = heap_of s"
  "firmware_of (err_handle_update f s) = firmware_of s" "window_of (err_handle_update f s) = window_of s"
  "irq_of (err_handle_update f s) = irq_of s" "dma_of (err_handle_update f s) = dma_of s"
  "store_of (err_handle_update f s) = store_of s"
  by (simp_all add: projections store_of_unfold cong: if_cong)

lemma upd_err_generation [frames]:
  "queues_of (err_generation_update f s) = queues_of s" "heap_of (err_generation_update f s) = heap_of s"
  "firmware_of (err_generation_update f s) = firmware_of s" "window_of (err_generation_update f s) = window_of s"
  "irq_of (err_generation_update f s) = irq_of s" "dma_of (err_generation_update f s) = dma_of s"
  "store_of (err_generation_update f s) = store_of s"
  by (simp_all add: projections store_of_unfold cong: if_cong)

lemma upd_err_dropped [frames]:
  "queues_of (err_dropped_update f s) = queues_of s" "heap_of (err_dropped_update f s) = heap_of s"
  "firmware_of (err_dropped_update f s) = firmware_of s" "window_of (err_dropped_update f s) = window_of s"
  "irq_of (err_dropped_update f s) = irq_of s" "dma_of (err_dropped_update f s) = dma_of s"
  "store_of (err_dropped_update f s) = store_of s"
  by (simp_all add: projections store_of_unfold cong: if_cong)

lemma upd_err_inject [frames]:
  "queues_of (err_inject_update f s) = queues_of s" "heap_of (err_inject_update f s) = heap_of s"
  "firmware_of (err_inject_update f s) = firmware_of s" "window_of (err_inject_update f s) = window_of s"
  "irq_of (err_inject_update f s) = irq_of s" "error_of (err_inject_update f s) = error_of s"
  "dma_of (err_inject_update f s) = dma_of s" "store_of (err_inject_update f s) = store_of s"
  by (simp_all add: projections store_of_unfold cong: if_cong)

lemma upd_err_inject_arg [frames]:
  "queues_of (err_inject_arg_update f s) = queues_of s" "heap_of (err_inject_arg_update f s) = heap_of s"
  "firmware_of (err_inject_arg_update f s) = firmware_of s" "window_of (err_inject_arg_update f s) = window_of s"
  "irq_of (err_inject_arg_update f s) = irq_of s" "error_of (err_inject_arg_update f s) = error_of s"
  "dma_of (err_inject_arg_update f s) = dma_of s" "store_of (err_inject_arg_update f s) = store_of s"
  by (simp_all add: projections store_of_unfold cong: if_cong)

lemma upd_clock [frames]:
  "queues_of (clock_update f s) = queues_of s" "heap_of (clock_update f s) = heap_of s"
  "firmware_of (clock_update f s) = firmware_of s" "window_of (clock_update f s) = window_of s"
  "irq_of (clock_update f s) = irq_of s" "error_of (clock_update f s) = error_of s"
  "dma_of (clock_update f s) = dma_of s" "store_of (clock_update f s) = store_of s"
  by (simp_all add: projections store_of_unfold cong: if_cong)

lemma upd_msix_on [frames]:
  "queues_of (msix_on_update f s) = queues_of s" "heap_of (msix_on_update f s) = heap_of s"
  "firmware_of (msix_on_update f s) = firmware_of s" "window_of (msix_on_update f s) = window_of s"
  "irq_of (msix_on_update f s) = irq_of s" "error_of (msix_on_update f s) = error_of s"
  "dma_of (msix_on_update f s) = dma_of s" "store_of (msix_on_update f s) = store_of s"
  by (simp_all add: projections store_of_unfold cong: if_cong)

lemma upd_msix_log [frames]:
  "queues_of (msix_log_update f s) = queues_of s" "heap_of (msix_log_update f s) = heap_of s"
  "firmware_of (msix_log_update f s) = firmware_of s" "window_of (msix_log_update f s) = window_of s"
  "irq_of (msix_log_update f s) = irq_of s" "error_of (msix_log_update f s) = error_of s"
  "dma_of (msix_log_update f s) = dma_of s" "store_of (msix_log_update f s) = store_of s"
  by (simp_all add: projections store_of_unfold cong: if_cong)

lemma upd_host [frames]:
  "queues_of (host_update f s) = queues_of s" "heap_of (host_update f s) = heap_of s"
  "firmware_of (host_update f s) = firmware_of s" "window_of (host_update f s) = window_of s"
  "irq_of (host_update f s) = irq_of s" "error_of (host_update f s) = error_of s"
  "dma_of (host_update f s) = dma_of s" "store_of (host_update f s) = store_of s"
  by (simp_all add: projections store_of_unfold cong: if_cong)

lemma upd_next_handle [frames]:
  "queues_of (next_handle_update f s) = queues_of s" "firmware_of (next_handle_update f s) = firmware_of s"
  "window_of (next_handle_update f s) = window_of s" "irq_of (next_handle_update f s) = irq_of s"
  "error_of (next_handle_update f s) = error_of s" "dma_of (next_handle_update f s) = dma_of s"
  "store_of (next_handle_update f s) = store_of s"
  by (simp_all add: projections store_of_unfold cong: if_cong)

lemma upd_live_handles [frames]:
  "queues_of (live_handles_update f s) = queues_of s" "firmware_of (live_handles_update f s) = firmware_of s"
  "window_of (live_handles_update f s) = window_of s" "irq_of (live_handles_update f s) = irq_of s"
  "error_of (live_handles_update f s) = error_of s" "dma_of (live_handles_update f s) = dma_of s"
  "store_of (live_handles_update f s) = store_of s"
  by (simp_all add: projections store_of_unfold cong: if_cong)

lemma upd_alloc [frames]:
  "queues_of (alloc_update f s) = queues_of s" "firmware_of (alloc_update f s) = firmware_of s"
  "window_of (alloc_update f s) = window_of s" "irq_of (alloc_update f s) = irq_of s"
  "error_of (alloc_update f s) = error_of s" "dma_of (alloc_update f s) = dma_of s"
  "store_of (alloc_update f s) = store_of s"
  by (simp_all add: projections store_of_unfold cong: if_cong)

lemma upd_node_bump [frames]:
  "queues_of (node_bump_update f s) = queues_of s" "firmware_of (node_bump_update f s) = firmware_of s"
  "window_of (node_bump_update f s) = window_of s" "irq_of (node_bump_update f s) = irq_of s"
  "error_of (node_bump_update f s) = error_of s" "dma_of (node_bump_update f s) = dma_of s"
  "store_of (node_bump_update f s) = store_of s"
  by (simp_all add: projections store_of_unfold cong: if_cong)

lemma upd_win_pending [frames]:
  "queues_of (win_pending_update f s) = queues_of s" "heap_of (win_pending_update f s) = heap_of s"
  "firmware_of (win_pending_update f s) = firmware_of s" "irq_of (win_pending_update f s) = irq_of s"
  "error_of (win_pending_update f s) = error_of s" "dma_of (win_pending_update f s) = dma_of s"
  "store_of (win_pending_update f s) = store_of s"
  by (simp_all add: projections store_of_unfold cong: if_cong)

lemma upd_win_base [frames]:
  "queues_of (win_base_update f s) = queues_of s" "heap_of (win_base_update f s) = heap_of s"
  "firmware_of (win_base_update f s) = firmware_of s" "irq_of (win_base_update f s) = irq_of s"
  "error_of (win_base_update f s) = error_of s" "dma_of (win_base_update f s) = dma_of s"
  "store_of (win_base_update f s) = store_of s"
  by (simp_all add: projections store_of_unfold cong: if_cong)

lemma upd_window_off [frames]:
  "queues_of (window_off_update f s) = queues_of s" "heap_of (window_off_update f s) = heap_of s"
  "firmware_of (window_off_update f s) = firmware_of s" "irq_of (window_off_update f s) = irq_of s"
  "error_of (window_off_update f s) = error_of s" "dma_of (window_off_update f s) = dma_of s"
  "store_of (window_off_update f s) = store_of s"
  by (simp_all add: projections store_of_unfold cong: if_cong)

lemma upd_fw_status [frames]:
  "queues_of (fw_status_update f s) = queues_of s" "heap_of (fw_status_update f s) = heap_of s"
  "window_of (fw_status_update f s) = window_of s" "irq_of (fw_status_update f s) = irq_of s"
  "error_of (fw_status_update f s) = error_of s" "dma_of (fw_status_update f s) = dma_of s"
  "store_of (fw_status_update f s) = store_of s"
  by (simp_all add: projections store_of_unfold cong: if_cong)

lemma upd_fw_abi [frames]:
  "queues_of (fw_abi_update f s) = queues_of s" "heap_of (fw_abi_update f s) = heap_of s"
  "window_of (fw_abi_update f s) = window_of s" "irq_of (fw_abi_update f s) = irq_of s"
  "error_of (fw_abi_update f s) = error_of s" "dma_of (fw_abi_update f s) = dma_of s"
  "store_of (fw_abi_update f s) = store_of s"
  by (simp_all add: projections store_of_unfold cong: if_cong)

lemma upd_reset [frames]:
  "queues_of (reset_update f s) = queues_of s" "heap_of (reset_update f s) = heap_of s"
  "window_of (reset_update f s) = window_of s" "irq_of (reset_update f s) = irq_of s"
  "error_of (reset_update f s) = error_of s" "dma_of (reset_update f s) = dma_of s"
  "store_of (reset_update f s) = store_of s"
  by (simp_all add: projections store_of_unfold cong: if_cong)

lemma upd_boot_timer [frames]:
  "queues_of (boot_timer_update f s) = queues_of s" "heap_of (boot_timer_update f s) = heap_of s"
  "window_of (boot_timer_update f s) = window_of s" "irq_of (boot_timer_update f s) = irq_of s"
  "error_of (boot_timer_update f s) = error_of s" "dma_of (boot_timer_update f s) = dma_of s"
  "store_of (boot_timer_update f s) = store_of s"
  by (simp_all add: projections store_of_unfold cong: if_cong)

lemma upd_trace_da [frames]:
  "queues_of (trace_da_update f s) = queues_of s" "heap_of (trace_da_update f s) = heap_of s"
  "window_of (trace_da_update f s) = window_of s" "irq_of (trace_da_update f s) = irq_of s"
  "error_of (trace_da_update f s) = error_of s" "dma_of (trace_da_update f s) = dma_of s"
  by (simp_all add: projections store_of_unfold cong: if_cong)

lemma upd_trace_len [frames]:
  "queues_of (trace_len_update f s) = queues_of s" "heap_of (trace_len_update f s) = heap_of s"
  "window_of (trace_len_update f s) = window_of s" "irq_of (trace_len_update f s) = irq_of s"
  "error_of (trace_len_update f s) = error_of s" "dma_of (trace_len_update f s) = dma_of s"
  "store_of (trace_len_update f s) = store_of s"
  by (simp_all add: projections store_of_unfold cong: if_cong)

lemma upd_trace_epoch [frames]:
  "queues_of (trace_epoch_update f s) = queues_of s" "heap_of (trace_epoch_update f s) = heap_of s"
  "window_of (trace_epoch_update f s) = window_of s" "irq_of (trace_epoch_update f s) = irq_of s"
  "error_of (trace_epoch_update f s) = error_of s" "dma_of (trace_epoch_update f s) = dma_of s"
  "store_of (trace_epoch_update f s) = store_of s"
  by (simp_all add: projections store_of_unfold cong: if_cong)

lemma upd_generation [frames]:
  "queues_of (generation_update f s) = queues_of s" "heap_of (generation_update f s) = heap_of s"
  "window_of (generation_update f s) = window_of s" "irq_of (generation_update f s) = irq_of s"
  "error_of (generation_update f s) = error_of s" "dma_of (generation_update f s) = dma_of s"
  "store_of (generation_update f s) = store_of s"
  by (simp_all add: projections store_of_unfold cong: if_cong)

lemma upd_vq [frames]:
  "heap_of (vq_update f s) = heap_of s" "firmware_of (vq_update f s) = firmware_of s"
  "window_of (vq_update f s) = window_of s" "irq_of (vq_update f s) = irq_of s"
  "error_of (vq_update f s) = error_of s" "dma_of (vq_update f s) = dma_of s"
  "store_of (vq_update f s) = store_of s"
  by (simp_all add: projections store_of_unfold cong: if_cong)

lemma upd_vq_select [frames]:
  "heap_of (vq_select_update f s) = heap_of s" "firmware_of (vq_select_update f s) = firmware_of s"
  "window_of (vq_select_update f s) = window_of s" "irq_of (vq_select_update f s) = irq_of s"
  "error_of (vq_select_update f s) = error_of s" "dma_of (vq_select_update f s) = dma_of s"
  "store_of (vq_select_update f s) = store_of s"
  by (simp_all add: projections store_of_unfold cong: if_cong)

lemma upd_rsc_valid [frames]:
  "queues_of (rsc_valid_update f s) = queues_of s" "heap_of (rsc_valid_update f s) = heap_of s"
  "firmware_of (rsc_valid_update f s) = firmware_of s" "window_of (rsc_valid_update f s) = window_of s"
  "irq_of (rsc_valid_update f s) = irq_of s" "error_of (rsc_valid_update f s) = error_of s"
  "dma_of (rsc_valid_update f s) = dma_of s" "store_of (rsc_valid_update f s) = store_of s"
  by (simp_all add: projections store_of_unfold cong: if_cong)

text \<open>An assignment to one queue of the array.\<close>

definition set_vq ::
  "nat \<Rightarrow> (velocitor_queue \<Rightarrow> velocitor_queue) \<Rightarrow> 'h velocitor_state \<Rightarrow> 'h velocitor_state" where
  "set_vq q f s = s\<lparr>vq := (vq s)(q := f (vq s q))\<rparr>"

lemma set_vq_frame [frames]:
  "heap_of (set_vq q f s) = heap_of s" "firmware_of (set_vq q f s) = firmware_of s"
  "window_of (set_vq q f s) = window_of s" "irq_of (set_vq q f s) = irq_of s"
  "error_of (set_vq q f s) = error_of s" "dma_of (set_vq q f s) = dma_of s"
  "store_of (set_vq q f s) = store_of s"
  by (simp_all add: set_vq_def frames)

lemma set_vq_queues [frames]:
  "(\<And>v. queue_cfg (f v) = queue_cfg v) \<Longrightarrow> queues_of (set_vq q f s) = queues_of s"
  by (auto simp: set_vq_def queues_of_def)

lemma queue_cfg_upd [simp]:
  "queue_cfg (q_last_avail_update f v) = queue_cfg v"
  "queue_cfg (q_gfeatures_update f v) = queue_cfg v"
  "queue_cfg (q_vstatus_update f v) = queue_cfg v"
  "queue_cfg (q_notifyid_update f v) = queue_cfg v"
  "queue_cfg (q_vdev_off_update f v) = queue_cfg v"
  by (simp_all add: queue_cfg_def)

lemma set_vq_simps [simp]:
  "mem (set_vq q f s) = mem s" "host (set_vq q f s) = host s"
  "clock (set_vq q f s) = clock s" "msix_on (set_vq q f s) = msix_on s"
  "msix_log (set_vq q f s) = msix_log s" "irq_status (set_vq q f s) = irq_status s"
  "irq_mask (set_vq q f s) = irq_mask s" "reset (set_vq q f s) = reset s"
  "fw_status (set_vq q f s) = fw_status s" "fw_abi (set_vq q f s) = fw_abi s"
  "generation (set_vq q f s) = generation s" "trace_da (set_vq q f s) = trace_da s"
  "trace_len (set_vq q f s) = trace_len s" "trace_epoch (set_vq q f s) = trace_epoch s"
  "boot_timer (set_vq q f s) = boot_timer s" "dma_timer (set_vq q f s) = dma_timer s"
  "dma_status (set_vq q f s) = dma_status s" "vq_select (set_vq q f s) = vq_select s"
  "vq_pending (set_vq q f s) = vq_pending s" "vq_timer (set_vq q f s) = vq_timer s"
  "rsc_valid (set_vq q f s) = rsc_valid s" "rsc_len (set_vq q f s) = rsc_len s"
  "rsc_addr_lo (set_vq q f s) = rsc_addr_lo s" "rsc_addr_hi (set_vq q f s) = rsc_addr_hi s"
  "err_code (set_vq q f s) = err_code s" "err_info_lo (set_vq q f s) = err_info_lo s"
  "err_info_hi (set_vq q f s) = err_info_hi s" "err_notifyid (set_vq q f s) = err_notifyid s"
  "err_handle (set_vq q f s) = err_handle s" "err_generation (set_vq q f s) = err_generation s"
  "err_dropped (set_vq q f s) = err_dropped s" "next_handle (set_vq q f s) = next_handle s"
  "live_handles (set_vq q f s) = live_handles s" "alloc (set_vq q f s) = alloc s"
  "node_bump (set_vq q f s) = node_bump s" "err_inject (set_vq q f s) = err_inject s"
  "win_base (set_vq q f s) = win_base s" "win_pending (set_vq q f s) = win_pending s"
  "window_off (set_vq q f s) = window_off s" "rpmsg_announced (set_vq q f s) = rpmsg_announced s"
  "vq (set_vq q f s) = (vq s)(q := f (vq s q))" "cnt (set_vq q f s) = cnt s"
  by (simp_all add: set_vq_def)

lemma addr64_zero_iff: "addr64 hi lo = 0 \<longleftrightarrow> lo OR hi = 0"
proof
  assume a: "addr64 hi lo = 0"
  show "lo OR hi = 0"
  proof (rule bit_word_eqI)
    fix n assume n: "n < LENGTH(32)"
    have "\<not> bit (addr64 hi lo) n" "\<not> bit (addr64 hi lo) (n + 32)" using a by simp_all
    then show "bit (lo OR hi) n = bit (0::u32) n"
      using n by (auto simp: addr64_def bit_simps)
  qed
next
  assume "lo OR hi = 0"
  then have "lo = 0 \<and> hi = 0" by (metis or.left_neutral or_eq_0_iff)
  then show "addr64 hi lo = 0" by (simp add: addr64_def)
qed

lemma cnt_add_frame [frames]:
  "queues_of (cnt_add r n s) = queues_of s" "heap_of (cnt_add r n s) = heap_of s"
  "firmware_of (cnt_add r n s) = firmware_of s" "window_of (cnt_add r n s) = window_of s"
  "irq_of (cnt_add r n s) = irq_of s" "error_of (cnt_add r n s) = error_of s"
  "dma_of (cnt_add r n s) = dma_of s" "store_of (cnt_add r n s) = store_of s"
  by (simp_all add: cnt_add_def frames)

lemma cnt_add_simps [simp]:
  "mem (cnt_add r n s) = mem s" "host (cnt_add r n s) = host s"
  "vq (cnt_add r n s) = vq s" "clock (cnt_add r n s) = clock s"
  "msix_on (cnt_add r n s) = msix_on s" "msix_log (cnt_add r n s) = msix_log s"
  "irq_status (cnt_add r n s) = irq_status s" "irq_mask (cnt_add r n s) = irq_mask s"
  "reset (cnt_add r n s) = reset s" "fw_status (cnt_add r n s) = fw_status s"
  "fw_abi (cnt_add r n s) = fw_abi s" "generation (cnt_add r n s) = generation s"
  "trace_da (cnt_add r n s) = trace_da s" "trace_len (cnt_add r n s) = trace_len s"
  "trace_epoch (cnt_add r n s) = trace_epoch s" "boot_timer (cnt_add r n s) = boot_timer s"
  "dma_timer (cnt_add r n s) = dma_timer s" "dma_status (cnt_add r n s) = dma_status s"
  "vq_select (cnt_add r n s) = vq_select s" "vq_pending (cnt_add r n s) = vq_pending s"
  "vq_timer (cnt_add r n s) = vq_timer s" "rsc_valid (cnt_add r n s) = rsc_valid s"
  "rsc_len (cnt_add r n s) = rsc_len s" "rsc_addr_lo (cnt_add r n s) = rsc_addr_lo s"
  "rsc_addr_hi (cnt_add r n s) = rsc_addr_hi s" "err_code (cnt_add r n s) = err_code s"
  "err_info_lo (cnt_add r n s) = err_info_lo s" "err_info_hi (cnt_add r n s) = err_info_hi s"
  "err_notifyid (cnt_add r n s) = err_notifyid s" "err_handle (cnt_add r n s) = err_handle s"
  "err_generation (cnt_add r n s) = err_generation s" "err_dropped (cnt_add r n s) = err_dropped s"
  "next_handle (cnt_add r n s) = next_handle s" "live_handles (cnt_add r n s) = live_handles s"
  "alloc (cnt_add r n s) = alloc s" "node_bump (cnt_add r n s) = node_bump s"
  "err_inject (cnt_add r n s) = err_inject s" "win_base (cnt_add r n s) = win_base s"
  "win_pending (cnt_add r n s) = win_pending s" "window_off (cnt_add r n s) = window_off s"
  "rpmsg_announced (cnt_add r n s) = rpmsg_announced s"
  by (simp_all add: cnt_add_def)

end
