(* ===== verification/Vel_Trace.thy ===== *)
theory Vel_Trace
  imports Vel_State
begin

text \<open>
  Device-local memory as the model's own code reads and writes it, and the firmware's
  log in it: the trace ring of \<open>velocitor_trace\<close>. The ring discipline is stated
  against \<open>trace_entry_at\<close>, the slot of a free-running index.
\<close>

section \<open>Word accesses to device memory\<close>

text \<open>The C code indexes a \<open>uint32_t\<close> array with \<open>off / 4\<close>.\<close>

definition velocitor_mem_read32 :: "'h velocitor_state \<Rightarrow> u32 \<Rightarrow> u32" where
  "velocitor_mem_read32 s off = get_le 0 4 (mem_load (mem s) (unat (off div 4) * 4) 4)"

definition velocitor_mem_write32 ::
  "'h velocitor_state \<Rightarrow> u32 \<Rightarrow> u32 \<Rightarrow> 'h velocitor_state" where
  "velocitor_mem_write32 s off val =
     s\<lparr>mem := mem_store (mem s) (unat (off div 4) * 4) (put_le 4 val)\<rparr>"

section \<open>Formatting\<close>

text \<open>
  \<open>vsnprintf\<close> for the conversions the trace messages use: \<open>%u\<close>, \<open>%d\<close>, \<open>%x\<close> and
  the zero-padded \<open>%08x\<close> and \<open>%02x\<close>. A message keeps at most 111 bytes and its
  terminator in the 112-byte field, which was zeroed beforehand.
\<close>

definition str :: "string \<Rightarrow> bytes" where
  "str = map (\<lambda>c. word_of_nat (of_char c))"

fun fmt_dec :: "nat \<Rightarrow> bytes" where
  "fmt_dec n = (if n < 10 then [word_of_nat (48 + n)]
     else fmt_dec (n div 10) @ [word_of_nat (48 + n mod 10)])"

definition hex_digit :: "nat \<Rightarrow> u8" where
  "hex_digit d = (if d < 10 then word_of_nat (48 + d) else word_of_nat (87 + d))"

fun fmt_hex :: "nat \<Rightarrow> bytes" where
  "fmt_hex n = (if n < 16 then [hex_digit n] else fmt_hex (n div 16) @ [hex_digit (n mod 16)])"

declare fmt_dec.simps [simp del] fmt_hex.simps [simp del]

definition fmt_pad :: "nat \<Rightarrow> bytes \<Rightarrow> bytes" where
  "fmt_pad w bs = replicate (w - length bs) 48 @ bs"

definition fmt_u :: "'a::len word \<Rightarrow> bytes" where
  "fmt_u w = fmt_dec (unat w)"

definition fmt_d :: "int \<Rightarrow> bytes" where
  "fmt_d i = (if i < 0 then 45 # fmt_dec (nat (- i)) else fmt_dec (nat i))"

definition fmt_x :: "'a::len word \<Rightarrow> bytes" where
  "fmt_x w = fmt_hex (unat w)"

definition msg_field :: "bytes \<Rightarrow> bytes" where
  "msg_field m = (let t = take 111 m in t @ replicate (112 - length t) 0)"

lemma length_msg_field [simp]: "length (msg_field m) = 112"
  by (simp add: msg_field_def Let_def)

section \<open>The trace ring\<close>

definition trace_entry :: "u64 \<Rightarrow> u16 \<Rightarrow> u16 \<Rightarrow> u32 \<Rightarrow> bytes \<Rightarrow> bytes" where
  "trace_entry timestamp level engine seq msg =
     put_le 8 timestamp @ put_le 2 level @ put_le 2 engine @ put_le 4 seq @ msg_field msg"

lemma length_trace_entry [simp]: "length (trace_entry t l e q m) = 128"
  by (simp add: trace_entry_def)

text \<open>The byte address of a slot of the ring.\<close>

definition trace_slot :: "u32 \<Rightarrow> u32 \<Rightarrow> nat" where
  "trace_slot da idx = unat da + VEL_TRACE_HDR_SIZE + unat (idx mod VEL_TRACE_ENTRIES) * VEL_TRACE_ENTRY"

definition velocitor_trace ::
  "'h velocitor_state \<Rightarrow> u16 \<Rightarrow> u16 \<Rightarrow> u32 \<Rightarrow> bytes \<Rightarrow> 'h velocitor_state" where
  "velocitor_trace s level engine seq msg =
     (if trace_da s = 0 then s
      else
        let head = velocitor_mem_read32 s (trace_da s + VEL_TRACE_OFF_HEAD);
            tail = velocitor_mem_read32 s (trace_da s + VEL_TRACE_OFF_TAIL);
            entry = trace_entry (clock s - trace_epoch s) level engine seq msg;
            s1 = s\<lparr>mem := mem_store (mem s) (trace_slot (trace_da s) head) entry\<rparr>;
            s2 = (if head - tail \<ge> VEL_TRACE_ENTRIES
                  then velocitor_mem_write32 s1 (trace_da s1 + VEL_TRACE_OFF_DROPPED)
                         (velocitor_mem_read32 s1 (trace_da s1 + VEL_TRACE_OFF_DROPPED) + 1)
                  else s1)
        in velocitor_mem_write32 s2 (trace_da s2 + VEL_TRACE_OFF_HEAD) (head + 1))"

text \<open>A trace line changes device memory and nothing else.\<close>

lemma mem_write32_upd: "\<exists>m. velocitor_mem_write32 s off v = s\<lparr>mem := m\<rparr>"
  by (auto simp: velocitor_mem_write32_def)

lemma trace_upd: "\<exists>m. velocitor_trace s l e q msg = s\<lparr>mem := m\<rparr>"
proof (cases "trace_da s = 0")
  case True
  then show ?thesis by (intro exI [of _ "mem s"]) (simp add: velocitor_trace_def)
next
  case False
  then show ?thesis
    by (auto simp: velocitor_trace_def velocitor_mem_write32_def Let_def)
qed

lemma mem_write32_frame [frames]:
  "queues_of (velocitor_mem_write32 s off v) = queues_of s"
  "heap_of (velocitor_mem_write32 s off v) = heap_of s"
  "firmware_of (velocitor_mem_write32 s off v) = firmware_of s"
  "window_of (velocitor_mem_write32 s off v) = window_of s"
  "irq_of (velocitor_mem_write32 s off v) = irq_of s"
  "error_of (velocitor_mem_write32 s off v) = error_of s"
  "dma_of (velocitor_mem_write32 s off v) = dma_of s"
  by (simp_all add: velocitor_mem_write32_def projections)

lemma trace_frame [frames]:
  "queues_of (velocitor_trace s l e q msg) = queues_of s"
  "heap_of (velocitor_trace s l e q msg) = heap_of s"
  "firmware_of (velocitor_trace s l e q msg) = firmware_of s"
  "window_of (velocitor_trace s l e q msg) = window_of s"
  "irq_of (velocitor_trace s l e q msg) = irq_of s"
  "error_of (velocitor_trace s l e q msg) = error_of s"
  "dma_of (velocitor_trace s l e q msg) = dma_of s"
  using trace_upd [of s l e q msg] by (auto simp: projections)

lemma trace_slot_bound:
  "unat da + VEL_TRACE_HDR_SIZE \<le> trace_slot da k"
  "trace_slot da k + VEL_TRACE_ENTRY \<le> unat da + VEL_TRACE_SIZE"
proof -
  have "k mod 511 < 511" by (rule word_mod_less_divisor) simp
  then have "unat (k mod 511) < 511" by (simp add: word_less_nat_alt)
  then show "unat da + VEL_TRACE_HDR_SIZE \<le> trace_slot da k"
    and "trace_slot da k + VEL_TRACE_ENTRY \<le> unat da + VEL_TRACE_SIZE"
    by (simp_all add: trace_slot_def)
qed

text \<open>A header field of the ring stays inside the area the ring occupies.\<close>

lemma trace_field_in:
  assumes "ring_ok s" and "trace_da s \<noteq> 0" and "k \<le> 12"
    and "unat ((trace_da s + k) div 4) * 4 \<le> i" and "i < unat ((trace_da s + k) div 4) * 4 + 4"
  shows "i \<in> trace_area s"
proof -
  have "unat (trace_da s) + 65536 \<le> 0x1000000" using assms(1,2) by (simp add: ring_ok_def)
  moreover have "unat k \<le> 12" using assms(3) by (simp add: word_le_nat_alt)
  ultimately have "unat (trace_da s + k) = unat (trace_da s) + unat k"
    by (simp add: unat_word_ariths)
  then show ?thesis using assms(2,4,5) \<open>unat k \<le> 12\<close>
    by (simp add: trace_area_def unat_div) (use div_le_mono [of "unat (trace_da s)" "unat (trace_da s) + unat k" 4] in linarith)
qed

lemma trace_store [frames]: "store_of (velocitor_trace s l e q msg) = store_of s"
proof (cases "trace_da s = 0 \<or> \<not> ring_ok s")
  case True
  have "ring_ok (velocitor_trace s l e q msg) = ring_ok s"
    using trace_upd [of s l e q msg] by (auto simp: ring_ok_def)
  with True show ?thesis by (auto simp: velocitor_trace_def store_of_def)
next
  case False
  then have f: "\<And>k i. k \<le> 12 \<Longrightarrow> unat ((trace_da s + k) div 4) * 4 \<le> i \<Longrightarrow>
      i < unat ((trace_da s + k) div 4) * 4 + 4 \<Longrightarrow> i \<in> trace_area s"
    using trace_field_in [of s] by blast
  have sl: "i \<in> trace_area s" if "trace_slot (trace_da s) k \<le> i" "i < trace_slot (trace_da s) k + 128" for k i
    using that trace_slot_bound [of "trace_da s" k] False div_times_less_eq_dividend [of "unat (trace_da s)" 4]
    by (simp add: trace_area_def)
  have "mem (velocitor_trace s l e q msg) i = mem s i" if "i \<notin> trace_area s" for i
    using that f [of 0] f [of 8] sl False
    by (auto simp: velocitor_trace_def velocitor_mem_write32_def Let_def mem_store_def)
  moreover have "ring_ok (velocitor_trace s l e q msg) = ring_ok s"
    "trace_area (velocitor_trace s l e q msg) = trace_area s"
    using trace_upd [of s l e q msg] by (auto simp: ring_ok_def trace_area_def)
  ultimately show ?thesis by (auto simp: store_of_def fun_eq_iff)
qed

lemma trace_simps [simp]:
  "host (velocitor_trace s l e q msg) = host s" "vq (velocitor_trace s l e q msg) = vq s"
  "cnt (velocitor_trace s l e q msg) = cnt s" "clock (velocitor_trace s l e q msg) = clock s"
  "msix_log (velocitor_trace s l e q msg) = msix_log s" "msix_on (velocitor_trace s l e q msg) = msix_on s"
  "irq_status (velocitor_trace s l e q msg) = irq_status s" "irq_mask (velocitor_trace s l e q msg) = irq_mask s"
  "reset (velocitor_trace s l e q msg) = reset s" "fw_status (velocitor_trace s l e q msg) = fw_status s"
  "fw_abi (velocitor_trace s l e q msg) = fw_abi s" "generation (velocitor_trace s l e q msg) = generation s"
  "trace_da (velocitor_trace s l e q msg) = trace_da s" "trace_len (velocitor_trace s l e q msg) = trace_len s"
  "trace_epoch (velocitor_trace s l e q msg) = trace_epoch s" "boot_timer (velocitor_trace s l e q msg) = boot_timer s"
  "dma_timer (velocitor_trace s l e q msg) = dma_timer s" "dma_status (velocitor_trace s l e q msg) = dma_status s"
  "vq_select (velocitor_trace s l e q msg) = vq_select s" "vq_pending (velocitor_trace s l e q msg) = vq_pending s"
  "vq_timer (velocitor_trace s l e q msg) = vq_timer s" "rsc_valid (velocitor_trace s l e q msg) = rsc_valid s"
  "rsc_len (velocitor_trace s l e q msg) = rsc_len s" "rsc_addr_lo (velocitor_trace s l e q msg) = rsc_addr_lo s"
  "rsc_addr_hi (velocitor_trace s l e q msg) = rsc_addr_hi s" "err_code (velocitor_trace s l e q msg) = err_code s"
  "err_info_lo (velocitor_trace s l e q msg) = err_info_lo s" "err_info_hi (velocitor_trace s l e q msg) = err_info_hi s"
  "err_notifyid (velocitor_trace s l e q msg) = err_notifyid s" "err_handle (velocitor_trace s l e q msg) = err_handle s"
  "err_generation (velocitor_trace s l e q msg) = err_generation s" "err_dropped (velocitor_trace s l e q msg) = err_dropped s"
  "next_handle (velocitor_trace s l e q msg) = next_handle s" "live_handles (velocitor_trace s l e q msg) = live_handles s"
  "alloc (velocitor_trace s l e q msg) = alloc s" "node_bump (velocitor_trace s l e q msg) = node_bump s"
  "err_inject (velocitor_trace s l e q msg) = err_inject s" "win_base (velocitor_trace s l e q msg) = win_base s"
  "win_pending (velocitor_trace s l e q msg) = win_pending s" "window_off (velocitor_trace s l e q msg) = window_off s"
  "rpmsg_announced (velocitor_trace s l e q msg) = rpmsg_announced s"
  using trace_upd [of s l e q msg] by auto

section \<open>What one line does to the ring\<close>

text \<open>The four words of the ring header, and the bytes of a slot.\<close>

definition ring_word :: "'h velocitor_state \<Rightarrow> u32 \<Rightarrow> u32" where
  "ring_word s off = velocitor_mem_read32 s (trace_da s + off)"

definition ring_entry :: "'h velocitor_state \<Rightarrow> u32 \<Rightarrow> bytes" where
  "ring_entry s k = mem_load (mem s) (trace_slot (trace_da s) k) VEL_TRACE_ENTRY"

definition ring_placed :: "'h velocitor_state \<Rightarrow> bool" where
  "ring_placed s \<longleftrightarrow> trace_da s \<noteq> 0 \<and> ring_ok s \<and> 4 dvd unat (trace_da s)"

lemma ring_field_addr:
  assumes "ring_placed s" and "k \<le> 12" and "4 dvd unat k"
  shows "unat ((trace_da s + k) div 4) * 4 = unat (trace_da s) + unat k"
proof -
  have "unat (trace_da s) + 65536 \<le> 0x1000000" "unat k \<le> 12"
    using assms by (auto simp: ring_placed_def ring_ok_def word_le_nat_alt)
  then have "unat (trace_da s + k) = unat (trace_da s) + unat k"
    by (simp add: unat_word_ariths)
  moreover have "4 dvd unat (trace_da s) + unat k"
    using assms by (simp add: ring_placed_def)
  ultimately show ?thesis by (simp add: unat_div)
qed

lemma ring_word_load:
  assumes "ring_placed s" and "k \<le> 12" and "4 dvd unat k"
  shows "ring_word s k = get_le 0 4 (mem_load (mem s) (unat (trace_da s) + unat k) 4)"
  using ring_field_addr [OF assms] by (simp add: ring_word_def velocitor_mem_read32_def)

lemma slot_above_header:
  "unat da + 16 \<le> trace_slot da k"
  using trace_slot_bound(1) [of da k] by simp

text \<open>The line in memory: entry, dropped count, head, in that order.\<close>

definition ring_after :: "'h velocitor_state \<Rightarrow> bytes \<Rightarrow> store" where
  "ring_after s e =
     (let da = unat (trace_da s); head = ring_word s 0; tail = ring_word s 4;
          m = mem_store (mem s) (trace_slot (trace_da s) head) e;
          m = (if head - tail \<ge> VEL_TRACE_ENTRIES
               then mem_store m (da + 8) (put_le 4 (ring_word s 8 + 1)) else m)
      in mem_store m da (put_le 4 (head + 1)))"

lemma trace_is_ring_after:
  assumes "ring_placed s"
  shows "velocitor_trace s l e q msg =
     s\<lparr>mem := ring_after s (trace_entry (clock s - trace_epoch s) l e q msg)\<rparr>"
proof -
  have da: "trace_da s \<noteq> 0" using assms by (simp add: ring_placed_def)
  note f0 = ring_field_addr [OF assms, of 0, simplified]
    and f8 = ring_field_addr [OF assms, of 8, simplified]
  have "mem_load (mem_store (mem s) (trace_slot (trace_da s) k) (trace_entry t l e q msg))
      (unat (trace_da s) + 8) 4 = mem_load (mem s) (unat (trace_da s) + 8) 4" for k t
    using slot_above_header [of "trace_da s" k] by (intro mem_load_store_other) simp
  then show ?thesis using da
    by (simp add: velocitor_trace_def ring_after_def Let_def velocitor_mem_write32_def
        velocitor_mem_read32_def ring_word_def f0 f8)
qed

lemma ring_after_load:
  assumes "length e = 128"
  shows "mem_load (ring_after s e) (unat (trace_da s)) 4 = put_le 4 (ring_word s 0 + 1)"
    and "mem_load (ring_after s e) (unat (trace_da s) + 4) 4 = mem_load (mem s) (unat (trace_da s) + 4) 4"
    and "mem_load (ring_after s e) (unat (trace_da s) + 8) 4 =
      (if ring_word s 0 - ring_word s 4 \<ge> 511 then put_le 4 (ring_word s 8 + 1)
       else mem_load (mem s) (unat (trace_da s) + 8) 4)"
    and "mem_load (ring_after s e) (trace_slot (trace_da s) k) 128 =
      (if k mod 511 = ring_word s 0 mod 511 then e
       else mem_load (mem s) (trace_slot (trace_da s) k) 128)"
proof -
  note ab = slot_above_header [of "trace_da s" "ring_word s 0"] slot_above_header [of "trace_da s" k]
  show "mem_load (ring_after s e) (unat (trace_da s)) 4 = put_le 4 (ring_word s 0 + 1)"
    by (simp add: ring_after_def Let_def)
  show "mem_load (ring_after s e) (unat (trace_da s) + 4) 4 = mem_load (mem s) (unat (trace_da s) + 4) 4"
    using ab by (simp add: ring_after_def Let_def mem_load_store_other)
  show "mem_load (ring_after s e) (unat (trace_da s) + 8) 4 =
      (if ring_word s 0 - ring_word s 4 \<ge> 511 then put_le 4 (ring_word s 8 + 1)
       else mem_load (mem s) (unat (trace_da s) + 8) 4)"
    using ab by (simp add: ring_after_def Let_def mem_load_store_other)
  have "mem_load (mem_store (mem s) (trace_slot (trace_da s) (ring_word s 0)) e)
      (trace_slot (trace_da s) k) 128 =
      (if k mod 511 = ring_word s 0 mod 511 then e
       else mem_load (mem s) (trace_slot (trace_da s) k) 128)"
  proof (cases "k mod 511 = ring_word s 0 mod 511")
    case True
    then have "trace_slot (trace_da s) k = trace_slot (trace_da s) (ring_word s 0)"
      by (simp add: trace_slot_def)
    with True assms show ?thesis by simp
  next
    case False
    then have "unat (k mod 511) \<noteq> unat (ring_word s 0 mod 511)" by (simp only: word_unat_eq_iff) simp
    then have "trace_slot (trace_da s) k + 128 \<le> trace_slot (trace_da s) (ring_word s 0)
        \<or> trace_slot (trace_da s) (ring_word s 0) + 128 \<le> trace_slot (trace_da s) k"
      by (auto simp: trace_slot_def neq_iff)
    with False assms show ?thesis by (simp add: mem_load_store_other)
  qed
  then show "mem_load (ring_after s e) (trace_slot (trace_da s) k) 128 =
      (if k mod 511 = ring_word s 0 mod 511 then e
       else mem_load (mem s) (trace_slot (trace_da s) k) 128)"
    using ab by (simp add: ring_after_def Let_def mem_load_store_other)
qed

lemma trace_ring_effect:
  assumes "ring_placed s" and "t = velocitor_trace s l e q msg"
  shows "ring_word t 0 = ring_word s 0 + 1" and "ring_word t 4 = ring_word s 4"
    and "ring_word t 8 = (if ring_word s 0 - ring_word s 4 \<ge> 511 then ring_word s 8 + 1 else ring_word s 8)"
    and "ring_entry t k = (if k mod 511 = ring_word s 0 mod 511
           then trace_entry (clock s - trace_epoch s) l e q msg else ring_entry s k)"
    and "ring_placed t"
proof -
  let ?e = "trace_entry (clock s - trace_epoch s) l e q msg"
  have t: "t = s\<lparr>mem := ring_after s ?e\<rparr>"
    using trace_is_ring_after [OF assms(1)] assms(2) by simp
  then show pt: "ring_placed t" using assms(1) by (auto simp: ring_placed_def ring_ok_def)
  have f: "trace_da t = trace_da s" "mem t = ring_after s ?e" using t by simp_all
  note w = ring_word_load [OF pt] ring_word_load [OF assms(1)]
  note r = ring_after_load [where e = ?e and s = s, simplified]
  show "ring_word t 0 = ring_word s 0 + 1"
    using w(1) [of 0] r(1) by (simp add: f)
  show "ring_word t 4 = ring_word s 4"
    using w(1) [of 4] w(2) [of 4] r(2) by (simp add: f)
  show "ring_word t 8 = (if ring_word s 0 - ring_word s 4 \<ge> 511 then ring_word s 8 + 1 else ring_word s 8)"
    using w(1) [of 8] w(2) [of 8] r(3) by (simp add: f)
  show "ring_entry t k = (if k mod 511 = ring_word s 0 mod 511 then ?e else ring_entry s k)"
    using r(4) [of k] by (simp add: ring_entry_def f)
qed

section \<open>The unread lines as a queue\<close>

definition unread :: "'h velocitor_state \<Rightarrow> bytes list" where
  "unread s = map (\<lambda>i. ring_entry s (ring_word s 4 + word_of_nat i))
     [0..<unat (ring_word s 0 - ring_word s 4)]"

lemma unat_511: "unat (511 :: u32) = 511"
  by simp

lemma slot_distinct:
  fixes head tail :: u32
  assumes "unat tail + n = unat head" and "n < 511" and "i < n"
  shows "(tail + word_of_nat i) mod 511 \<noteq> head mod 511"
proof
  assume "(tail + word_of_nat i) mod 511 = head mod 511"
  then have "unat (tail + word_of_nat i) mod 511 = unat head mod 511"
    by (metis unat_mod unat_511)
  moreover have "unat (tail + word_of_nat i) = unat tail + i"
    using assms unat_bound [of head] by (simp add: unat_word_ariths unat_of_nat)
  ultimately have "(unat tail + n) mod 511 = (unat tail + i) mod 511" using assms(1) by simp
  then have "511 dvd n - i"
    using assms(3) mod_eq_dvd_iff_nat [of "unat tail + i" "unat tail + n" 511] by simp
  with assms(2,3) show False by (auto dest: dvd_imp_le)
qed

text \<open>C25. The trace ring is a queue of log lines: in a ring placed inside the fixed aperture at a multiple
  of four, while the free-running counters have not passed 2^32 (the tail is not above the head, and
  the head is not 2^32 - 1), a line the driver has room for is appended to the unread ones, loses none
  of them and counts no drop.\<close>

lemma trace_appends:
  assumes "ring_placed s" and "unat (ring_word s 4) \<le> unat (ring_word s 0)"
    and "unat (ring_word s 0) - unat (ring_word s 4) < 511" and "ring_word s 0 \<noteq> - 1"
    and "t = velocitor_trace s l e q msg"
  shows "unread t = unread s @ [trace_entry (clock s - trace_epoch s) l e q msg]
     \<and> ring_word t 8 = ring_word s 8"
proof -
  let ?h = "ring_word s 0" and ?t = "ring_word s 4"
  define n where "n = unat ?h - unat ?t"
  note eff = trace_ring_effect [OF assms(1,5)]
  have sub: "unat (?h - ?t) = n"
    using assms(2) by (simp add: n_def unat_sub word_le_nat_alt)
  have "?h + 1 \<noteq> 0" using assms(4) by (metis add_eq_0_iff2)
  then have "unat (?h + 1) = Suc (unat ?h)" by (simp add: unatSuc add.commute)
  then have suc: "unat (?h + 1 - ?t) = Suc n"
    using assms(2) by (simp add: n_def unat_sub word_le_nat_alt Suc_diff_le)
  have "\<not> ?h - ?t \<ge> 511" using sub assms(3) by (simp add: word_le_nat_alt n_def)
  then have drop: "ring_word t 8 = ring_word s 8" using eff(3) by simp
  have old: "ring_entry t (?t + word_of_nat i) = ring_entry s (?t + word_of_nat i)" if "i < n" for i
    using slot_distinct [of ?t n ?h i] that assms(2,3) eff(4) by (simp add: n_def)
  have "?t + word_of_nat n = ?h"
    using assms(2) by (simp add: n_def word_unat_eq_iff unat_word_ariths unat_of_nat)
  then have new: "ring_entry t (?t + word_of_nat n) = trace_entry (clock s - trace_epoch s) l e q msg"
    using eff(4) by simp
  show ?thesis
    using drop old new by (simp add: unread_def eff(1,2) suc sub)
qed


text \<open>A ring at 0x10000 with the given header, for the witnesses.\<close>

definition ring_with :: "u32 \<Rightarrow> u32 \<Rightarrow> unit velocitor_state" where
  "ring_with head tail = (velocitor_new ())\<lparr>trace_da := 0x10000, trace_len := 0x10000,
     mem := mem_store (mem_store (\<lambda>_. 0) 0x10000 (put_le 4 head)) 0x10004 (put_le 4 tail)\<rparr>"

lemma ring_with_simps:
  "ring_placed (ring_with head tail)" "ring_word (ring_with head tail) 0 = head"
  "ring_word (ring_with head tail) 4 = tail"
  by (simp_all add: ring_with_def ring_placed_def ring_ok_def ring_word_def velocitor_mem_read32_def
      mem_load_store_other unat_div)

lemma trace_appends_witness:
  "length (unread (velocitor_trace (ring_with 3 1) 0 0xffff 0 (str ''boot''))) = 3"
  using trace_appends [of "ring_with 3 1" "velocitor_trace (ring_with 3 1) 0 0xffff 0 (str ''boot'')"
      0 "0xffff" 0 "str ''boot''"]
  by (simp add: ring_with_simps unread_def)

text \<open>A line written over an unread one is counted: when the driver is a full ring behind, the new
  line takes the slot of the oldest of the last 511 lines and the dropped counter goes up by one.\<close>

lemma trace_overwrite_counted:
  assumes "ring_placed s" and "ring_word s 0 - ring_word s 4 \<ge> 511"
    and "t = velocitor_trace s l e q msg"
  shows "ring_word t 8 = ring_word s 8 + 1 \<and> ring_word t 0 = ring_word s 0 + 1
     \<and> ring_entry t (ring_word s 0) = trace_entry (clock s - trace_epoch s) l e q msg
     \<and> (\<forall>k. k mod 511 \<noteq> ring_word s 0 mod 511 \<longrightarrow> ring_entry t k = ring_entry s k)"
  using trace_ring_effect [OF assms(1,3)] assms(2) by simp

lemma trace_overwrite_counted_witness:
  "ring_word (velocitor_trace (ring_with 600 1) 0 0xffff 0 (str ''boot'')) 8
     = ring_word (ring_with 600 1) 8 + 1"
  using trace_overwrite_counted [of "ring_with 600 1"
      "velocitor_trace (ring_with 600 1) 0 0xffff 0 (str ''boot'')" 0 "0xffff" 0 "str ''boot''"]
  by (simp add: ring_with_simps word_le_nat_alt)

text \<open>The slot of the \<open>h\<close>-th line after the wrap is the one of the line 32 before it.\<close>

lemma wrapped_slot:
  fixes h :: u32
  assumes "h < 32"
  shows "(h - 32) mod 511 = h mod 511"
proof -
  have h: "unat h < 32" using assms by (simp add: word_less_nat_alt)
  then have "unat (h - 32) = unat h + (2 ^ 32 - 32)"
    by (simp add: unat_sub_if_size word_size word_le_nat_alt)
  then have "unat (h - 32) mod 511 = unat h mod 511" by (simp add: mod_add_eq [symmetric])
  then show ?thesis by (simp add: word_unat_eq_iff unat_mod)
qed


lemma ring_with_clock: "clock (ring_with head tail) - trace_epoch (ring_with head tail) = 0"
  by (simp add: ring_with_def velocitor_new_def)


end
