(* ===== verification/Vel_Core.thy ===== *)
theory Vel_Core
  imports Vel_Trace
begin

text \<open>
  The parts of \<open>velocitor.c\<close> every other part calls: access decoding, interrupts,
  the sliding window, the qualified error block, and the bring-up DMA.
\<close>

section \<open>Access decoding\<close>

definition velocitor_bar0_block :: "u64 \<Rightarrow> string" where
  "velocitor_bar0_block addr =
     (if addr \<le> VEL_BLK_CTRL_END then ''control, spec 4.1''
      else if addr \<ge> VEL_BLK_ERR_BASE \<and> addr \<le> VEL_BLK_ERR_END then ''qualified error, spec 4.4''
      else if addr \<ge> VEL_BLK_DBGDMA_BASE \<and> addr \<le> VEL_BLK_DBGDMA_END
      then ''bring-up DMA, spec 4.3''
      else if addr \<ge> VEL_BLK_CNT_BASE \<and> addr \<le> VEL_BLK_CNT_END then ''counters, spec 4.5''
      else if addr \<ge> VEL_BLK_RSC_BASE \<and> addr \<le> VEL_BLK_RSC_END
      then ''shadow resource table, spec 4.2''
      else if addr \<ge> VEL_BLK_VQ_BASE \<and> addr \<le> VEL_BLK_VQ_END
      then ''queue configuration, spec 4.2''
      else ''reserved'')"

definition velocitor_access_ok :: "u64 \<Rightarrow> nat \<Rightarrow> bool" where
  "velocitor_access_ok addr sz \<longleftrightarrow> sz = 4 \<and> addr AND 3 = 0"

section \<open>Interrupts\<close>

definition velocitor_raise :: "'h velocitor_state \<Rightarrow> u32 \<Rightarrow> 'h velocitor_state" where
  "velocitor_raise s vector =
     (let s = cnt_add VEL_REG_CNT_NOTIFY_TX 1 s;
          s = (if irq_bit vector AND VEL_IRQ_LATCHED \<noteq> 0
               then s\<lparr>irq_status := irq_status s OR irq_bit vector\<rparr> else s)
      in if irq_mask s AND irq_bit vector \<noteq> 0 then s
         else if msix_on s then s\<lparr>msix_log := unat vector # msix_log s\<rparr>
         else s)"

lemma raise_frame [frames]:
  "queues_of (velocitor_raise s v) = queues_of s" "heap_of (velocitor_raise s v) = heap_of s"
  "firmware_of (velocitor_raise s v) = firmware_of s" "window_of (velocitor_raise s v) = window_of s"
  "error_of (velocitor_raise s v) = error_of s" "dma_of (velocitor_raise s v) = dma_of s"
  "store_of (velocitor_raise s v) = store_of s"
  by (simp_all add: velocitor_raise_def Let_def frames)

lemma raise_simps [simp]:
  "mem (velocitor_raise s v) = mem s" "host (velocitor_raise s v) = host s"
  "vq (velocitor_raise s v) = vq s" "clock (velocitor_raise s v) = clock s"
  "msix_on (velocitor_raise s v) = msix_on s" "irq_mask (velocitor_raise s v) = irq_mask s"
  "reset (velocitor_raise s v) = reset s" "fw_status (velocitor_raise s v) = fw_status s"
  "fw_abi (velocitor_raise s v) = fw_abi s" "generation (velocitor_raise s v) = generation s"
  "trace_da (velocitor_raise s v) = trace_da s" "trace_len (velocitor_raise s v) = trace_len s"
  "trace_epoch (velocitor_raise s v) = trace_epoch s" "boot_timer (velocitor_raise s v) = boot_timer s"
  "dma_timer (velocitor_raise s v) = dma_timer s" "dma_status (velocitor_raise s v) = dma_status s"
  "vq_select (velocitor_raise s v) = vq_select s" "vq_pending (velocitor_raise s v) = vq_pending s"
  "vq_timer (velocitor_raise s v) = vq_timer s" "rsc_valid (velocitor_raise s v) = rsc_valid s"
  "rsc_len (velocitor_raise s v) = rsc_len s" "rsc_addr_lo (velocitor_raise s v) = rsc_addr_lo s"
  "rsc_addr_hi (velocitor_raise s v) = rsc_addr_hi s" "err_code (velocitor_raise s v) = err_code s"
  "err_info_lo (velocitor_raise s v) = err_info_lo s" "err_info_hi (velocitor_raise s v) = err_info_hi s"
  "err_notifyid (velocitor_raise s v) = err_notifyid s" "err_handle (velocitor_raise s v) = err_handle s"
  "err_generation (velocitor_raise s v) = err_generation s" "err_dropped (velocitor_raise s v) = err_dropped s"
  "next_handle (velocitor_raise s v) = next_handle s" "live_handles (velocitor_raise s v) = live_handles s"
  "alloc (velocitor_raise s v) = alloc s" "node_bump (velocitor_raise s v) = node_bump s"
  "err_inject (velocitor_raise s v) = err_inject s" "win_base (velocitor_raise s v) = win_base s"
  "win_pending (velocitor_raise s v) = win_pending s" "window_off (velocitor_raise s v) = window_off s"
  "rpmsg_announced (velocitor_raise s v) = rpmsg_announced s"
  by (simp_all add: velocitor_raise_def Let_def)

lemma raise_error_latched [simp]:
  "irq_status (velocitor_raise s VEL_IRQ_VEC_ERROR) AND irq_bit VEL_IRQ_VEC_ERROR \<noteq> 0"
  by (simp add: velocitor_raise_def Let_def irq_bit_def cnt_add_def)

section \<open>The sliding window\<close>

definition velocitor_window_promote :: "'h velocitor_state \<Rightarrow> 'h velocitor_state" where
  "velocitor_window_promote s =
     (if win_pending s = win_base s then s
      else
        let s = s\<lparr>win_base := win_pending s\<rparr>;
            s = s\<lparr>window_off := ucast (win_base s)\<rparr>
        in cnt_add VEL_REG_CNT_WIN_MOVE 1 s)"

definition velocitor_window_write_base ::
  "'h velocitor_state \<Rightarrow> u32 \<Rightarrow> 'h velocitor_state" where
  "velocitor_window_write_base s base =
     (if err_inject s AND VEL_ERR_INJECT_WIN_IGNORE \<noteq> 0
      then s\<lparr>err_inject := err_inject s AND NOT VEL_ERR_INJECT_WIN_IGNORE\<rparr>
      else if base AND (VEL_WINDOW_SIZE - 1) \<noteq> 0 \<or> base > VEL_MEM_SIZE - VEL_WINDOW_SIZE
      then cnt_add VEL_REG_CNT_ERR_RANGE 1 s
      else s\<lparr>win_pending := base\<rparr>)"

definition velocitor_mem_fill_pattern :: "'h velocitor_state \<Rightarrow> 'h velocitor_state" where
  "velocitor_mem_fill_pattern s =
     s\<lparr>mem := fold (\<lambda>k m. mem_store m (4 * k) (put_le 4 (word_of_nat (4 * k) :: u32)))
                 [0..<VEL_MEM_SIZE div 4] (mem s)\<rparr>"

lemma window_promote_frame [frames]:
  "queues_of (velocitor_window_promote s) = queues_of s"
  "heap_of (velocitor_window_promote s) = heap_of s"
  "firmware_of (velocitor_window_promote s) = firmware_of s"
  "irq_of (velocitor_window_promote s) = irq_of s"
  "error_of (velocitor_window_promote s) = error_of s"
  "dma_of (velocitor_window_promote s) = dma_of s"
  "store_of (velocitor_window_promote s) = store_of s"
  by (simp_all add: velocitor_window_promote_def Let_def frames)

lemma window_write_base_frame [frames]:
  "queues_of (velocitor_window_write_base s b) = queues_of s"
  "heap_of (velocitor_window_write_base s b) = heap_of s"
  "firmware_of (velocitor_window_write_base s b) = firmware_of s"
  "irq_of (velocitor_window_write_base s b) = irq_of s"
  "error_of (velocitor_window_write_base s b) = error_of s"
  "dma_of (velocitor_window_write_base s b) = dma_of s"
  "store_of (velocitor_window_write_base s b) = store_of s"
  by (simp_all add: velocitor_window_write_base_def Let_def frames)

section \<open>The qualified error block\<close>

definition velocitor_error_qualify ::
  "'h velocitor_state \<Rightarrow> u32 \<Rightarrow> u64 \<Rightarrow> u32 \<Rightarrow> u32 \<Rightarrow> 'h velocitor_state" where
  "velocitor_error_qualify s code info notifyid handle =
     (if irq_status s AND irq_bit VEL_IRQ_VEC_ERROR \<noteq> 0
      then s\<lparr>err_dropped := err_dropped s + 1\<rparr>
      else
        velocitor_trace
          (s\<lparr>err_code := code, err_info_lo := ucast info, err_info_hi := ucast (drop_bit 32 info),
             err_notifyid := notifyid, err_handle := handle, err_generation := generation s\<rparr>)
          VEL_TRACE_LEVEL_ERROR VEL_TRACE_ENGINE_NONE VEL_TRACE_SEQ_NONE
          (str ''error '' @ fmt_u code @ str '', info 0x'' @ fmt_x info @
           str '', notifyid '' @ fmt_u notifyid @ str '', handle '' @ fmt_u handle))"

definition velocitor_error_set ::
  "'h velocitor_state \<Rightarrow> u32 \<Rightarrow> u64 \<Rightarrow> 'h velocitor_state" where
  "velocitor_error_set s code info = velocitor_error_qualify s code info VEL_NOTIFYID_NONE 0"

lemma error_qualify_frame [frames]:
  "queues_of (velocitor_error_qualify s c i n h) = queues_of s"
  "heap_of (velocitor_error_qualify s c i n h) = heap_of s"
  "firmware_of (velocitor_error_qualify s c i n h) = firmware_of s"
  "window_of (velocitor_error_qualify s c i n h) = window_of s"
  "irq_of (velocitor_error_qualify s c i n h) = irq_of s"
  "dma_of (velocitor_error_qualify s c i n h) = dma_of s"
  "store_of (velocitor_error_qualify s c i n h) = store_of s"
  by (simp_all add: velocitor_error_qualify_def frames)

lemma error_qualify_simps [simp]:
  "host (velocitor_error_qualify s c i n h) = host s" "vq (velocitor_error_qualify s c i n h) = vq s"
  "clock (velocitor_error_qualify s c i n h) = clock s" "msix_on (velocitor_error_qualify s c i n h) = msix_on s"
  "irq_mask (velocitor_error_qualify s c i n h) = irq_mask s" "reset (velocitor_error_qualify s c i n h) = reset s"
  "fw_status (velocitor_error_qualify s c i n h) = fw_status s" "fw_abi (velocitor_error_qualify s c i n h) = fw_abi s"
  "generation (velocitor_error_qualify s c i n h) = generation s" "trace_da (velocitor_error_qualify s c i n h) = trace_da s"
  "trace_len (velocitor_error_qualify s c i n h) = trace_len s" "trace_epoch (velocitor_error_qualify s c i n h) = trace_epoch s"
  "boot_timer (velocitor_error_qualify s c i n h) = boot_timer s" "dma_timer (velocitor_error_qualify s c i n h) = dma_timer s"
  "dma_status (velocitor_error_qualify s c i n h) = dma_status s" "vq_select (velocitor_error_qualify s c i n h) = vq_select s"
  "vq_pending (velocitor_error_qualify s c i n h) = vq_pending s" "vq_timer (velocitor_error_qualify s c i n h) = vq_timer s"
  "rsc_valid (velocitor_error_qualify s c i n h) = rsc_valid s" "rsc_len (velocitor_error_qualify s c i n h) = rsc_len s"
  "rsc_addr_lo (velocitor_error_qualify s c i n h) = rsc_addr_lo s" "rsc_addr_hi (velocitor_error_qualify s c i n h) = rsc_addr_hi s"
  "next_handle (velocitor_error_qualify s c i n h) = next_handle s" "live_handles (velocitor_error_qualify s c i n h) = live_handles s"
  "alloc (velocitor_error_qualify s c i n h) = alloc s" "node_bump (velocitor_error_qualify s c i n h) = node_bump s"
  "win_base (velocitor_error_qualify s c i n h) = win_base s" "win_pending (velocitor_error_qualify s c i n h) = win_pending s"
  "window_off (velocitor_error_qualify s c i n h) = window_off s" "rpmsg_announced (velocitor_error_qualify s c i n h) = rpmsg_announced s"
  "err_inject (velocitor_error_qualify s c i n h) = err_inject s" "irq_status (velocitor_error_qualify s c i n h) = irq_status s"
  "cnt (velocitor_error_qualify s c i n h) = cnt s" "msix_log (velocitor_error_qualify s c i n h) = msix_log s"
  by (simp_all add: velocitor_error_qualify_def)

lemma error_set_frame [frames]:
  "queues_of (velocitor_error_set s c i) = queues_of s"
  "heap_of (velocitor_error_set s c i) = heap_of s"
  "firmware_of (velocitor_error_set s c i) = firmware_of s"
  "window_of (velocitor_error_set s c i) = window_of s"
  "irq_of (velocitor_error_set s c i) = irq_of s"
  "dma_of (velocitor_error_set s c i) = dma_of s"
  "store_of (velocitor_error_set s c i) = store_of s"
  by (simp_all add: velocitor_error_set_def frames)

lemma error_set_simps [simp]:
  "host (velocitor_error_set s c i) = host s" "vq (velocitor_error_set s c i) = vq s"
  "clock (velocitor_error_set s c i) = clock s" "msix_on (velocitor_error_set s c i) = msix_on s"
  "irq_mask (velocitor_error_set s c i) = irq_mask s" "reset (velocitor_error_set s c i) = reset s"
  "fw_status (velocitor_error_set s c i) = fw_status s" "fw_abi (velocitor_error_set s c i) = fw_abi s"
  "generation (velocitor_error_set s c i) = generation s" "trace_da (velocitor_error_set s c i) = trace_da s"
  "trace_len (velocitor_error_set s c i) = trace_len s" "trace_epoch (velocitor_error_set s c i) = trace_epoch s"
  "boot_timer (velocitor_error_set s c i) = boot_timer s" "dma_timer (velocitor_error_set s c i) = dma_timer s"
  "dma_status (velocitor_error_set s c i) = dma_status s" "vq_select (velocitor_error_set s c i) = vq_select s"
  "vq_pending (velocitor_error_set s c i) = vq_pending s" "vq_timer (velocitor_error_set s c i) = vq_timer s"
  "rsc_valid (velocitor_error_set s c i) = rsc_valid s" "rsc_len (velocitor_error_set s c i) = rsc_len s"
  "rsc_addr_lo (velocitor_error_set s c i) = rsc_addr_lo s" "rsc_addr_hi (velocitor_error_set s c i) = rsc_addr_hi s"
  "next_handle (velocitor_error_set s c i) = next_handle s" "live_handles (velocitor_error_set s c i) = live_handles s"
  "alloc (velocitor_error_set s c i) = alloc s" "node_bump (velocitor_error_set s c i) = node_bump s"
  "win_base (velocitor_error_set s c i) = win_base s" "win_pending (velocitor_error_set s c i) = win_pending s"
  "window_off (velocitor_error_set s c i) = window_off s" "rpmsg_announced (velocitor_error_set s c i) = rpmsg_announced s"
  "err_inject (velocitor_error_set s c i) = err_inject s" "irq_status (velocitor_error_set s c i) = irq_status s"
  "cnt (velocitor_error_set s c i) = cnt s" "msix_log (velocitor_error_set s c i) = msix_log s"
  by (simp_all add: velocitor_error_set_def)

section \<open>Bring-up DMA\<close>

definition VEL_DMA_LATENCY_NS :: u64 where [simp]: "VEL_DMA_LATENCY_NS = 1000"

definition velocitor_dma_fail ::
  "'h velocitor_state \<Rightarrow> u32 \<Rightarrow> u64 \<Rightarrow> 'h velocitor_state" where
  "velocitor_dma_fail s code info =
     (velocitor_error_set s code info)\<lparr>dma_status := VEL_DMA_STATUS_ERROR\<rparr>"

text \<open>The two transfer directions, with what they count, and the status of the transaction.\<close>

definition velocitor_dma_transfer ::
  "'h pci_bus \<Rightarrow> 'h velocitor_state \<Rightarrow> u64 \<Rightarrow> 'h velocitor_state \<times> bool" where
  "velocitor_dma_transfer B s iova =
     (if dma_ctl s = VEL_DBG_DMA_H2D then
        let (bs, ok) = pci_dma_read B (host s) iova (unat (dma_len s));
            s = s\<lparr>mem := mem_store (mem s) (unat (dma_dev s)) bs\<rparr>;
            s = cnt_add VEL_REG_CNT_DMA_RD 1 s
        in (cnt_add VEL_REG_CNT_BYTES_RD_LO (dma_len s) s, ok)
      else
        let (h, ok) = pci_dma_write B (host s) iova
                        (mem_load (mem s) (unat (dma_dev s)) (unat (dma_len s)));
            s = s\<lparr>host := h\<rparr>;
            s = cnt_add VEL_REG_CNT_DMA_WR 1 s
        in (cnt_add VEL_REG_CNT_BYTES_WR_LO (dma_len s) s, ok))"

definition velocitor_dma_run ::
  "'h pci_bus \<Rightarrow> 'h velocitor_state \<Rightarrow> 'h velocitor_state" where
  "velocitor_dma_run B s =
     (let iova = addr64 (dma_addr_hi s) (dma_addr_lo s) in
      if iova \<ge> 2 ^ VEL_DMA_BITS then velocitor_dma_fail s VEL_ERR_DMA_WIDTH iova
      else if ucast (dma_dev s) + ucast (dma_len s) > (VEL_MEM_SIZE :: u64)
      then cnt_add VEL_REG_CNT_ERR_RANGE 1
             (velocitor_dma_fail s VEL_ERR_OUT_OF_BOUNDS (ucast (dma_dev s)))
      else
        let (s, ok) = velocitor_dma_transfer B s iova
        in if \<not> ok then velocitor_dma_fail s VEL_ERR_DMA_WIDTH iova
           else s\<lparr>dma_status := VEL_DMA_STATUS_DONE\<rparr>)"

definition velocitor_dma_start :: "'h velocitor_state \<Rightarrow> u32 \<Rightarrow> 'h velocitor_state" where
  "velocitor_dma_start s ctl =
     (if ctl \<noteq> VEL_DBG_DMA_H2D \<and> ctl \<noteq> VEL_DBG_DMA_D2H then s
      else s\<lparr>dma_ctl := ctl, err_code := VEL_ERR_NONE, dma_status := VEL_DMA_STATUS_BUSY,
             dma_timer := Some (clock s + VEL_DMA_LATENCY_NS)\<rparr>)"

lemma dma_fail_frame [frames]:
  "queues_of (velocitor_dma_fail s c i) = queues_of s"
  "heap_of (velocitor_dma_fail s c i) = heap_of s"
  "firmware_of (velocitor_dma_fail s c i) = firmware_of s"
  "window_of (velocitor_dma_fail s c i) = window_of s"
  "irq_of (velocitor_dma_fail s c i) = irq_of s"
  "store_of (velocitor_dma_fail s c i) = store_of s"
  by (simp_all add: velocitor_dma_fail_def frames)

lemma dma_transfer_frame [frames]:
  "queues_of (fst (velocitor_dma_transfer B s a)) = queues_of s"
  "heap_of (fst (velocitor_dma_transfer B s a)) = heap_of s"
  "firmware_of (fst (velocitor_dma_transfer B s a)) = firmware_of s"
  "window_of (fst (velocitor_dma_transfer B s a)) = window_of s"
  "irq_of (fst (velocitor_dma_transfer B s a)) = irq_of s"
  by (simp_all add: velocitor_dma_transfer_def Let_def frames split: prod.split)

lemma dma_run_frame [frames]:
  "queues_of (velocitor_dma_run B s) = queues_of s"
  "heap_of (velocitor_dma_run B s) = heap_of s"
  "firmware_of (velocitor_dma_run B s) = firmware_of s"
  "window_of (velocitor_dma_run B s) = window_of s"
  "irq_of (velocitor_dma_run B s) = irq_of s"
  by (simp_all add: velocitor_dma_run_def Let_def frames case_prod_beta)

lemma dma_start_frame [frames]:
  "queues_of (velocitor_dma_start s c) = queues_of s"
  "heap_of (velocitor_dma_start s c) = heap_of s"
  "firmware_of (velocitor_dma_start s c) = firmware_of s"
  "window_of (velocitor_dma_start s c) = window_of s"
  "irq_of (velocitor_dma_start s c) = irq_of s"
  "store_of (velocitor_dma_start s c) = store_of s"
  by (simp_all add: velocitor_dma_start_def frames)

end
