(* ===== verification/Vel_Rsc.thy ===== *)
theory Vel_Rsc
  imports Vel_Core
begin

text \<open>
  The shadow resource table of \<open>velocitor.c\<close>: a word read through the PCI bus behind
  the 42-bit trap, the walk that learns which notifyid names which queue, and the
  check made when RSC_VALID goes up. The table lies in host memory, so every read
  goes to the bus; the walk is bounded by the entry count and stops at the end of the
  published length.
\<close>

definition VEL_RSC_HDR_SIZE :: u32 where [simp]: "VEL_RSC_HDR_SIZE = 16"
definition VEL_RSC_TYPE_VDEV :: u32 where [simp]: "VEL_RSC_TYPE_VDEV = 3"
definition VEL_RSC_OFF_ENTRIES :: u32 where [simp]: "VEL_RSC_OFF_ENTRIES = 16"
definition VEL_RSC_BODY :: u32 where [simp]: "VEL_RSC_BODY = 4"
definition VEL_VDEV_OFF_GFEATURES :: u32 where [simp]: "VEL_VDEV_OFF_GFEATURES = 12"
definition VEL_VDEV_OFF_STATUS :: u32 where [simp]: "VEL_VDEV_OFF_STATUS = 20"
definition VEL_VDEV_OFF_VRING :: u32 where [simp]: "VEL_VDEV_OFF_VRING = 24"
definition VEL_VDEV_VRING_STRIDE :: u32 where [simp]: "VEL_VDEV_VRING_STRIDE = 20"
definition VEL_VDEV_VRING_NOTIFYID :: u32 where [simp]: "VEL_VDEV_VRING_NOTIFYID = 12"

section \<open>Reading the table\<close>

definition velocitor_rsc_in_table :: "'h velocitor_state \<Rightarrow> u32 \<Rightarrow> bool" where
  "velocitor_rsc_in_table s off \<longleftrightarrow> (ucast off :: u64) + 4 \<le> ucast (rsc_len s)"

text \<open>\<open>None\<close> is the C return value false.\<close>

definition velocitor_rsc_read32 ::
  "'h pci_bus \<Rightarrow> 'h velocitor_state \<Rightarrow> u32 \<Rightarrow> 'h velocitor_state \<times> u32 option" where
  "velocitor_rsc_read32 B s off =
     (let base = addr64 (rsc_addr_hi s) (rsc_addr_lo s) in
      if (ucast off :: u64) + 4 > ucast (rsc_len s)
      then (velocitor_error_set s VEL_ERR_OUT_OF_BOUNDS (ucast off), None)
      else if base + ucast off \<ge> 2 ^ VEL_DMA_BITS
      then (velocitor_error_set s VEL_ERR_DMA_WIDTH (base + ucast off), None)
      else
        let (raw, ok) = pci_dma_read B (host s) (base + ucast off) 4 in
        if \<not> ok then (velocitor_error_set s VEL_ERR_DMA_WIDTH (base + ucast off), None)
        else (s, Some (get_le 0 4 raw)))"

lemma rsc_read32_frame [frames]:
  "queues_of (fst (velocitor_rsc_read32 B s off)) = queues_of s"
  "heap_of (fst (velocitor_rsc_read32 B s off)) = heap_of s"
  "firmware_of (fst (velocitor_rsc_read32 B s off)) = firmware_of s"
  "window_of (fst (velocitor_rsc_read32 B s off)) = window_of s"
  "irq_of (fst (velocitor_rsc_read32 B s off)) = irq_of s"
  "dma_of (fst (velocitor_rsc_read32 B s off)) = dma_of s"
  "store_of (fst (velocitor_rsc_read32 B s off)) = store_of s"
  by (simp_all add: velocitor_rsc_read32_def Let_def frames split: prod.split)

lemma rsc_read32_simps [simp]:
  "host (fst (velocitor_rsc_read32 B s off)) = host s"
  "vq (fst (velocitor_rsc_read32 B s off)) = vq s"
  "clock (fst (velocitor_rsc_read32 B s off)) = clock s"
  by (simp_all add: velocitor_rsc_read32_def Let_def split: prod.split)

section \<open>The walk over the virtio devices\<close>

text \<open>
  The inner loop over the vrings of one vdev: \<open>n\<close> iterations left, the next vring is
  \<open>j\<close> and the next queue \<open>q\<close>. The flag says the C function returned from inside.
\<close>

fun rsc_scan_vrings ::
  "'h pci_bus \<Rightarrow> u32 \<Rightarrow> nat \<Rightarrow> u32 \<Rightarrow> nat \<Rightarrow> 'h velocitor_state \<Rightarrow> 'h velocitor_state \<times> nat \<times> bool"
where
  "rsc_scan_vrings B body 0 j q s = (s, q, False)"
| "rsc_scan_vrings B body (Suc n) j q s =
     (if q \<ge> VEL_VQ_COUNT then (s, q, False)
      else
        let off = body + VEL_VDEV_OFF_VRING + j * VEL_VDEV_VRING_STRIDE + VEL_VDEV_VRING_NOTIFYID in
        if \<not> velocitor_rsc_in_table s off
        then (set_vq q (q_notifyid_update (\<lambda>_. VEL_NOTIFYID_NONE)) s, q, True)
        else case velocitor_rsc_read32 B s off of
          (s, None) \<Rightarrow> (set_vq q (q_notifyid_update (\<lambda>_. VEL_NOTIFYID_NONE)) s, q, True)
        | (s, Some v) \<Rightarrow>
            rsc_scan_vrings B body n (j + 1) (Suc q)
              (set_vq q (q_vdev_off_update (\<lambda>_. body) \<circ> q_notifyid_update (\<lambda>_. v)) s))"

text \<open>The outer loop over the entries, \<open>n\<close> iterations left, the next entry is \<open>i\<close>.\<close>

fun rsc_scan_entries ::
  "'h pci_bus \<Rightarrow> nat \<Rightarrow> u32 \<Rightarrow> nat \<Rightarrow> 'h velocitor_state \<Rightarrow> 'h velocitor_state"
where
  "rsc_scan_entries B 0 i q s = s"
| "rsc_scan_entries B (Suc n) i q s =
     (if q \<ge> VEL_VQ_COUNT \<or> \<not> velocitor_rsc_in_table s (VEL_RSC_OFF_ENTRIES + 4 * i) then s
      else case velocitor_rsc_read32 B s (VEL_RSC_OFF_ENTRIES + 4 * i) of
        (s, None) \<Rightarrow> s
      | (s, Some entry) \<Rightarrow>
          if \<not> velocitor_rsc_in_table s entry then s
          else case velocitor_rsc_read32 B s entry of
            (s, None) \<Rightarrow> s
          | (s, Some type) \<Rightarrow>
              if type \<noteq> VEL_RSC_TYPE_VDEV then rsc_scan_entries B n (i + 1) q s
              else
                let body = entry + VEL_RSC_BODY in
                if \<not> velocitor_rsc_in_table s (body + VEL_VDEV_OFF_STATUS) then s
                else case velocitor_rsc_read32 B s (body + VEL_VDEV_OFF_STATUS) of
                  (s, None) \<Rightarrow> s
                | (s, Some packed) \<Rightarrow>
                    let nvrings = drop_bit 8 packed AND 0xFF;
                        (s, q, left) = rsc_scan_vrings B body (unat nvrings) 0 q s
                    in if left then s else rsc_scan_entries B n (i + 1) q s)"

definition rsc_forget :: "'h velocitor_state \<Rightarrow> 'h velocitor_state" where
  "rsc_forget s = s\<lparr>vq := (\<lambda>i. if i < VEL_VQ_COUNT
     then (vq s i)\<lparr>q_notifyid := VEL_NOTIFYID_NONE, q_vdev_off := 0\<rparr> else vq s i)\<rparr>"

definition velocitor_rsc_scan_vdevs ::
  "'h pci_bus \<Rightarrow> 'h velocitor_state \<Rightarrow> u32 \<Rightarrow> 'h velocitor_state" where
  "velocitor_rsc_scan_vdevs B s num = rsc_scan_entries B (unat num) 0 0 (rsc_forget s)"

definition velocitor_rsc_publish ::
  "'h pci_bus \<Rightarrow> 'h velocitor_state \<Rightarrow> u32 \<Rightarrow> 'h velocitor_state" where
  "velocitor_rsc_publish B s val =
     (if val AND 1 = 0 then s\<lparr>rsc_valid := 0\<rparr>
      else if rsc_len s < VEL_RSC_HDR_SIZE
      then velocitor_raise (velocitor_error_set s VEL_ERR_BAD_DESC (ucast (rsc_len s))) VEL_IRQ_VEC_ERROR
      else case velocitor_rsc_read32 B s 0 of
        (s, None) \<Rightarrow> velocitor_raise s VEL_IRQ_VEC_ERROR
      | (s, Some ver) \<Rightarrow>
          (case velocitor_rsc_read32 B s 4 of
             (s, None) \<Rightarrow> velocitor_raise s VEL_IRQ_VEC_ERROR
           | (s, Some num) \<Rightarrow>
               if ver \<noteq> 1 \<or> num = 0
               then velocitor_raise (velocitor_error_set s VEL_ERR_BAD_DESC (ucast ver))
                      VEL_IRQ_VEC_ERROR
               else velocitor_rsc_scan_vdevs B (s\<lparr>rsc_valid := 1\<rparr>) num))"

section \<open>What the walk leaves alone\<close>

lemma rsc_read32_rest: "velocitor_rsc_read32 B s off = (t, r) \<Longrightarrow> rest_of t = rest_of s"
  using rsc_read32_frame [of B s off] by (simp add: rest_of_def)

lemma set_vq_rest: "(\<And>v. queue_cfg (f v) = queue_cfg v) \<Longrightarrow> rest_of (set_vq q f s) = rest_of s"
  by (simp add: rest_of_def frames)

lemma rsc_scan_vrings_rest: "rest_of (fst (rsc_scan_vrings B body n j q s)) = rest_of s"
  by (induction B body n j q s rule: rsc_scan_vrings.induct)
    (auto simp: Let_def set_vq_rest rsc_read32_rest split: prod.split option.split)

lemma rsc_scan_vrings_restD:
  "rsc_scan_vrings B body n j q s = (t, q', b) \<Longrightarrow> rest_of t = rest_of s"
  using rsc_scan_vrings_rest [of B body n j q s] by simp

lemma rsc_scan_entries_rest: "rest_of (rsc_scan_entries B n i q s) = rest_of s"
  by (induction B n i q s rule: rsc_scan_entries.induct)
    (auto simp: Let_def rsc_read32_rest dest!: rsc_scan_vrings_restD
      split: prod.split option.split)

lemma rsc_forget_rest: "rest_of (rsc_forget s) = rest_of s"
proof -
  have "(\<lambda>i. queue_cfg (if i < VEL_VQ_COUNT
      then (vq s i)\<lparr>q_notifyid := VEL_NOTIFYID_NONE, q_vdev_off := 0\<rparr> else vq s i))
    = (\<lambda>i. queue_cfg (vq s i))"
    by (simp add: fun_eq_iff queue_cfg_def)
  then show ?thesis by (simp add: rsc_forget_def rest_of_def frames) (simp add: queues_of_def)
qed

lemma raise_rest: "rest_of (velocitor_raise s v) = rest_of s"
  and error_qualify_rest: "rest_of (velocitor_error_qualify s c i n h) = rest_of s"
  and error_set_rest: "rest_of (velocitor_error_set s c i) = rest_of s"
  and rsc_valid_rest: "rest_of (s\<lparr>rsc_valid := w\<rparr>) = rest_of s"
  and cnt_add_rest: "rest_of (cnt_add r k s) = rest_of s"
  and trace_rest: "rest_of (velocitor_trace s l e q msg) = rest_of s"
  by (simp_all add: rest_of_def frames)

lemmas rest_simps = raise_rest error_qualify_rest error_set_rest rsc_valid_rest cnt_add_rest trace_rest

lemma rsc_scan_vdevs_rest: "rest_of (velocitor_rsc_scan_vdevs B s num) = rest_of s"
  by (simp add: velocitor_rsc_scan_vdevs_def rsc_scan_entries_rest rsc_forget_rest)

lemma rsc_publish_rest: "rest_of (velocitor_rsc_publish B s val) = rest_of s"
  by (auto simp: velocitor_rsc_publish_def rest_simps rsc_scan_vdevs_rest rsc_read32_rest
      split: prod.split option.split)

lemma restD [dest]:
  assumes "rest_of t = rest_of s"
  shows "queues_of t = queues_of s" "heap_of t = heap_of s" "firmware_of t = firmware_of s"
    "window_of t = window_of s" "dma_of t = dma_of s" "store_of t = store_of s"
  using assms by (simp_all add: rest_of_def)

text \<open>Nor does it look at the injected faults.\<close>

lemma rsc_read32_inject: "velocitor_rsc_read32 B s off = (t, r) \<Longrightarrow> err_inject t = err_inject s"
  by (auto simp: velocitor_rsc_read32_def Let_def split: prod.splits if_splits)

lemma rsc_scan_vrings_inject: "rsc_scan_vrings B body n j q s = (t, q', b) \<Longrightarrow> err_inject t = err_inject s"
proof (induction B body n j q s arbitrary: t q' b rule: rsc_scan_vrings.induct)
  case (2 B body n j q s)
  then show ?case by (auto simp: Let_def dest: rsc_read32_inject split: prod.splits option.splits if_splits)
qed simp

lemma rsc_scan_entries_inject: "err_inject (rsc_scan_entries B n i q s) = err_inject s"
  by (induction B n i q s rule: rsc_scan_entries.induct)
    (auto simp: Let_def dest!: rsc_read32_inject rsc_scan_vrings_inject split: prod.split option.split)

lemma rsc_publish_inject [simp]: "err_inject (velocitor_rsc_publish B s v) = err_inject s"
  by (auto simp: velocitor_rsc_publish_def velocitor_rsc_scan_vdevs_def rsc_scan_entries_inject rsc_forget_def
      dest!: rsc_read32_inject split: prod.split option.split)

lemmas rsc_publish_frame [frames] = restD [OF rsc_publish_rest]

end
