(* ===== verification/Vel_Queue.thy ===== *)
theory Vel_Queue
  imports Vel_Rsc
begin

text \<open>
  The split rings of \<open>velocitor.c\<close> as the device uses them: host accesses behind the
  42-bit trap, taking a head off an available ring, handing it back on the used ring,
  and the window through which the driver describes a queue. \<open>queues_ok\<close> says that an
  enabled queue has a usable description; it is what keeps \<open>% vq->num\<close> from dividing by
  zero, since every ring access is behind an \<open>enable\<close> test.
\<close>

definition VEL_AVAIL_OFF_IDX :: u64 where [simp]: "VEL_AVAIL_OFF_IDX = 2"
definition VEL_AVAIL_OFF_RING :: u64 where [simp]: "VEL_AVAIL_OFF_RING = 4"
definition VEL_USED_OFF_IDX :: u64 where [simp]: "VEL_USED_OFF_IDX = 2"
definition VEL_USED_OFF_RING :: u64 where [simp]: "VEL_USED_OFF_RING = 4"

definition VRING_DESC_F_NEXT :: u16 where [simp]: "VRING_DESC_F_NEXT = 1"
definition VRING_DESC_F_WRITE :: u16 where [simp]: "VRING_DESC_F_WRITE = 2"

definition VEL_VQ_LATENCY_NS :: u64 where [simp]: "VEL_VQ_LATENCY_NS = 1000"

section \<open>Host accesses\<close>

definition vq_trap :: "'h velocitor_state \<Rightarrow> nat \<Rightarrow> u64 \<Rightarrow> 'h velocitor_state" where
  "vq_trap s q iova =
     velocitor_raise
       (velocitor_error_qualify s VEL_ERR_DMA_WIDTH iova (q_notifyid (vq s q)) 0)
       VEL_IRQ_VEC_ERROR"

text \<open>
  The buffer the C function fills is passed in with its contents and answered with what
  it holds afterwards: nothing is written when the trap fires.
\<close>

definition velocitor_vq_host_read ::
  "'h pci_bus \<Rightarrow> 'h velocitor_state \<Rightarrow> nat \<Rightarrow> u64 \<Rightarrow> bytes \<Rightarrow> 'h velocitor_state \<times> bytes \<times> bool"
where
  "velocitor_vq_host_read B s q iova buf =
     (let len = word_of_nat (length buf) :: u64 in
      if iova + len > 2 ^ VEL_DMA_BITS then (vq_trap s q iova, buf, False)
      else
        let (bs, ok) = pci_dma_read B (host s) iova (length buf) in
        if \<not> ok then (vq_trap s q iova, bs, False)
        else
          let s = cnt_add VEL_REG_CNT_DMA_RD 1 s;
              s = cnt_add VEL_REG_CNT_BYTES_RD_LO (ucast len) s
          in (s, bs, True))"

definition velocitor_vq_host_write ::
  "'h pci_bus \<Rightarrow> 'h velocitor_state \<Rightarrow> nat \<Rightarrow> u64 \<Rightarrow> bytes \<Rightarrow> 'h velocitor_state \<times> bool"
where
  "velocitor_vq_host_write B s q iova buf =
     (let len = word_of_nat (length buf) :: u64 in
      if iova + len > 2 ^ VEL_DMA_BITS then (vq_trap s q iova, False)
      else
        let (h, ok) = pci_dma_write B (host s) iova buf;
            s = s\<lparr>host := h\<rparr>
        in if \<not> ok then (vq_trap s q iova, False)
        else
          let s = cnt_add VEL_REG_CNT_DMA_WR 1 s;
              s = cnt_add VEL_REG_CNT_BYTES_WR_LO (ucast len) s
          in (s, True))"

text \<open>A little-endian 16-bit word read through \<open>velocitor_vq_host_read\<close>, false being \<open>None\<close>.\<close>

definition host_read16 ::
  "'h pci_bus \<Rightarrow> 'h velocitor_state \<Rightarrow> nat \<Rightarrow> u64 \<Rightarrow> 'h velocitor_state \<times> u16 option" where
  "host_read16 B s q iova =
     (case velocitor_vq_host_read B s q iova [0, 0] of
        (s, raw, ok) \<Rightarrow> (s, if ok then Some (get_le 0 2 raw) else None))"

section \<open>Negotiation\<close>

definition velocitor_vq_refresh_negotiation ::
  "'h pci_bus \<Rightarrow> 'h velocitor_state \<Rightarrow> nat \<Rightarrow> 'h velocitor_state" where
  "velocitor_vq_refresh_negotiation B s q =
     (if rsc_valid s = 0 \<or> q_vdev_off (vq s q) = 0 then s
      else
        let s = (case velocitor_rsc_read32 B s (q_vdev_off (vq s q) + VEL_VDEV_OFF_GFEATURES) of
                   (s, Some v) \<Rightarrow> set_vq q (q_gfeatures_update (\<lambda>_. v)) s
                 | (s, None) \<Rightarrow> s)
        in case velocitor_rsc_read32 B s (q_vdev_off (vq s q) + VEL_VDEV_OFF_STATUS) of
             (s, Some packed) \<Rightarrow> set_vq q (q_vstatus_update (\<lambda>_. packed AND 0xFF)) s
           | (s, None) \<Rightarrow> s)"

section \<open>The rings\<close>

record vring_desc =
  d_addr :: u64
  d_len :: u32
  d_flags :: u16
  d_next :: u16

definition get_desc :: "bytes \<Rightarrow> vring_desc" where
  "get_desc bs = \<lparr>d_addr = get_le 0 8 bs, d_len = get_le 8 4 bs, d_flags = get_le 12 2 bs,
     d_next = get_le 14 2 bs\<rparr>"

definition vq_desc_addr :: "velocitor_queue \<Rightarrow> u64" where
  "vq_desc_addr v = addr64 (q_desc_hi v) (q_desc_lo v)"

definition vq_avail_addr :: "velocitor_queue \<Rightarrow> u64" where
  "vq_avail_addr v = addr64 (q_avail_hi v) (q_avail_lo v)"

definition vq_used_addr :: "velocitor_queue \<Rightarrow> u64" where
  "vq_used_addr v = addr64 (q_used_hi v) (q_used_lo v)"

definition bad_desc :: "'h velocitor_state \<Rightarrow> nat \<Rightarrow> u64 \<Rightarrow> 'h velocitor_state" where
  "bad_desc s q info = velocitor_raise
     (velocitor_error_qualify s VEL_ERR_BAD_DESC info (q_notifyid (vq s q)) 0) VEL_IRQ_VEC_ERROR"

definition velocitor_vq_desc ::
  "'h pci_bus \<Rightarrow> 'h velocitor_state \<Rightarrow> nat \<Rightarrow> u16 \<Rightarrow> 'h velocitor_state \<times> vring_desc option" where
  "velocitor_vq_desc B s q index =
     (if ucast index \<ge> q_num (vq s q) then (bad_desc s q (ucast index), None)
      else case velocitor_vq_host_read B s q (vq_desc_addr (vq s q) + ucast index * 16)
                  (replicate 16 0) of
        (s, bs, ok) \<Rightarrow> (s, if ok then Some (get_desc bs) else None))"

definition avail_slot :: "velocitor_queue \<Rightarrow> u16" where
  "avail_slot v = ucast ((ucast (ucast (q_last_avail v) :: u16) :: u32) mod q_num v)"

definition avail_advance :: "velocitor_queue \<Rightarrow> velocitor_queue" where
  "avail_advance v = v\<lparr>q_last_avail := ucast (ucast (q_last_avail v + 1) :: u16)\<rparr>"

definition velocitor_vq_pop_head ::
  "'h pci_bus \<Rightarrow> 'h velocitor_state \<Rightarrow> nat \<Rightarrow> 'h velocitor_state \<times> u16 option" where
  "velocitor_vq_pop_head B s q =
     (case host_read16 B s q (vq_avail_addr (vq s q) + VEL_AVAIL_OFF_IDX) of
        (s, None) \<Rightarrow> (s, None)
      | (s, Some idx) \<Rightarrow>
          if idx = ucast (q_last_avail (vq s q)) then (s, None)
          else case host_read16 B s q
                 (vq_avail_addr (vq s q) + VEL_AVAIL_OFF_RING + ucast (avail_slot (vq s q)) * 2) of
            (s, None) \<Rightarrow> (s, None)
          | (s, Some head) \<Rightarrow>
              (cnt_add VEL_REG_CNT_DESC 1 (set_vq q avail_advance s), Some head))"

definition velocitor_vq_pop ::
  "'h pci_bus \<Rightarrow> 'h velocitor_state \<Rightarrow> nat \<Rightarrow> 'h velocitor_state \<times> (u16 \<times> u64 \<times> u32) option" where
  "velocitor_vq_pop B s q =
     (case host_read16 B s q (vq_avail_addr (vq s q) + VEL_AVAIL_OFF_IDX) of
        (s, None) \<Rightarrow> (s, None)
      | (s, Some idx) \<Rightarrow>
          if idx = ucast (q_last_avail (vq s q)) then (s, None)
          else case host_read16 B s q
                 (vq_avail_addr (vq s q) + VEL_AVAIL_OFF_RING + ucast (avail_slot (vq s q)) * 2) of
            (s, None) \<Rightarrow> (s, None)
          | (s, Some head) \<Rightarrow>
              if ucast head \<ge> q_num (vq s q) then (bad_desc s q (ucast head), None)
              else case velocitor_vq_host_read B s q (vq_desc_addr (vq s q) + ucast head * 16)
                          (replicate 16 0) of
                (s, bs, ok) \<Rightarrow>
                  if \<not> ok then (s, None)
                  else (cnt_add VEL_REG_CNT_DESC 1 (set_vq q avail_advance s),
                        Some (head, d_addr (get_desc bs), d_len (get_desc bs))))"

definition velocitor_vq_push ::
  "'h pci_bus \<Rightarrow> 'h velocitor_state \<Rightarrow> nat \<Rightarrow> u16 \<Rightarrow> u32 \<Rightarrow> 'h velocitor_state" where
  "velocitor_vq_push B s q head len =
     (case host_read16 B s q (vq_used_addr (vq s q) + VEL_USED_OFF_IDX) of
        (s, None) \<Rightarrow> s
      | (s, Some idx) \<Rightarrow>
          (case velocitor_vq_host_write B s q
                  (vq_used_addr (vq s q) + VEL_USED_OFF_RING + ucast (ucast idx mod q_num (vq s q)) * 8)
                  (put_le 4 (ucast head :: u32) @ put_le 4 len) of
             (s, False) \<Rightarrow> s
           | (s, True) \<Rightarrow>
               (case velocitor_vq_host_write B s q (vq_used_addr (vq s q) + VEL_USED_OFF_IDX)
                       (put_le 2 (idx + 1)) of
                  (s, False) \<Rightarrow> s
                | (s, True) \<Rightarrow> velocitor_raise s (q_msix_vector (vq s q)))))"

section \<open>Activation\<close>

definition velocitor_vq_arm :: "'h velocitor_state \<Rightarrow> nat \<Rightarrow> 'h velocitor_state" where
  "velocitor_vq_arm s q =
     s\<lparr>vq_pending := vq_pending s OR push_bit q 1,
       vq_timer := Some (clock s + VEL_VQ_LATENCY_NS)\<rparr>"

definition velocitor_vq_purge :: "'h velocitor_state \<Rightarrow> 'h velocitor_state" where
  "velocitor_vq_purge s =
     s\<lparr>rpmsg_announced := False, vq_pending := 0, vq_timer := None,
       vq := (\<lambda>q. if q < VEL_VQ_COUNT
                 then (vq s q)\<lparr>q_enable := 0, q_last_avail := 0, q_gfeatures := 0, q_vstatus := 0\<rparr>
                 else vq s q)\<rparr>"

definition velocitor_vq_enable ::
  "'h velocitor_state \<Rightarrow> nat \<Rightarrow> u32 \<Rightarrow> 'h velocitor_state" where
  "velocitor_vq_enable s q val =
     (let v = vq s q in
      if val AND 1 = 0 then set_vq q (\<lambda>v. v\<lparr>q_enable := 0, q_last_avail := 0\<rparr>) s
      else if q_enable v \<noteq> 0 then s
      else if q_num v = 0 \<or> q_num v > VEL_VRING_NUM then s
      else if q_desc_lo v OR q_desc_hi v = 0 \<or> q_avail_lo v OR q_avail_hi v = 0
              \<or> q_used_lo v OR q_used_hi v = 0 then s
      else if q_msix_vector v \<ge> VEL_MSIX_VECTORS then s
      else
        let s = set_vq q (\<lambda>v. v\<lparr>q_enable := 1\<rparr>) s;
            s = velocitor_trace s VEL_TRACE_LEVEL_INFO VEL_TRACE_ENGINE_NONE VEL_TRACE_SEQ_NONE
                  (str ''queue '' @ fmt_dec q @ str '' enabled, '' @ fmt_u (q_num v) @
                   str '' descriptors, notifyid '' @ fmt_u (q_notifyid v) @
                   str '', vector '' @ fmt_u (q_msix_vector v))
        in velocitor_vq_arm s q)"

definition velocitor_doorbell :: "'h velocitor_state \<Rightarrow> u32 \<Rightarrow> 'h velocitor_state" where
  "velocitor_doorbell s notifyid =
     (let s = cnt_add VEL_REG_CNT_DB_RX 1 s in
      case find (\<lambda>q. q_notifyid (vq s q) = notifyid) [0..<VEL_VQ_COUNT] of
        None \<Rightarrow> s
      | Some q \<Rightarrow> if q_enable (vq s q) = 0 then s else velocitor_vq_arm s q)"

section \<open>The configuration window\<close>

definition velocitor_vq_read :: "'h velocitor_state \<Rightarrow> u64 \<Rightarrow> u32" where
  "velocitor_vq_read s addr =
     (let v = vq s (unat (vq_select s)) in
      if addr = VEL_REG_VQ_SELECT then vq_select s
      else if addr = VEL_REG_VQ_NUM_MAX then VEL_VRING_NUM
      else if addr = VEL_REG_VQ_NUM then q_num v
      else if addr = VEL_REG_VQ_ENABLE then q_enable v
      else if addr = VEL_REG_VQ_DESC_LO then q_desc_lo v
      else if addr = VEL_REG_VQ_DESC_HI then q_desc_hi v
      else if addr = VEL_REG_VQ_AVAIL_LO then q_avail_lo v
      else if addr = VEL_REG_VQ_AVAIL_HI then q_avail_hi v
      else if addr = VEL_REG_VQ_USED_LO then q_used_lo v
      else if addr = VEL_REG_VQ_USED_HI then q_used_hi v
      else if addr = VEL_REG_VQ_MSIX_VECTOR then q_msix_vector v
      else 0)"

definition velocitor_vq_write ::
  "'h velocitor_state \<Rightarrow> u64 \<Rightarrow> u32 \<Rightarrow> 'h velocitor_state" where
  "velocitor_vq_write s addr val =
     (let q = unat (vq_select s) in
      if addr = VEL_REG_VQ_SELECT then
        (if val \<ge> VEL_VQ_COUNT then s else s\<lparr>vq_select := val\<rparr>)
      else if addr = VEL_REG_VQ_NUM_MAX then s
      else if addr = VEL_REG_VQ_ENABLE then velocitor_vq_enable s q val
      else if q_enable (vq s q) \<noteq> 0 then s
      else if addr = VEL_REG_VQ_NUM then set_vq q (q_num_update (\<lambda>_. val)) s
      else if addr = VEL_REG_VQ_DESC_LO then set_vq q (q_desc_lo_update (\<lambda>_. val)) s
      else if addr = VEL_REG_VQ_DESC_HI then set_vq q (q_desc_hi_update (\<lambda>_. val)) s
      else if addr = VEL_REG_VQ_AVAIL_LO then set_vq q (q_avail_lo_update (\<lambda>_. val)) s
      else if addr = VEL_REG_VQ_AVAIL_HI then set_vq q (q_avail_hi_update (\<lambda>_. val)) s
      else if addr = VEL_REG_VQ_USED_LO then set_vq q (q_used_lo_update (\<lambda>_. val)) s
      else if addr = VEL_REG_VQ_USED_HI then set_vq q (q_used_hi_update (\<lambda>_. val)) s
      else if addr = VEL_REG_VQ_MSIX_VECTOR then set_vq q (q_msix_vector_update (\<lambda>_. val)) s
      else s)"

section \<open>What the ring accesses leave alone\<close>

lemma vq_trap_rest [simp]: "rest_of (vq_trap s q a) = rest_of s"
  by (simp add: vq_trap_def rest_simps)

lemma bad_desc_rest [simp]: "rest_of (bad_desc s q a) = rest_of s"
  by (simp add: bad_desc_def rest_simps)

lemma host_rest [simp]: "rest_of (s\<lparr>host := h\<rparr>) = rest_of s"
  by (simp add: rest_of_def frames)

lemma host_read_rest: "velocitor_vq_host_read B s q a buf = (t, r) \<Longrightarrow> rest_of t = rest_of s"
  by (auto simp: velocitor_vq_host_read_def Let_def rest_simps split: if_splits prod.splits)

lemma host_write_rest: "velocitor_vq_host_write B s q a buf = (t, r) \<Longrightarrow> rest_of t = rest_of s"
  by (auto simp: velocitor_vq_host_write_def Let_def rest_simps split: if_splits prod.splits)

lemma host_read16_rest: "host_read16 B s q a = (t, r) \<Longrightarrow> rest_of t = rest_of s"
  by (auto simp: host_read16_def dest: host_read_rest split: prod.splits)

lemma refresh_rest: "rest_of (velocitor_vq_refresh_negotiation B s q) = rest_of s"
  by (auto simp: velocitor_vq_refresh_negotiation_def Let_def set_vq_rest
      dest!: rsc_read32_rest split: prod.splits option.splits)

lemma avail_advance_cfg [simp]: "queue_cfg (avail_advance v) = queue_cfg v"
  by (simp add: avail_advance_def)

lemma vq_desc_rest: "velocitor_vq_desc B s q i = (t, r) \<Longrightarrow> rest_of t = rest_of s"
  by (auto simp: velocitor_vq_desc_def dest: host_read_rest split: if_splits prod.splits)

lemma pop_head_rest: "velocitor_vq_pop_head B s q = (t, r) \<Longrightarrow> rest_of t = rest_of s"
  by (auto simp: velocitor_vq_pop_head_def rest_simps set_vq_rest dest!: host_read16_rest
      split: if_splits prod.splits option.splits)

lemma pop_rest: "velocitor_vq_pop B s q = (t, r) \<Longrightarrow> rest_of t = rest_of s"
  by (auto simp: velocitor_vq_pop_def rest_simps set_vq_rest dest!: host_read16_rest host_read_rest
      split: if_splits prod.splits option.splits)

lemma push_rest: "rest_of (velocitor_vq_push B s q h n) = rest_of s"
  by (auto simp: velocitor_vq_push_def rest_simps dest!: host_read16_rest host_write_rest
      split: if_splits prod.splits option.splits bool.splits)

section \<open>The queue invariant\<close>

definition queue_ok :: "velocitor_queue \<Rightarrow> bool" where
  "queue_ok v \<longleftrightarrow> q_enable v \<le> 1 \<and>
     (q_enable v \<noteq> 0 \<longrightarrow> 0 < q_num v \<and> q_num v \<le> VEL_VRING_NUM
        \<and> vq_desc_addr v \<noteq> 0 \<and> vq_avail_addr v \<noteq> 0 \<and> vq_used_addr v \<noteq> 0
        \<and> q_msix_vector v < VEL_MSIX_VECTORS)"

definition queues_ok :: "'h velocitor_state \<Rightarrow> bool" where
  "queues_ok s \<longleftrightarrow> vq_select s < VEL_VQ_COUNT \<and> (\<forall>q. queue_ok (vq s q))"

lemma queue_ok_cong: "queue_cfg v = queue_cfg w \<Longrightarrow> queue_ok v = queue_ok w"
  by (simp add: queue_ok_def queue_cfg_def vq_desc_addr_def vq_avail_addr_def vq_used_addr_def)

lemma queues_ok_cong: "queues_of s = queues_of t \<Longrightarrow> queues_ok s = queues_ok t"
  by (auto simp: queues_ok_def queues_of_def fun_eq_iff dest: queue_ok_cong)

lemma queues_ok_set:
  "queues_ok s \<Longrightarrow> queue_ok (f (vq s q)) \<Longrightarrow> queues_ok (set_vq q f s)"
  by (simp add: queues_ok_def set_vq_def)

lemma queue_ok_disabled: "q_enable v = 0 \<Longrightarrow> queue_ok v"
  by (simp add: queue_ok_def)

lemma queues_ok_arm: "queues_ok (velocitor_vq_arm s q) = queues_ok s"
  by (simp add: queues_ok_def velocitor_vq_arm_def)

lemma vq_arm_frame [frames]:
  "queues_of (velocitor_vq_arm s q) = queues_of s" "heap_of (velocitor_vq_arm s q) = heap_of s"
  "firmware_of (velocitor_vq_arm s q) = firmware_of s" "window_of (velocitor_vq_arm s q) = window_of s"
  "irq_of (velocitor_vq_arm s q) = irq_of s" "error_of (velocitor_vq_arm s q) = error_of s"
  "dma_of (velocitor_vq_arm s q) = dma_of s" "store_of (velocitor_vq_arm s q) = store_of s"
  by (simp_all add: velocitor_vq_arm_def frames)

lemma vq_enable_frame [frames]:
  "heap_of (velocitor_vq_enable s q v) = heap_of s"
  "firmware_of (velocitor_vq_enable s q v) = firmware_of s"
  "window_of (velocitor_vq_enable s q v) = window_of s"
  "irq_of (velocitor_vq_enable s q v) = irq_of s"
  "error_of (velocitor_vq_enable s q v) = error_of s"
  "dma_of (velocitor_vq_enable s q v) = dma_of s"
  "store_of (velocitor_vq_enable s q v) = store_of s"
  by (simp_all add: velocitor_vq_enable_def Let_def frames)

lemma vq_write_frame [frames]:
  "heap_of (velocitor_vq_write s a v) = heap_of s"
  "firmware_of (velocitor_vq_write s a v) = firmware_of s"
  "window_of (velocitor_vq_write s a v) = window_of s"
  "irq_of (velocitor_vq_write s a v) = irq_of s"
  "error_of (velocitor_vq_write s a v) = error_of s"
  "dma_of (velocitor_vq_write s a v) = dma_of s"
  "store_of (velocitor_vq_write s a v) = store_of s"
  by (simp_all add: velocitor_vq_write_def Let_def frames)

lemma vq_purge_frame [frames]:
  "heap_of (velocitor_vq_purge s) = heap_of s" "firmware_of (velocitor_vq_purge s) = firmware_of s"
  "window_of (velocitor_vq_purge s) = window_of s" "irq_of (velocitor_vq_purge s) = irq_of s"
  "error_of (velocitor_vq_purge s) = error_of s" "dma_of (velocitor_vq_purge s) = dma_of s"
  "store_of (velocitor_vq_purge s) = store_of s"
  by (simp_all add: velocitor_vq_purge_def frames)

lemma doorbell_frame [frames]:
  "queues_of (velocitor_doorbell s n) = queues_of s" "heap_of (velocitor_doorbell s n) = heap_of s"
  "firmware_of (velocitor_doorbell s n) = firmware_of s"
  "window_of (velocitor_doorbell s n) = window_of s"
  "irq_of (velocitor_doorbell s n) = irq_of s" "error_of (velocitor_doorbell s n) = error_of s"
  "dma_of (velocitor_doorbell s n) = dma_of s" "store_of (velocitor_doorbell s n) = store_of s"
  by (simp_all add: velocitor_doorbell_def Let_def frames split: option.split)

lemma vq_enable_ok [keeps]:
  assumes "queues_ok s"
  shows "queues_ok (velocitor_vq_enable s q val)"
proof -
  have en: "queues_ok (set_vq q (\<lambda>v. v\<lparr>q_enable := 1\<rparr>) s)"
    if "q_num (vq s q) \<noteq> 0" "q_num (vq s q) \<le> 256" "q_msix_vector (vq s q) < 6"
      "q_desc_lo (vq s q) OR q_desc_hi (vq s q) \<noteq> 0" "q_avail_lo (vq s q) OR q_avail_hi (vq s q) \<noteq> 0"
      "q_used_lo (vq s q) OR q_used_hi (vq s q) \<noteq> 0"
    using that assms
    by (intro queues_ok_set) (simp_all add: queue_ok_def vq_desc_addr_def vq_avail_addr_def
        vq_used_addr_def addr64_zero_iff word_neq_0_conv flip: word_gt_0)
  have dis: "queues_ok (set_vq q (\<lambda>v. v\<lparr>q_enable := 0, q_last_avail := 0\<rparr>) s)"
    using assms by (intro queues_ok_set) (simp_all add: queue_ok_disabled)
  have tr: "queues_ok (velocitor_trace t l e n m) = queues_ok t" for t l e n m
    by (rule queues_ok_cong) (simp add: frames)
  show ?thesis
    using assms en dis by (simp add: velocitor_vq_enable_def Let_def queues_ok_arm tr not_le not_less)
qed

lemma vq_write_ok [keeps]: "queues_ok s \<Longrightarrow> queues_ok (velocitor_vq_write s addr val)"
proof -
  assume ok: "queues_ok s"
  have set: "queues_ok (set_vq q f s)" if "q_enable (f (vq s q)) = 0" for q f
    using ok that by (intro queues_ok_set) (simp_all add: queue_ok_disabled)
  have sel: "queues_ok (s\<lparr>vq_select := val\<rparr>)" if "val < VEL_VQ_COUNT"
    using ok that by (simp add: queues_ok_def)
  show "queues_ok (velocitor_vq_write s addr val)"
    using ok set sel vq_enable_ok [OF ok]
    by (simp add: velocitor_vq_write_def Let_def not_le)
qed

lemma vq_purge_ok [keeps]: "queues_ok s \<Longrightarrow> queues_ok (velocitor_vq_purge s)"
  by (simp add: queues_ok_def velocitor_vq_purge_def queue_ok_disabled)


section \<open>Taking heads: the available ring as a queue\<close>

text \<open>
  What the host published and the device has not taken yet, oldest first. A pop is the
  head and the tail of this list while the ring is readable.
\<close>

definition readable :: "'h pci_bus \<Rightarrow> 'h velocitor_state \<Rightarrow> u64 \<Rightarrow> nat \<Rightarrow> bool" where
  "readable B s a n \<longleftrightarrow> unat a + n \<le> 2 ^ VEL_DMA_BITS \<and> snd (pci_dma_read B (host s) a n)"

definition word_at :: "'h pci_bus \<Rightarrow> 'h velocitor_state \<Rightarrow> u64 \<Rightarrow> u16" where
  "word_at B s a = get_le 0 2 (fst (pci_dma_read B (host s) a 2))"

definition avail_idx :: "'h pci_bus \<Rightarrow> 'h velocitor_state \<Rightarrow> nat \<Rightarrow> u16" where
  "avail_idx B s q = word_at B s (vq_avail_addr (vq s q) + 2)"

definition slot_addr :: "velocitor_queue \<Rightarrow> u16 \<Rightarrow> u64" where
  "slot_addr v n = vq_avail_addr v + 4 + ucast (ucast ((ucast n :: u32) mod q_num v) :: u16) * 2"

definition pending_heads :: "'h pci_bus \<Rightarrow> 'h velocitor_state \<Rightarrow> nat \<Rightarrow> u16 list" where
  "pending_heads B s q =
     (let last = ucast (q_last_avail (vq s q)) :: u16 in
      map (\<lambda>i. word_at B s (slot_addr (vq s q) (last + word_of_nat i)))
        [0..<unat (avail_idx B s q - last)])"

definition ring_readable :: "'h pci_bus \<Rightarrow> 'h velocitor_state \<Rightarrow> nat \<Rightarrow> bool" where
  "ring_readable B s q \<longleftrightarrow> readable B s (vq_avail_addr (vq s q) + 2) 2
     \<and> (\<forall>n. readable B s (slot_addr (vq s q) n) 2)"

lemma no_trap:
  fixes a :: u64
  assumes "unat a + n \<le> 2 ^ 42"
  shows "\<not> a + word_of_nat n > 2 ^ 42"
proof -
  have n: "unat (word_of_nat n :: u64) = n" using assms by (simp add: unat_of_nat)
  have "unat (a + word_of_nat n) = unat a + n"
    using assms by (simp add: unat_word_ariths n)
  then show ?thesis using assms by (simp add: word_less_nat_alt)
qed

lemma host_read16_ok:
  assumes "readable B s a 2"
  shows "\<exists>t. host_read16 B s q a = (t, Some (word_at B s a)) \<and> vq t = vq s \<and> host t = host s
     \<and> rest_of t = rest_of s"
  using assms no_trap [of a 2]
  by (auto simp: host_read16_def velocitor_vq_host_read_def readable_def word_at_def Let_def
      numeral_2_eq_2 rest_simps split: prod.split)

lemma host_write_ok:
  assumes "unat a + length buf \<le> 2 ^ VEL_DMA_BITS" and "pci_dma_write B (host s) a buf = (h, True)"
  shows "\<exists>t. velocitor_vq_host_write B s q a buf = (t, True) \<and> host t = h \<and> vq t = vq s
     \<and> rest_of t = rest_of s"
  using assms no_trap [of a "length buf"]
  by (auto simp: velocitor_vq_host_write_def Let_def rest_simps)

lemma pending_heads_step:
  assumes "avail_idx B s q \<noteq> ucast (q_last_avail (vq s q))"
    and "vq t = (vq s)(q := avail_advance (vq s q))" and "host t = host s"
  shows "pending_heads B s q =
     word_at B s (slot_addr (vq s q) (ucast (q_last_avail (vq s q)))) # pending_heads B t q"
proof -
  define last where "last = (ucast (q_last_avail (vq s q)) :: u16)"
  define n where "n = unat (avail_idx B s q - last)"
  have "n \<noteq> 0" using assms(1) by (simp add: n_def last_def unat_eq_0)
  have same: "vq_avail_addr (vq t q) = vq_avail_addr (vq s q)" "slot_addr (vq t q) = slot_addr (vq s q)"
    "avail_idx B t q = avail_idx B s q" "word_at B t = word_at B s"
    using assms(2,3)
    by (simp_all add: avail_advance_def vq_avail_addr_def slot_addr_def avail_idx_def word_at_def fun_eq_iff)
  have last': "ucast (q_last_avail (vq t q)) = last + 1"
    using assms(2) by (simp add: avail_advance_def last_def narrow_widen narrow_add)
  have "avail_idx B s q - (last + 1) = avail_idx B s q - last - 1" by simp
  also have "unat \<dots> = n - 1"
    using \<open>n \<noteq> 0\<close> unfolding n_def by (intro unat_minus_one) auto
  finally have n': "unat (avail_idx B s q - (last + 1)) = n - 1" .
  have "pending_heads B t q = map (\<lambda>i. word_at B s (slot_addr (vq s q) (last + 1 + word_of_nat i))) [0..<n - 1]"
    by (simp only: pending_heads_def Let_def last' same n')
  also have "\<dots> = map (\<lambda>i. word_at B s (slot_addr (vq s q) (last + word_of_nat i))) [Suc 0..<n]"
    by (rule nth_equalityI) (simp_all add: ac_simps)
  finally show ?thesis
    using \<open>n \<noteq> 0\<close> by (simp add: pending_heads_def Let_def upt_conv_Cons flip: last_def n_def)
qed


lemma pending_heads_nil: "pending_heads B s q = [] \<longleftrightarrow> avail_idx B s q = ucast (q_last_avail (vq s q))"
  by (simp add: pending_heads_def Let_def unat_eq_0)

lemma pop_head_step:
  assumes "ring_readable B s q" and "velocitor_vq_pop_head B s q = (t, r)"
  shows "(case pending_heads B s q of
       [] \<Rightarrow> r = None \<and> vq t = vq s
     | h # hs \<Rightarrow> r = Some h \<and> vq t = (vq s)(q := avail_advance (vq s q)) \<and> pending_heads B t q = hs)
     \<and> host t = host s \<and> rest_of t = rest_of s"
proof -
  obtain u where u: "host_read16 B s q (vq_avail_addr (vq s q) + 2) = (u, Some (avail_idx B s q))"
    "vq u = vq s" "host u = host s"
    using assms(1) host_read16_ok [of B s "vq_avail_addr (vq s q) + 2" q]
    by (auto simp: ring_readable_def avail_idx_def)
  let ?a = "slot_addr (vq s q) (ucast (q_last_avail (vq s q)))"
  have "readable B u ?a 2" using assms(1) u(3) by (simp add: ring_readable_def readable_def)
  from host_read16_ok [OF this] obtain w where
    w: "host_read16 B u q ?a = (w, Some (word_at B s ?a))" "vq w = vq s" "host w = host s"
    using u by (auto simp: word_at_def)
  have a: "vq_avail_addr (vq s q) + VEL_AVAIL_OFF_RING + ucast (avail_slot (vq s q)) * 2 = ?a"
    by (simp add: slot_addr_def avail_slot_def)
  have rest: "rest_of t = rest_of s" using assms(2) by (rule pop_head_rest)
  show ?thesis
  proof (cases "avail_idx B s q = ucast (q_last_avail (vq s q))")
    case True
    then show ?thesis using assms(2) u rest
      by (simp add: velocitor_vq_pop_head_def pending_heads_nil [THEN iffD2])
  next
    case False
    have "t = cnt_add VEL_REG_CNT_DESC 1 (set_vq q avail_advance w)" "r = Some (word_at B s ?a)"
      using assms(2) u False w a by (auto simp: velocitor_vq_pop_head_def)
    moreover have "vq t = (vq s)(q := avail_advance (vq s q))" "host t = host s"
      using calculation w by simp_all
    ultimately show ?thesis
      using pending_heads_step [OF False, of t] rest by simp
  qed
qed

text \<open>The outcome of a pop and of a push when every access succeeds.\<close>

lemma push_ok:
  assumes "readable B s (vq_used_addr (vq s q) + 2) 2" and "idx = word_at B s (vq_used_addr (vq s q) + 2)"
    and "a = vq_used_addr (vq s q) + 4 + ucast (ucast idx mod q_num (vq s q)) * 8"
    and "unat a + 8 \<le> 2 ^ VEL_DMA_BITS"
    and "pci_dma_write B (host s) a (put_le 4 (ucast head :: u32) @ put_le 4 len) = (g, True)"
    and "pci_dma_write B g (vq_used_addr (vq s q) + 2) (put_le 2 (idx + 1)) = (h, True)"
  shows "\<exists>t. velocitor_vq_push B s q head len = velocitor_raise t (q_msix_vector (vq s q))
     \<and> host t = h \<and> vq t = vq s"
proof -
  from host_read16_ok [OF assms(1), of q] obtain u where
    u: "host_read16 B s q (vq_used_addr (vq s q) + 2) = (u, Some idx)" "vq u = vq s" "host u = host s"
    using assms(2) by auto
  from host_write_ok [of a "put_le 4 (ucast head :: u32) @ put_le 4 len" B u g q] assms(4,5) u(3)
  obtain v where
    v: "velocitor_vq_host_write B u q a (put_le 4 (ucast head :: u32) @ put_le 4 len) = (v, True)"
      "host v = g" "vq v = vq u" by auto
  from host_write_ok [of "vq_used_addr (vq s q) + 2" "put_le 2 (idx + 1)" B v h q] assms(1,6) v(2)
  obtain w where
    w: "velocitor_vq_host_write B v q (vq_used_addr (vq s q) + 2) (put_le 2 (idx + 1)) = (w, True)"
      "host w = h" "vq w = vq v" by (auto simp: readable_def)
  have "velocitor_vq_push B s q head len = velocitor_raise w (q_msix_vector (vq s q))"
    using u v w assms(3) by (simp add: velocitor_vq_push_def)
  then show ?thesis using u(2) v(3) w(2,3) by auto
qed


section \<open>Properties\<close>

text \<open>C20. Taking a head off a readable available ring refines the queue of published heads: with
  nothing pending it answers none and changes no queue, otherwise it returns the oldest published
  head, leaves exactly the others pending, advances the index by one modulo 2^16 and touches no
  other queue and no host memory.\<close>

lemma pop_head_refines_queue:
  assumes "ring_readable B s q" and "velocitor_vq_pop_head B s q = (t, r)"
  shows "(case pending_heads B s q of
       [] \<Rightarrow> r = None \<and> vq t = vq s
     | h # hs \<Rightarrow> r = Some h \<and> pending_heads B t q = hs
         \<and> vq t = (vq s)(q := (vq s q)\<lparr>q_last_avail := ucast (ucast (q_last_avail (vq s q)) + 1 :: u16)\<rparr>))
     \<and> host t = host s"
  using pop_head_step [OF assms]
  by (auto simp: avail_advance_def narrow_add split: list.splits)

text \<open>A queue of four entries over plain memory: entry 0 holds head 3, one head is published.\<close>

definition ring_ram :: store where
  "ring_ram = mem_store (mem_store (\<lambda>_. 0) 0x2002 (put_le 2 (1 :: u16))) 0x2004 (put_le 2 (3 :: u16))"

definition ring_state :: "store velocitor_state" where
  "ring_state = set_vq 2 (\<lambda>v. v\<lparr>q_num := 4, q_enable := 1, q_desc_lo := 0x1000, q_avail_lo := 0x2000,
     q_used_lo := 0x3000, q_notifyid := 7, q_msix_vector := 3\<rparr>) (velocitor_new ring_ram)"


lemma pop_head_refines_queue_witness:
  "\<exists>t. velocitor_vq_pop_head ram_bus ring_state 2 = (t, Some 3) \<and> pending_heads ram_bus t 2 = []"
proof -
  have a: "vq_avail_addr (vq ring_state 2) = 0x2000" "q_num (vq ring_state 2) = 4"
    "q_last_avail (vq ring_state 2) = 0" "host ring_state = ring_ram"
    by (simp_all add: ring_state_def vq_avail_addr_def addr64_def no_queue_def velocitor_new_def)
  have sl: "unat (ucast (ucast ((ucast n :: u32) mod 4) :: u16) :: u64) < 4" for n :: u16
    by (rule le_less_trans [OF unat_ucast_le], rule le_less_trans [OF unat_ucast_le]) (simp add: unat_mod)
  have "unat (slot_addr (vq ring_state 2) n) \<le> 4398046511102" for n
    using sl [of n] by (simp add: slot_addr_def a unat_word_ariths)
  then have rd: "ring_readable ram_bus ring_state 2"
    by (simp add: ring_readable_def readable_def a)
  have one: "word_at ram_bus ring_state 0x2002 = 1" "word_at ram_bus ring_state 0x2004 = 3"
    by (simp_all add: word_at_def a ring_ram_def mem_load_store_other)
  have "pending_heads ram_bus ring_state 2 = [3]"
    by (simp add: pending_heads_def Let_def avail_idx_def a one slot_addr_def)
  moreover obtain t r where "velocitor_vq_pop_head ram_bus ring_state 2 = (t, r)" by fastforce
  ultimately show ?thesis
    using pop_head_refines_queue [OF rd, of t r] by simp
qed


text \<open>VQ_ENABLE is the commit point of a complete description: writing it with bit 0 set leaves the
  queue enabled exactly when it already was, or when VQ_NUM is between 1 and 256, none of the three
  ring addresses is zero and the MSI-X vector exists; writing it with bit 0 clear disables the queue
  and restarts its index.\<close>

lemma vq_enable_commits:
  "(q_enable (vq (velocitor_vq_enable s q val) q) \<noteq> 0 \<longleftrightarrow>
     val AND 1 \<noteq> 0 \<and> (q_enable (vq s q) \<noteq> 0 \<or>
       q_num (vq s q) \<noteq> 0 \<and> q_num (vq s q) \<le> VEL_VRING_NUM
       \<and> vq_desc_addr (vq s q) \<noteq> 0 \<and> vq_avail_addr (vq s q) \<noteq> 0 \<and> vq_used_addr (vq s q) \<noteq> 0
       \<and> q_msix_vector (vq s q) < VEL_MSIX_VECTORS))
   \<and> q_last_avail (vq (velocitor_vq_enable s q val) q)
       = (if val AND 1 = 0 then 0 else q_last_avail (vq s q))"
  by (simp_all add: velocitor_vq_enable_def Let_def velocitor_vq_arm_def vq_desc_addr_def
      vq_avail_addr_def vq_used_addr_def addr64_zero_iff not_le not_less)

lemma vq_enable_commits_witness:
  "q_enable (vq (velocitor_vq_enable ring_state 2 1) 2) \<noteq> 0
     \<and> q_enable (vq (velocitor_vq_enable ring_state 1 1) 1) = 0"
  using vq_enable_commits [of ring_state 2 1] vq_enable_commits [of ring_state 1 1]
  by (simp add: ring_state_def no_queue_def velocitor_new_def)

text \<open>The description of an enabled queue is frozen: no write to the queue window changes the
  size, the addresses, the vector or the enable of any enabled queue, except writing VQ_ENABLE with
  bit 0 clear while that queue is selected.\<close>

lemma enabled_queue_frozen:
  assumes "q_enable (vq s q) \<noteq> 0"
    and "\<not> (addr = VEL_REG_VQ_ENABLE \<and> unat (vq_select s) = q \<and> val AND 1 = 0)"
  shows "queue_cfg (vq (velocitor_vq_write s addr val) q) = queue_cfg (vq s q)"
  using assms
  by (auto simp: velocitor_vq_write_def velocitor_vq_enable_def Let_def velocitor_vq_arm_def)

lemma enabled_queue_frozen_witness:
  "queue_cfg (vq (velocitor_vq_write (ring_state\<lparr>vq_select := 2\<rparr>) VEL_REG_VQ_NUM 64) 2)
     = (4, 1, 0x1000, 0x2000, 0x3000, 3)"
proof -
  have "q_enable (vq (ring_state\<lparr>vq_select := 2\<rparr>) 2) \<noteq> 0" by (simp add: ring_state_def set_vq_def)
  from enabled_queue_frozen [OF this, of VEL_REG_VQ_NUM 64] show ?thesis
    by (simp add: ring_state_def set_vq_def queue_cfg_def addr64_def no_queue_def velocitor_new_def)
qed

text \<open>A doorbell is routed by notifyid: it counts in every case, and beyond that it schedules the
  service of the first queue that carries the notifyid, provided that queue is enabled; a doorbell
  that names no queue, or one that is not enabled, changes nothing else.\<close>

lemma doorbell_routes:
  "velocitor_doorbell s n =
     (let s' = cnt_add VEL_REG_CNT_DB_RX 1 s in
      if \<exists>q < VEL_VQ_COUNT. q_notifyid (vq s q) = n \<and> (\<forall>p < q. q_notifyid (vq s p) \<noteq> n)
           \<and> q_enable (vq s q) \<noteq> 0
      then s'\<lparr>vq_pending := vq_pending s OR
                 push_bit (LEAST q. q_notifyid (vq s q) = n) 1,
              vq_timer := Some (clock s + VEL_VQ_LATENCY_NS)\<rparr>
      else s')"
proof (cases "find (\<lambda>q. q_notifyid (vq s q) = n) [0..<4]")
  case None
  then have "\<forall>q < 4. q_notifyid (vq s q) \<noteq> n" by (simp add: find_None_iff)
  then show ?thesis using None by (auto simp: velocitor_doorbell_def Let_def)
next
  case (Some q)
  then have q: "q < 4" "q_notifyid (vq s q) = n" "\<forall>p < q. q_notifyid (vq s p) \<noteq> n"
    by (auto simp: find_Some_iff)
  have first: "p = q" if "q_notifyid (vq s p) = n" "\<forall>r < p. q_notifyid (vq s r) \<noteq> n" for p
    using that q by (metis linorder_neqE_nat)
  have least: "(LEAST q. q_notifyid (vq s q) = n) = q"
    using q by (intro Least_equality) (auto simp: not_less)
  have "(\<exists>p < 4. q_notifyid (vq s p) = n \<and> (\<forall>r < p. q_notifyid (vq s r) \<noteq> n)
      \<and> q_enable (vq s p) \<noteq> 0) \<longleftrightarrow> q_enable (vq s q) \<noteq> 0"
    using q first by blast
  then show ?thesis using Some least
    by (simp add: velocitor_doorbell_def Let_def velocitor_vq_arm_def cnt_add_def)
qed

lemma doorbell_routes_witness:
  "vq_pending (velocitor_doorbell ring_state 7) = 4"
proof -
  have "(LEAST q. q_notifyid (vq ring_state q) = 7) = 2"
    by (rule Least_equality)
      (auto simp: ring_state_def no_queue_def velocitor_new_def split: if_splits)
  moreover have "\<exists>q < VEL_VQ_COUNT. q_notifyid (vq ring_state q) = 7
      \<and> (\<forall>p < q. q_notifyid (vq ring_state p) \<noteq> 7) \<and> q_enable (vq ring_state q) \<noteq> 0"
    by (intro exI [of _ 2]) (auto simp: ring_state_def no_queue_def velocitor_new_def split: if_splits)
  ultimately show ?thesis
    using doorbell_routes [of ring_state 7] by (simp add: ring_state_def velocitor_new_def)
qed

text \<open>The 42-bit trap: a ring or buffer access that would end beyond the 42-bit bus never reaches the
  bus; it latches DMA_WIDTH with the address and the queue's notifyid, raises the error vector and
  reports failure, in both directions.\<close>

lemma host_access_trap:
  assumes "2 ^ VEL_DMA_BITS < unat iova + length buf" and "unat iova + length buf < 2 ^ 64"
  shows "velocitor_vq_host_read B s q iova buf = (vq_trap s q iova, buf, False)
    \<and> velocitor_vq_host_write B s q iova buf = (vq_trap s q iova, False)"
proof -
  have "unat (word_of_nat (length buf) :: u64) = length buf"
    using assms(2) by (simp add: unat_of_nat)
  then have "unat (iova + word_of_nat (length buf)) = unat iova + length buf"
    using assms(2) by (simp add: unat_word_ariths)
  then have "iova + word_of_nat (length buf) > 2 ^ 42"
    using assms(1) by (simp add: word_less_nat_alt)
  then show ?thesis
    by (simp_all add: velocitor_vq_host_read_def velocitor_vq_host_write_def)
qed

lemma host_access_trap_witness:
  "velocitor_vq_host_write ram_bus ring_state 2 0x3ffffffffff [1, 2]
     = (vq_trap ring_state 2 0x3ffffffffff, False)"
  using host_access_trap [of "0x3ffffffffff" "[1, 2]" ram_bus ring_state 2] by simp

lemma wrapped_end:
  fixes iova :: u64
  assumes "2 ^ 64 \<le> unat iova + n" and "n \<le> 2 ^ 42"
  shows "2 ^ VEL_DMA_BITS < unat iova" and "\<not> iova + word_of_nat n > 2 ^ VEL_DMA_BITS"
proof -
  have "unat (word_of_nat n :: u64) = n" using assms(2) by (simp add: unat_of_nat)
  moreover have u: "unat iova < 2 ^ 64" using unat_bound [of iova] by simp
  ultimately have "unat (iova + word_of_nat n) = unat iova + n - 2 ^ 64"
    using assms by (simp add: unat_word_ariths le_mod_geq)
  then show "\<not> iova + word_of_nat n > 2 ^ VEL_DMA_BITS"
    using assms(2) u by (simp add: word_less_nat_alt)
  show "2 ^ VEL_DMA_BITS < unat iova" using assms by simp
qed

text \<open>C40. The trap can be bypassed, in both directions: the end address is computed in 64 bits, so a read
  or a write that starts just below 2^64 wraps to a small number, passes the check and is issued on
  the bus, at an address far beyond 42 bits; it succeeds when the bus completes it.\<close>

lemma host_access_trap_wraps:
  assumes "2 ^ 64 \<le> unat iova + length buf" and "length buf \<le> 2 ^ 42"
    and "pci_dma_write B (host s) iova buf = (h, True)"
    and "pci_dma_read B (host s) iova (length buf) = (bs, True)"
  shows "2 ^ VEL_DMA_BITS < unat iova
    \<and> (\<exists>t. velocitor_vq_host_write B s q iova buf = (t, True) \<and> host t = h)
    \<and> (\<exists>t. velocitor_vq_host_read B s q iova buf = (t, bs, True))"
  using wrapped_end [OF assms(1,2)] assms(3,4)
  by (simp add: velocitor_vq_host_write_def velocitor_vq_host_read_def Let_def)

lemma host_access_trap_wraps_witness:
  "\<exists>t. velocitor_vq_host_write ram_bus ring_state 2 0xffffffffffffffff [1, 2] = (t, True)
     \<and> host t = mem_store (host ring_state) (2 ^ 64 - 1) [1, 2]"
  using host_access_trap_wraps [where iova = "0xffffffffffffffff" and buf = "[1, 2]" and B = ram_bus
      and s = ring_state and q = 2 and h = "mem_store (host ring_state) (2 ^ 64 - 1) [1, 2]"
      and bs = "mem_load (host ring_state) (2 ^ 64 - 1) (Suc (Suc 0))"]
  by simp

text \<open>Handing a head back publishes the used element before the used index: when the three accesses
  succeed, the host memory is the old one with first the element (head, length) at slot idx mod
  VQ_NUM and then the index idx + 1, and the queue's own MSI-X vector is raised after both.\<close>

lemma push_publishes_in_order:
  assumes "readable B s (vq_used_addr (vq s q) + 2) 2" and "idx = word_at B s (vq_used_addr (vq s q) + 2)"
    and "a = vq_used_addr (vq s q) + 4 + ucast (ucast idx mod q_num (vq s q)) * 8"
    and "unat a + 8 \<le> 2 ^ VEL_DMA_BITS"
    and "pci_dma_write B (host s) a (put_le 4 (ucast head :: u32) @ put_le 4 len) = (g, True)"
    and "pci_dma_write B g (vq_used_addr (vq s q) + 2) (put_le 2 (idx + 1)) = (h, True)"
  shows "\<exists>t. velocitor_vq_push B s q head len = velocitor_raise t (q_msix_vector (vq s q))
     \<and> host t = h \<and> vq t = vq s"
  using assms by (rule push_ok)

lemma push_publishes_in_order_witness:
  "\<exists>t. velocitor_vq_push ram_bus ring_state 2 3 24 = velocitor_raise t 3
     \<and> word_at ram_bus t 0x3002 = 1 \<and> word_at ram_bus t 0x3004 = 3 \<and> word_at ram_bus t 0x3008 = 24"
proof -
  let ?e = "put_le 4 (3 :: u32) @ put_le 4 (24 :: u32)"
  let ?h1 = "mem_store ring_ram 0x3004 ?e"
  have v: "vq_used_addr (vq ring_state 2) = 0x3000" "q_num (vq ring_state 2) = 4"
    "host ring_state = ring_ram" "q_msix_vector (vq ring_state 2) = 3"
    by (simp_all add: ring_state_def vq_used_addr_def addr64_def no_queue_def velocitor_new_def)
  have idx: "word_at ram_bus ring_state 0x3002 = 0"
    by (simp add: word_at_def v ring_ram_def mem_load_def get_le_def
        mem_store_def upt_rec)
  from push_publishes_in_order [where B = ram_bus and s = ring_state and q = 2 and idx = 0
      and a = "0x3004" and head = 3 and len = 24 and g = ?h1
      and h = "mem_store ?h1 0x3002 (put_le 2 (1 :: u16))"]
  obtain t where t: "velocitor_vq_push ram_bus ring_state 2 3 24 = velocitor_raise t 3"
    "host t = mem_store ?h1 0x3002 (put_le 2 (1 :: u16))"
    by (auto simp: v idx readable_def)
  have "mem_load ?h1 0x3004 2 = take 2 ?e" "mem_load ?h1 0x3008 2 = take 2 (drop 4 ?e)"
    using mem_load_sub [of 0 2 8 ?h1 "0x3004"] mem_load_sub [of 4 2 8 ?h1 "0x3004"] by simp_all
  moreover have "put_le 4 (3 :: u32) = [3, 0, 0, 0]" "put_le 4 (24 :: u32) = [24, 0, 0, 0]"
    "put_le 2 (1 :: u16) = [1, 0]"
    by (simp_all add: put_le_def)
  ultimately show ?thesis
    using t by (intro exI [of _ t]) (simp add: word_at_def mem_load_store_other get_le_def)
qed

end
