(* ===== verification/Vel_Alloc.thy ===== *)
theory Vel_Alloc
  imports Vel_Core
begin

text \<open>
  The device allocator of \<open>velocitor.c\<close>: a bump pointer per memory node, handles
  numbered from 1 within a firmware session, FREE invalidating the handle and giving
  nothing back. \<open>heap_ok\<close> is its invariant; \<open>handle_allocator\<close> is the contract
  the data plane rests on, interpreted at the end on the code's own operations.
\<close>

section \<open>Geometry of the nodes\<close>

definition velocitor_node_base :: "nat \<Rightarrow> u64" where
  "velocitor_node_base node = (if node = 0 then VEL_NODE0_BASE else VEL_NODE1_BASE)"

definition velocitor_node_end :: "nat \<Rightarrow> u64" where
  "velocitor_node_end node = (if node = 0 then VEL_NODE0_END else VEL_NODE1_END)"

definition velocitor_node_free :: "'h velocitor_state \<Rightarrow> nat \<Rightarrow> u64" where
  "velocitor_node_free s node = velocitor_node_end node - node_bump s node"

definition velocitor_alloc_reset :: "'h velocitor_state \<Rightarrow> 'h velocitor_state" where
  "velocitor_alloc_reset s =
     s\<lparr>node_bump := (node_bump s)(0 := velocitor_node_base 0, 1 := velocitor_node_base 1),
       next_handle := 1, live_handles := 0, alloc := (\<lambda>_. no_block)\<rparr>"

section \<open>The operations\<close>

record alloc_req =
  areq_size :: u64
  areq_dtype :: u32
  areq_node :: u32

record alloc_resp =
  aresp_handle :: u32
  aresp_node :: u32
  aresp_generation :: u32
  aresp_reserved :: u32
  aresp_dev_offset :: u64

record stat_node =
  sn_capacity :: u64
  sn_free :: u64

record stat_resp =
  sresp_node :: "stat_node list"
  sresp_live_handles :: u32
  sresp_reserved :: u32

text \<open>QEMU's \<open>ROUND_UP\<close> to a power of two.\<close>

definition ROUND_UP :: "u64 \<Rightarrow> u64 \<Rightarrow> u64" where
  "ROUND_UP n d = (n + d - 1) AND (- d)"

definition velocitor_alloc_pick_node ::
  "'h velocitor_state \<Rightarrow> u32 \<Rightarrow> u64 \<Rightarrow> bool \<times> nat" where
  "velocitor_alloc_pick_node s want sz =
     (if want \<noteq> VEL_NODE_ANY then (velocitor_node_free s (unat want) \<ge> sz, unat want)
      else case find (\<lambda>n. velocitor_node_free s n \<ge> sz) [0..<VEL_NODES] of
             Some n \<Rightarrow> (True, n)
           | None \<Rightarrow> (False, 0))"

text \<open>The errno on the left, the filled response on the right.\<close>

definition velocitor_alloc_block ::
  "'h velocitor_state \<Rightarrow> alloc_req \<Rightarrow> 'h velocitor_state \<times> (int + alloc_resp)" where
  "velocitor_alloc_block s req =
     (let sz = areq_size req; want = areq_node req in
      if want \<noteq> VEL_NODE_ANY \<and> want \<ge> VEL_NODES then (s, Inl (- EINVAL))
      else if sz = 0 \<or> sz > VEL_MEM_SIZE then (s, Inl (- EINVAL))
      else
        let sz = ROUND_UP sz VEL_ALLOC_ALIGN in
        if err_inject s AND VEL_ERR_INJECT_ALLOC_FAIL \<noteq> 0
        then (velocitor_error_set
                (s\<lparr>err_inject := err_inject s AND NOT VEL_ERR_INJECT_ALLOC_FAIL\<rparr>)
                VEL_ERR_NOMEM sz, Inl (- ENOMEM))
        else
          let (ok, node) = velocitor_alloc_pick_node s want sz in
          if next_handle s > VEL_MAX_HANDLES \<or> \<not> ok
          then (velocitor_error_set s VEL_ERR_NOMEM sz, Inl (- ENOMEM))
          else
            let handle = next_handle s;
                block = \<lparr>a_offset = node_bump s node, a_size = sz, a_node = word_of_nat node,
                         a_live = 1\<rparr>;
                s = s\<lparr>next_handle := handle + 1, alloc := (alloc s)(unat (handle - 1) := block),
                      node_bump := (node_bump s)(node := node_bump s node + sz),
                      live_handles := live_handles s + 1\<rparr>
            in (s, Inr \<lparr>aresp_handle = handle, aresp_node = word_of_nat node,
                        aresp_generation = generation s, aresp_reserved = 0,
                        aresp_dev_offset = a_offset (alloc s (unat (handle - 1)))\<rparr>))"

definition velocitor_free_block ::
  "'h velocitor_state \<Rightarrow> u32 \<Rightarrow> 'h velocitor_state \<times> int" where
  "velocitor_free_block s handle =
     (if handle = 0 \<or> handle \<ge> next_handle s \<or> a_live (alloc s (unat (handle - 1))) = 0
      then (velocitor_error_qualify s VEL_ERR_BAD_HANDLE 0 VEL_NOTIFYID_NONE handle, - EINVAL)
      else (s\<lparr>alloc := (alloc s)(unat (handle - 1) := (alloc s (unat (handle - 1)))\<lparr>a_live := 0\<rparr>),
              live_handles := live_handles s - 1\<rparr>, 0))"

definition velocitor_stat_fill :: "'h velocitor_state \<Rightarrow> stat_resp" where
  "velocitor_stat_fill s =
     \<lparr>sresp_node = map (\<lambda>n. \<lparr>sn_capacity = velocitor_node_end n - velocitor_node_base n,
                             sn_free = velocitor_node_free s n\<rparr>) [0..<VEL_NODES],
      sresp_live_handles = live_handles s, sresp_reserved = 0\<rparr>"

section \<open>The invariant\<close>

definition block_in :: "(nat \<Rightarrow> u64) \<Rightarrow> velocitor_alloc \<Rightarrow> bool" where
  "block_in bump b \<longleftrightarrow> a_node b < VEL_NODES \<and> 0 < a_size b
     \<and> 256 dvd unat (a_offset b) \<and> 256 dvd unat (a_size b)
     \<and> velocitor_node_base (unat (a_node b)) \<le> a_offset b
     \<and> unat (a_offset b) + unat (a_size b) \<le> unat (bump (unat (a_node b)))"

definition apart :: "velocitor_alloc \<Rightarrow> velocitor_alloc \<Rightarrow> bool" where
  "apart b c \<longleftrightarrow> unat (a_offset b) + unat (a_size b) \<le> unat (a_offset c)
     \<or> unat (a_offset c) + unat (a_size c) \<le> unat (a_offset b)"

definition bump_ok :: "(nat \<Rightarrow> u64) \<Rightarrow> bool" where
  "bump_ok bump \<longleftrightarrow> (\<forall>n < VEL_NODES. velocitor_node_base n \<le> bump n
     \<and> bump n \<le> velocitor_node_end n \<and> 256 dvd unat (bump n))"

text \<open>
  The handles issued so far are 1 to \<open>next_handle - 1\<close>, their blocks are inside their
  node, aligned and pairwise apart, and \<open>live_handles\<close> counts the live ones.
\<close>

definition heap_ok :: "'h velocitor_state \<Rightarrow> bool" where
  "heap_ok s \<longleftrightarrow>
     (let n = unat (next_handle s) - 1 in
      1 \<le> next_handle s \<and> next_handle s \<le> VEL_MAX_HANDLES + 1
      \<and> bump_ok (node_bump s)
      \<and> (\<forall>i < n. block_in (node_bump s) (alloc s i))
      \<and> (\<forall>i < n. \<forall>j < i. apart (alloc s i) (alloc s j))
      \<and> (\<forall>i \<ge> n. a_live (alloc s i) = 0)
      \<and> unat (live_handles s) = card {i. i < n \<and> a_live (alloc s i) \<noteq> 0})"

lemma heap_ok_cong: "heap_of s = heap_of t \<Longrightarrow> heap_ok s = heap_ok t"
  by (simp add: heap_ok_def heap_of_def)

lemma alloc_reset_heap_ok [keeps]: "heap_ok (velocitor_alloc_reset s)"
  by (simp add: heap_ok_def velocitor_alloc_reset_def bump_ok_def velocitor_node_base_def
      velocitor_node_end_def no_block_def less_2_cases_iff)

section \<open>Rounding\<close>

lemma and_not_mask_shift: "w AND NOT (mask n) = push_bit n (drop_bit n (w :: 'a::len word))"
  by (auto intro!: bit_word_eqI simp: bit_simps)

lemma ROUND_UP_256: "ROUND_UP n 256 = (n + 255) div 256 * 256"
proof -
  have "(- 256 :: u64) = NOT (mask 8)" by (simp add: mask_eq_exp_minus_1 not_eq_complement)
  then have "ROUND_UP n 256 = push_bit 8 (drop_bit 8 (n + 255))"
    by (simp only: ROUND_UP_def and_not_mask_shift) (simp add: add.commute)
  then show ?thesis by (simp add: push_bit_eq_mult drop_bit_eq_div)
qed

lemma unat_ROUND_UP:
  assumes "n \<le> VEL_MEM_SIZE"
  shows "unat (ROUND_UP n 256) = (unat n + 255) div 256 * 256"
proof -
  have n: "unat n \<le> 0x10000000" using assms by (simp add: word_le_nat_alt)
  then have "unat (n + 255) = unat n + 255" by (simp add: unat_word_ariths)
  moreover have "(unat n + 255) div 256 * 256 \<le> unat n + 255" by simp
  ultimately show ?thesis using n
    by (simp add: ROUND_UP_256 unat_word_ariths unat_div)
qed
lemma round_bounds: "(n::nat) \<le> (n + 255) div 256 * 256" "(n + 255) div 256 * 256 < n + 256"
proof -
  have "(n + 255) div 256 * 256 + (n + 255) mod 256 = n + 255" "(n + 255) mod 256 < 256"
    by (rule div_mult_mod_eq) simp
  then show "n \<le> (n + 255) div 256 * 256" "(n + 255) div 256 * 256 < n + 256" by linarith+
qed

section \<open>Allocation keeps the invariant\<close>

lemma pick_node_sound:
  assumes "velocitor_alloc_pick_node s want sz = (True, node)"
    and "want = VEL_NODE_ANY \<or> want < VEL_NODES"
  shows "node < VEL_NODES \<and> sz \<le> velocitor_node_free s node \<and> (want \<noteq> VEL_NODE_ANY \<longrightarrow> node = unat want)"
  using assms
  by (auto simp: velocitor_alloc_pick_node_def word_less_nat_alt find_Some_iff split: if_splits option.splits)

lemma pick_node_iff:
  assumes "w = VEL_NODE_ANY \<or> w < VEL_NODES"
  shows "fst (velocitor_alloc_pick_node s w z) \<longleftrightarrow>
    (\<exists>n < VEL_NODES. (w = VEL_NODE_ANY \<or> w = word_of_nat n) \<and> z \<le> velocitor_node_free s n)"
proof (cases "w = VEL_NODE_ANY")
  case True
  then show ?thesis
    by (simp add: velocitor_alloc_pick_node_def upt_rec ex_less_2)
next
  case False
  then have "w = 0 \<or> w = 1" using assms by (auto simp: word_less_nat_alt less_2_cases_iff word_unat_eq_iff)
  then show ?thesis
    by (auto simp: velocitor_alloc_pick_node_def ex_less_2)
qed

text \<open>The state after a successful allocation of \<open>sz\<close> bytes on \<open>node\<close>.\<close>

definition heap_push :: "'h velocitor_state \<Rightarrow> nat \<Rightarrow> u64 \<Rightarrow> 'h velocitor_state" where
  "heap_push s node sz =
     s\<lparr>next_handle := next_handle s + 1,
       alloc := (alloc s)(unat (next_handle s) - 1 :=
         \<lparr>a_offset = node_bump s node, a_size = sz, a_node = word_of_nat node, a_live = 1\<rparr>),
       node_bump := (node_bump s)(node := node_bump s node + sz),
       live_handles := live_handles s + 1\<rparr>"

lemma alloc_block_Inl:
  "velocitor_alloc_block s req = (t, Inl e) \<Longrightarrow> heap_of t = heap_of s"
  by (auto simp: velocitor_alloc_block_def Let_def frames split: if_splits prod.splits)

lemma alloc_block_Inr:
  assumes "velocitor_alloc_block s req = (t, Inr r)" and "next_handle s \<noteq> 0"
  obtains node sz where "sz = ROUND_UP (areq_size req) 256" and "0 < areq_size req"
    and "areq_size req \<le> VEL_MEM_SIZE" and "next_handle s \<le> VEL_MAX_HANDLES"
    and "velocitor_alloc_pick_node s (areq_node req) sz = (True, node)"
    and "areq_node req = VEL_NODE_ANY \<or> areq_node req < VEL_NODES"
    and "t = heap_push s node sz"
    and "r = \<lparr>aresp_handle = next_handle s, aresp_node = word_of_nat node,
              aresp_generation = generation s, aresp_reserved = 0,
              aresp_dev_offset = node_bump s node\<rparr>"
proof -
  have p: "unat (next_handle s - 1) = unat (next_handle s) - 1"
    using assms(2) by (simp add: unat_minus_one)
  from assms(1) show thesis
    by (auto simp: velocitor_alloc_block_def Let_def heap_push_def p not_le not_less word_neq_0_conv
        split: if_splits prod.splits intro!: that)
qed

lemma node_bounds:
  "unat (velocitor_node_base 0) = 0x1000000" "unat (velocitor_node_end 0) = 0x8000000"
  "unat (velocitor_node_base (Suc 0)) = 0x8000000" "unat (velocitor_node_end (Suc 0)) = 0x10000000"
  by (simp_all add: velocitor_node_base_def velocitor_node_end_def)

lemma bump_room:
  assumes "bump_ok (node_bump s)" and "node < 2" and "sz \<le> velocitor_node_free s node"
  shows "unat (node_bump s node + sz) = unat (node_bump s node) + unat sz"
    and "unat (node_bump s node) + unat sz \<le> unat (velocitor_node_end node)"
proof -
  have e: "node_bump s node \<le> velocitor_node_end node"
    using assms(1,2) by (simp add: bump_ok_def)
  then have "unat (velocitor_node_free s node)
      = unat (velocitor_node_end node) - unat (node_bump s node)"
    by (simp add: velocitor_node_free_def unat_sub)
  with assms(3) e show le: "unat (node_bump s node) + unat sz \<le> unat (velocitor_node_end node)"
    by (simp add: word_le_nat_alt)
  have "unat (velocitor_node_end node) \<le> 0x10000000"
    using assms(2) by (auto simp: less_2_cases_iff node_bounds)
  with le show "unat (node_bump s node + sz) = unat (node_bump s node) + unat sz"
    by (simp add: unat_word_ariths)
qed

lemma bump_ok_push:
  assumes "bump_ok (node_bump s)" and "node < 2" and "sz \<le> velocitor_node_free s node"
    and "256 dvd unat sz"
  shows "bump_ok ((node_bump s)(node := node_bump s node + sz))"
  using assms bump_room [OF assms(1-3)]
  by (auto simp: bump_ok_def word_le_nat_alt dvd_add)

lemma block_in_push:
  assumes "bump_ok (node_bump s)" and "node < 2" and "sz \<le> velocitor_node_free s node"
    and "block_in (node_bump s) b"
  shows "block_in ((node_bump s)(node := node_bump s node + sz)) b"
  using assms(4) bump_room [OF assms(1-3)] by (auto simp: block_in_def)

lemma new_block_in:
  assumes "bump_ok (node_bump s)" and "node < 2" and "sz \<le> velocitor_node_free s node"
    and "0 < sz" and "256 dvd unat sz"
  shows "block_in ((node_bump s)(node := node_bump s node + sz))
     \<lparr>a_offset = node_bump s node, a_size = sz, a_node = word_of_nat node, a_live = 1\<rparr>"
proof -
  have "velocitor_node_base node \<le> node_bump s node" "256 dvd unat (node_bump s node)"
    using assms(1,2) by (simp_all add: bump_ok_def)
  moreover have "unat (word_of_nat node :: u32) = node" "(word_of_nat node :: u32) < 2"
    using assms(2) by (auto simp: less_2_cases_iff)
  ultimately show ?thesis
    using assms(4,5) bump_room [OF assms(1-3)] by (simp add: block_in_def)
qed

lemma new_block_apart:
  assumes "bump_ok (node_bump s)" and "node < 2" and "sz \<le> velocitor_node_free s node"
    and "block_in (node_bump s) b"
  shows "apart \<lparr>a_offset = node_bump s node, a_size = sz, a_node = word_of_nat node, a_live = l\<rparr> b"
proof -
  have m: "unat (a_node b) < 2" using assms(4) by (simp add: block_in_def word_less_nat_alt)
  note room = bump_room [OF assms(1-3)]
  have bb: "unat (node_bump s 0) \<le> 0x8000000" "0x8000000 \<le> unat (node_bump s (Suc 0))"
    using assms(1) by (auto simp: bump_ok_def word_le_nat_alt less_2_cases_iff node_bounds)
  from m assms(2,4) room bb show ?thesis
    by (auto simp: less_2_cases_iff apart_def block_in_def word_le_nat_alt node_bounds)
qed

lemma card_live_push:
  assumes "\<forall>i \<ge> n. a_live (al i) = 0" and "a_live b \<noteq> 0"
  shows "card {i. i < Suc n \<and> a_live ((al(n := b)) i) \<noteq> 0} = Suc (card {i. i < n \<and> a_live (al i) \<noteq> 0})"
proof -
  have "{i. i < Suc n \<and> a_live ((al(n := b)) i) \<noteq> 0} = insert n {i. i < n \<and> a_live (al i) \<noteq> 0}"
    using assms by auto
  then show ?thesis by simp
qed

lemma heap_ok_push:
  assumes ok: "heap_ok s" and node: "node < 2" and room: "sz \<le> velocitor_node_free s node"
    and sz: "0 < sz" "256 dvd unat sz" and nh: "next_handle s \<le> 1024"
  shows "heap_ok (heap_push s node sz)"
proof -
  define n where "n = unat (next_handle s) - 1"
  define b where "b = \<lparr>a_offset = node_bump s node, a_size = sz, a_node = word_of_nat node,
                       a_live = (1::u32)\<rparr>"
  have n1: "1 \<le> unat (next_handle s)" and n2: "unat (next_handle s) \<le> 1024"
    using ok nh by (auto simp: heap_ok_def Let_def word_le_nat_alt)
  then have suc: "unat (next_handle s + 1) - 1 = Suc n" "unat (next_handle s + 1) = Suc (Suc n)"
    by (simp_all add: n_def unat_word_ariths)
  have bump: "bump_ok (node_bump s)" and ins: "\<forall>i < n. block_in (node_bump s) (alloc s i)"
    and ap: "\<forall>i < n. \<forall>j < i. apart (alloc s i) (alloc s j)"
    and dead: "\<forall>i \<ge> n. a_live (alloc s i) = 0"
    and live: "unat (live_handles s) = card {i. i < n \<and> a_live (alloc s i) \<noteq> 0}"
    using ok by (simp_all add: heap_ok_def Let_def n_def)
  have "card {i. i < n \<and> a_live (alloc s i) \<noteq> 0} \<le> card {..<n}"
    by (rule card_mono) auto
  then have "unat (live_handles s + 1) = Suc (unat (live_handles s))"
    using live n2 by (simp add: n_def unat_word_ariths)
  then have live': "unat (live_handles s + 1)
      = card {i. i < Suc n \<and> a_live (((alloc s)(n := b)) i) \<noteq> 0}"
    using live card_live_push [OF dead, of b] by (simp add: b_def)
  have ins': "\<forall>i < Suc n. block_in ((node_bump s)(node := node_bump s node + sz)) (((alloc s)(n := b)) i)"
    using ins block_in_push [OF bump node room] new_block_in [OF bump node room sz]
    by (auto simp: b_def less_Suc_eq)
  have ap': "\<forall>i < Suc n. \<forall>j < i. apart (((alloc s)(n := b)) i) (((alloc s)(n := b)) j)"
    using ap ins new_block_apart [OF bump node room] by (auto simp: b_def less_Suc_eq)
  have dead': "\<forall>i \<ge> Suc n. a_live (((alloc s)(n := b)) i) = 0"
    using dead by auto
  have f: "next_handle (heap_push s node sz) = next_handle s + 1"
    "node_bump (heap_push s node sz) = (node_bump s)(node := node_bump s node + sz)"
    "alloc (heap_push s node sz) = (alloc s)(n := b)"
    "live_handles (heap_push s node sz) = live_handles s + 1"
    by (simp_all add: heap_push_def n_def b_def)
  have "1 \<le> next_handle s + 1" "next_handle s + 1 \<le> VEL_MAX_HANDLES + 1"
    using suc(2) n2 n1 by (simp_all add: word_le_nat_alt n_def)
  then show ?thesis
    using bump_ok_push [OF bump node room sz(2)] ins' ap' dead' live'
    unfolding heap_ok_def Let_def f suc(1) by - (intro conjI; assumption)
qed

lemma alloc_block_heap_ok:
  assumes "heap_ok s" and "velocitor_alloc_block s req = (t, res)"
  shows "heap_ok t"
proof (cases res)
  case (Inl e)
  then have "heap_of t = heap_of s" using assms(2) by (simp add: alloc_block_Inl)
  then show ?thesis using assms(1) heap_ok_cong by blast
next
  case (Inr r)
  have "next_handle s \<noteq> 0" using assms(1) by (auto simp: heap_ok_def Let_def)
  from alloc_block_Inr [OF assms(2) [unfolded Inr] this] obtain node sz where
    sz: "sz = ROUND_UP (areq_size req) 256" "0 < areq_size req" "areq_size req \<le> VEL_MEM_SIZE"
    and nh: "next_handle s \<le> VEL_MAX_HANDLES"
    and pick: "velocitor_alloc_pick_node s (areq_node req) sz = (True, node)"
    and want: "areq_node req = VEL_NODE_ANY \<or> areq_node req < VEL_NODES"
    and t: "t = heap_push s node sz" .
  have u: "unat sz = (unat (areq_size req) + 255) div 256 * 256"
    using sz(1,3) by (simp add: unat_ROUND_UP)
  have "0 < unat (areq_size req)" using sz(2) by (simp add: word_less_nat_alt)
  then have "0 < sz" using u by (simp add: word_less_nat_alt)
  moreover have "256 dvd unat sz" using u by simp
  ultimately show ?thesis
    using pick_node_sound [OF pick want] heap_ok_push [OF assms(1)] nh t by simp
qed

section \<open>Freeing keeps the invariant\<close>

definition heap_free :: "'h velocitor_state \<Rightarrow> u32 \<Rightarrow> 'h velocitor_state" where
  "heap_free s h = s\<lparr>alloc := (alloc s)(unat (h - 1) := (alloc s (unat (h - 1)))\<lparr>a_live := 0\<rparr>),
     live_handles := live_handles s - 1\<rparr>"

lemma handle_index:
  fixes h n :: u32
  assumes "h \<noteq> 0" and "h < n"
  shows "unat (h - 1) < unat n - 1" and "unat (h - 1) = unat h - 1"
proof -
  show e: "unat (h - 1) = unat h - 1" using assms(1) by (simp add: unat_minus_one)
  have "0 < unat h" using assms(1) by (simp add: unat_gt_0)
  then show "unat (h - 1) < unat n - 1" using e assms(2) by (simp add: word_less_nat_alt)
qed

lemma card_live_drop:
  assumes "(k::nat) < n" and "a_live (al k) \<noteq> 0" and "a_live b = 0"
  shows "Suc (card {i. i < n \<and> a_live ((al(k := b)) i) \<noteq> 0}) = card {i. i < n \<and> a_live (al i) \<noteq> (0::u32)}"
proof -
  have "{i. i < n \<and> a_live (al i) \<noteq> 0} = insert k {i. i < n \<and> a_live ((al(k := b)) i) \<noteq> 0}"
    using assms by auto
  moreover have "k \<notin> {i. i < n \<and> a_live ((al(k := b)) i) \<noteq> 0}" using assms(3) by simp
  moreover have "finite {i. i < n \<and> a_live ((al(k := b)) i) \<noteq> 0}"
    by (rule finite_subset [of _ "{..<n}"]) auto
  ultimately show ?thesis by (metis (no_types, lifting) card_insert_disjoint)
qed

lemma heap_ok_free:
  assumes ok: "heap_ok s" and h: "h \<noteq> 0" "h < next_handle s"
    and live: "a_live (alloc s (unat (h - 1))) \<noteq> 0"
  shows "heap_ok (heap_free s h)"
proof -
  define n where "n = unat (next_handle s) - 1"
  define k where "k = unat (h - 1)"
  define b where "b = (alloc s k)\<lparr>a_live := 0\<rparr>"
  have k: "k < n" using handle_index [OF h] by (simp add: n_def k_def)
  have f: "next_handle (heap_free s h) = next_handle s" "node_bump (heap_free s h) = node_bump s"
    "alloc (heap_free s h) = (alloc s)(k := b)" "live_handles (heap_free s h) = live_handles s - 1"
    by (simp_all add: heap_free_def k_def b_def)
  have L: "unat (live_handles s) = card {i. i < n \<and> a_live (alloc s i) \<noteq> 0}"
    using ok by (simp add: heap_ok_def Let_def n_def)
  have c: "Suc (card {i. i < n \<and> a_live (((alloc s)(k := b)) i) \<noteq> 0}) = unat (live_handles s)"
    using card_live_drop [OF k, of "alloc s" b] live L by (simp add: k_def b_def)
  then have "live_handles s \<noteq> 0" by auto
  then have live': "unat (live_handles s - 1) = card {i. i < n \<and> a_live (((alloc s)(k := b)) i) \<noteq> 0}"
    using c by (simp add: unat_minus_one)
  have same: "block_in bump b = block_in bump (alloc s k)" "apart b c = apart (alloc s k) c"
    "apart c b = apart c (alloc s k)" for bump c
    by (simp_all add: b_def block_in_def apart_def)
  have "\<forall>i < n. block_in (node_bump s) (alloc s i)"
    and "\<forall>i < n. \<forall>j < i. apart (alloc s i) (alloc s j)" and "\<forall>i \<ge> n. a_live (alloc s i) = 0"
    using ok by (simp_all add: heap_ok_def Let_def n_def)
  then have 1: "\<forall>i < n. block_in (node_bump s) (((alloc s)(k := b)) i)"
    and 2: "\<forall>i < n. \<forall>j < i. apart (((alloc s)(k := b)) i) (((alloc s)(k := b)) j)"
    and 3: "\<forall>i \<ge> n. a_live (((alloc s)(k := b)) i) = 0"
    using k by (simp_all add: same)
  show ?thesis
    using ok 1 2 3 live' unfolding heap_ok_def Let_def f n_def by - (elim conjE, intro conjI; assumption)
qed

lemma free_block_heap_ok:
  assumes "heap_ok s" and "velocitor_free_block s h = (t, e)"
  shows "heap_ok t"
proof (cases "h = 0 \<or> h \<ge> next_handle s \<or> a_live (alloc s (unat (h - 1))) = 0")
  case True
  then have "heap_of t = heap_of s"
    using assms(2) by (auto simp: velocitor_free_block_def frames)
  then show ?thesis using assms(1) heap_ok_cong by blast
next
  case False
  then have "t = heap_free s h" using assms(2)
    by (auto simp: velocitor_free_block_def heap_free_def)
  with False assms(1) show ?thesis by (simp add: heap_ok_free not_le)
qed

section \<open>The contract of a handle allocator\<close>

text \<open>
  What the control and data planes rely on: a handle names at most one live extent, extents
  of live handles never meet, a freed handle is never issued again.
\<close>

datatype ('r, 'k) heap_op = Alloc 'r | Free 'k

fun heap_run ::
  "('s \<Rightarrow> 'r \<Rightarrow> 's \<times> ('e + 'k)) \<Rightarrow> ('s \<Rightarrow> 'k \<Rightarrow> 's \<times> bool) \<Rightarrow> ('r, 'k) heap_op list \<Rightarrow> 's \<Rightarrow> 's"
where
  "heap_run al fr [] s = s"
| "heap_run al fr (Alloc r # ops) s = heap_run al fr ops (fst (al s r))"
| "heap_run al fr (Free k # ops) s = heap_run al fr ops (fst (fr s k))"

text \<open>
  How one state of an allocator may follow another: what was issued stays issued, and an
  issued handle names the extent it named or nothing.
\<close>

definition older :: "('s \<Rightarrow> 'k set) \<Rightarrow> ('s \<Rightarrow> 'k \<Rightarrow> (nat \<times> nat) option) \<Rightarrow> 's \<Rightarrow> 's \<Rightarrow> bool" where
  "older iss ext s t \<longleftrightarrow> iss s \<subseteq> iss t \<and> (\<forall>k \<in> iss s. ext t k = None \<or> ext t k = ext s k)"

lemma older_refl [simp]: "older iss ext s s"
  by (simp add: older_def)

lemma older_trans: "older iss ext s t \<Longrightarrow> older iss ext t u \<Longrightarrow> older iss ext s u"
  unfolding older_def by (metis subset_iff)

locale handle_allocator =
  fixes alloc_op :: "'s \<Rightarrow> 'r \<Rightarrow> 's \<times> ('e + 'k)"
    and free_op :: "'s \<Rightarrow> 'k \<Rightarrow> 's \<times> bool"
    and extent :: "'s \<Rightarrow> 'k \<Rightarrow> (nat \<times> nat) option"
    and issued :: "'s \<Rightarrow> 'k set"
    and good :: "'s \<Rightarrow> bool"
  assumes alloc_good: "good s \<Longrightarrow> alloc_op s r = (t, res) \<Longrightarrow> good t"
    and free_good: "good s \<Longrightarrow> free_op s k = (t, ok) \<Longrightarrow> good t"
    and alloc_fresh: "good s \<Longrightarrow> alloc_op s r = (t, Inr k) \<Longrightarrow>
      k \<notin> issued s \<and> issued t = insert k (issued s) \<and> (\<exists>e. extent t = (extent s)(k \<mapsto> e))"
    and alloc_refused: "good s \<Longrightarrow> alloc_op s r = (t, Inl err) \<Longrightarrow>
      issued t = issued s \<and> extent t = extent s"
    and free_live: "good s \<Longrightarrow> free_op s k = (t, ok) \<Longrightarrow>
      issued t = issued s \<and> ok = (extent s k \<noteq> None) \<and> extent t = (extent s)(k := None)"
    and live_issued: "good s \<Longrightarrow> extent s k = Some e \<Longrightarrow> k \<in> issued s"
    and live_apart: "good s \<Longrightarrow> extent s k = Some (a, b) \<Longrightarrow> extent s k' = Some (c, d) \<Longrightarrow>
      k \<noteq> k' \<Longrightarrow> b \<le> c \<or> d \<le> a"
begin

lemma run_good: "good s \<Longrightarrow> good (heap_run alloc_op free_op ops s)"
proof (induction ops arbitrary: s)
  case (Cons x ops)
  then show ?case
    by (cases x) (auto intro!: Cons.IH intro: alloc_good free_good prod.collapse [symmetric])
qed simp

lemma stale_step:
  assumes "good s" and "k \<in> issued s" and "extent s k = None"
  shows "k \<in> issued (fst (alloc_op s r))" "extent (fst (alloc_op s r)) k = None"
    "k \<in> issued (fst (free_op s j))" "extent (fst (free_op s j)) k = None"
proof -
  obtain t res where a: "alloc_op s r = (t, res)" by fastforce
  show "k \<in> issued (fst (alloc_op s r))" "extent (fst (alloc_op s r)) k = None"
    using a assms alloc_fresh [OF assms(1)] alloc_refused [OF assms(1)] by (cases res; fastforce)+
  obtain u ok where f: "free_op s j = (u, ok)" by fastforce
  show "k \<in> issued (fst (free_op s j))" "extent (fst (free_op s j)) k = None"
    using f free_live [OF assms(1) f] assms by simp_all
qed

lemma stale_forever:
  "good s \<Longrightarrow> k \<in> issued s \<Longrightarrow> extent s k = None \<Longrightarrow>
     extent (heap_run alloc_op free_op ops s) k = None"
proof (induction ops arbitrary: s)
  case (Cons x ops)
  note st = stale_step [OF Cons.prems]
  from Cons.prems(1) have g: "good (fst (alloc_op s r))" "good (fst (free_op s j))" for r j
    by (auto intro: alloc_good free_good prod.collapse [symmetric])
  show ?case using st g by (cases x) (simp_all add: Cons.IH)
qed simp

lemma freed_forever:
  assumes "good s" and "free_op s k = (t, True)"
  shows "extent (heap_run alloc_op free_op ops t) k = None"
proof (rule stale_forever)
  show "good t" using assms by (rule free_good)
  show "k \<in> issued t" "extent t k = None"
    using free_live [OF assms] live_issued [OF assms(1)] by auto
qed

lemma alloc_older: "good s \<Longrightarrow> alloc_op s r = (t, res) \<Longrightarrow> older issued extent s t"
  using alloc_fresh [of s r t] alloc_refused [of s r t] by (cases res) (fastforce simp: older_def)+

lemma free_older: "good s \<Longrightarrow> free_op s k = (t, ok) \<Longrightarrow> older issued extent s t"
  using free_live [of s k t ok] by (auto simp: older_def)

lemma live_stays:
  "good s \<Longrightarrow> extent s k = Some e \<Longrightarrow> Free k \<notin> set ops \<Longrightarrow>
     extent (heap_run alloc_op free_op ops s) k = Some e"
proof (induction ops arbitrary: s)
  case (Cons x ops)
  show ?case
  proof (cases x)
    case (Alloc r)
    obtain t res where a: "alloc_op s r = (t, res)" by fastforce
    have "extent t k = Some e"
      using a Cons.prems(2) live_issued [OF Cons.prems(1,2)] alloc_fresh [OF Cons.prems(1)]
        alloc_refused [OF Cons.prems(1)] by (cases res) fastforce+
    then show ?thesis
      using a Alloc Cons.prems alloc_good [OF Cons.prems(1) a] by (simp add: Cons.IH)
  next
    case (Free j)
    obtain t ok where f: "free_op s j = (t, ok)" by fastforce
    then show ?thesis
      using Free Cons.prems free_live [OF Cons.prems(1) f] free_good [OF Cons.prems(1) f]
      by (simp add: Cons.IH)
  qed
qed simp

end

section \<open>The device allocator meets the contract\<close>

definition heap_lookup :: "'h velocitor_state \<Rightarrow> u32 \<Rightarrow> velocitor_alloc option" where
  "heap_lookup s h =
     (if h = 0 \<or> h \<ge> next_handle s \<or> a_live (alloc s (unat (h - 1))) = 0 then None
      else Some (alloc s (unat (h - 1))))"

definition block_extent :: "velocitor_alloc \<Rightarrow> nat \<times> nat" where
  "block_extent b = (unat (a_offset b), unat (a_offset b) + unat (a_size b))"

definition heap_alloc_op ::
  "'h velocitor_state \<Rightarrow> alloc_req \<Rightarrow> 'h velocitor_state \<times> (int + u32)" where
  "heap_alloc_op s req =
     (case velocitor_alloc_block s req of (t, Inl e) \<Rightarrow> (t, Inl e)
      | (t, Inr r) \<Rightarrow> (t, Inr (aresp_handle r)))"

definition heap_free_op :: "'h velocitor_state \<Rightarrow> u32 \<Rightarrow> 'h velocitor_state \<times> bool" where
  "heap_free_op s h = (case velocitor_free_block s h of (t, e) \<Rightarrow> (t, e = 0))"

definition heap_issued :: "'h velocitor_state \<Rightarrow> u32 set" where
  "heap_issued s = {h. 0 < h \<and> h < next_handle s}"

lemma heap_lookup_cong: "heap_of s = heap_of t \<Longrightarrow> heap_lookup s = heap_lookup t"
  by (simp add: heap_lookup_def heap_of_def fun_eq_iff)

lemma heap_lookup_in:
  assumes "heap_ok s" and "heap_lookup s h = Some b"
  shows "block_in (node_bump s) b"
  using assms handle_index [of h "next_handle s"]
  by (auto simp: heap_ok_def Let_def heap_lookup_def not_le split: if_splits)

lemma heap_lookup_apart:
  assumes ok: "heap_ok s" and "heap_lookup s h = Some b" and "heap_lookup s k = Some c"
    and "h \<noteq> k"
  shows "apart b c"
proof -
  have hk: "h \<noteq> 0" "h < next_handle s" "k \<noteq> 0" "k < next_handle s"
    and b: "b = alloc s (unat (h - 1))" and c: "c = alloc s (unat (k - 1))"
    using assms by (auto simp: heap_lookup_def split: if_splits)
  have "unat h \<noteq> unat k" using assms(4) by (metis word_unat_eq_iff)
  moreover have "0 < unat h" "0 < unat k" using hk by (simp_all add: unat_gt_0)
  ultimately have ne: "unat (h - 1) \<noteq> unat (k - 1)"
    using hk handle_index(2) [of h] handle_index(2) [of k] by (metis Suc_pred')
  show ?thesis using ne ok hk handle_index(1) [OF hk(1,2)] handle_index(1) [OF hk(3,4)]
    by (auto simp: b c heap_ok_def Let_def apart_def neq_iff)
qed

lemma heap_alloc_cases:
  assumes "heap_ok s" and "heap_alloc_op s req = (t, Inr h)"
  obtains node sz where "h = next_handle s" and "t = heap_push s node sz" and "next_handle s \<le> 1024"
proof -
  have "next_handle s \<noteq> 0" using assms(1) by (auto simp: heap_ok_def Let_def)
  moreover from assms(2) obtain r where "velocitor_alloc_block s req = (t, Inr r)" "h = aresp_handle r"
    by (auto simp: heap_alloc_op_def split: prod.splits sum.splits)
  ultimately show thesis by (auto elim!: alloc_block_Inr intro: that)
qed

lemma heap_push_lookup:
  assumes "heap_ok s" and "next_handle s \<le> 1024"
  shows "heap_issued (heap_push s node sz) = insert (next_handle s) (heap_issued s)"
    and "\<exists>e. heap_lookup (heap_push s node sz) = (heap_lookup s)(next_handle s \<mapsto> e)"
    and "heap_lookup (heap_push s node sz) = (heap_lookup s)(next_handle s \<mapsto>
      \<lparr>a_offset = node_bump s node, a_size = sz, a_node = word_of_nat node, a_live = 1\<rparr>)"
proof -
  have n: "1 \<le> unat (next_handle s)" "unat (next_handle s) \<le> 1024"
    using assms by (auto simp: heap_ok_def Let_def word_le_nat_alt)
  then have s1: "unat (next_handle s + 1) = Suc (unat (next_handle s))"
    by (simp add: unat_word_ariths)
  have lt: "h < next_handle s + 1 \<longleftrightarrow> h = next_handle s \<or> h < next_handle s" for h
    using s1 by (auto simp: word_less_nat_alt word_unat_eq_iff)
  show "heap_issued (heap_push s node sz) = insert (next_handle s) (heap_issued s)"
    using n by (auto simp: heap_issued_def heap_push_def word_less_nat_alt s1 less_Suc_eq
        simp flip: word_unat_eq_iff)
  have u1: "unat (next_handle s - 1) = unat (next_handle s) - 1"
    using n by (intro unat_minus_one) auto
  have nz: "next_handle s \<noteq> 0" using n by auto
  have "heap_lookup (heap_push s node sz) h = ((heap_lookup s)(next_handle s \<mapsto>
     \<lparr>a_offset = node_bump s node, a_size = sz, a_node = word_of_nat node, a_live = 1\<rparr>)) h" for h
  proof (cases "h = next_handle s")
    case True
    then show ?thesis using lt [of "next_handle s"] u1 nz
      by (simp add: heap_lookup_def heap_push_def not_le)
  next
    case False
    then have "h < next_handle s + 1 \<longleftrightarrow> h < next_handle s" using lt by simp
    moreover have "h \<noteq> 0 \<Longrightarrow> unat (h - 1) \<noteq> unat (next_handle s) - 1"
      using False n by (metis One_nat_def diff_Suc_1 nz u1 unat_minus_one word_unat_eq_iff
          diff_add_cancel)
    ultimately show ?thesis using False
      by (auto simp: heap_lookup_def heap_push_def not_le not_less)
  qed
  then show "heap_lookup (heap_push s node sz) = (heap_lookup s)(next_handle s \<mapsto>
      \<lparr>a_offset = node_bump s node, a_size = sz, a_node = word_of_nat node, a_live = 1\<rparr>)"
    by (rule ext)
  then show "\<exists>e. heap_lookup (heap_push s node sz) = (heap_lookup s)(next_handle s \<mapsto> e)"
    by blast
qed

lemma heap_free_lookup:
  assumes "heap_ok s"
  shows "snd (heap_free_op s h) \<longleftrightarrow> heap_lookup s h \<noteq> None"
    and "heap_issued (fst (heap_free_op s h)) = heap_issued s"
    and "heap_lookup (fst (heap_free_op s h)) = (heap_lookup s)(h := None)"
proof -
  show "snd (heap_free_op s h) \<longleftrightarrow> heap_lookup s h \<noteq> None"
    by (simp add: heap_free_op_def velocitor_free_block_def heap_lookup_def)
  show "heap_issued (fst (heap_free_op s h)) = heap_issued s"
  proof (cases "h = 0 \<or> h \<ge> next_handle s \<or> a_live (alloc s (unat (h - 1))) = 0")
    case True
    have "next_handle (velocitor_error_qualify s c i n k) = next_handle s" for c i n k
      using error_qualify_frame(2) [of s c i n k] by (simp add: heap_of_def)
    with True show ?thesis by (simp add: heap_free_op_def velocitor_free_block_def heap_issued_def)
  next
    case False
    then show ?thesis by (simp add: heap_free_op_def velocitor_free_block_def heap_issued_def)
  qed
  show "heap_lookup (fst (heap_free_op s h)) = (heap_lookup s)(h := None)"
  proof (cases "h = 0 \<or> h \<ge> next_handle s \<or> a_live (alloc s (unat (h - 1))) = 0")
    case True
    then have "heap_lookup s h = None" by (simp add: heap_lookup_def)
    moreover have "heap_lookup (fst (heap_free_op s h)) = heap_lookup s"
      using True by (intro heap_lookup_cong) (simp add: heap_free_op_def velocitor_free_block_def frames)
    ultimately show ?thesis by auto
  next
    case False
    then have h: "h \<noteq> 0" "h < next_handle s" by auto
    have "k \<noteq> 0 \<Longrightarrow> k \<noteq> h \<Longrightarrow> unat (k - 1) \<noteq> unat (h - 1)" for k
      by (metis diff_add_cancel word_unat_eq_iff)
    with False show ?thesis
      by (auto simp: heap_free_op_def velocitor_free_block_def heap_lookup_def fun_eq_iff)
  qed
qed

lemma heap_refused:
  assumes "heap_alloc_op s req = (t, Inl e)"
  shows "heap_of t = heap_of s"
  using assms by (auto simp: heap_alloc_op_def alloc_block_Inl split: prod.splits sum.splits)

interpretation heap: handle_allocator heap_alloc_op heap_free_op
  "\<lambda>s h. map_option block_extent (heap_lookup s h)" heap_issued heap_ok
proof (unfold_locales, goal_cases)
  case (1 s req t res)
  then show ?case
    by (auto simp: heap_alloc_op_def split: prod.splits sum.splits intro: alloc_block_heap_ok)
next
  case (2 s k t ok)
  then show ?case
    by (auto simp: heap_free_op_def split: prod.splits intro: free_block_heap_ok)
next
  case (3 s req t h)
  from heap_alloc_cases [OF 3] obtain node sz
    where t: "h = next_handle s" "t = heap_push s node sz" "next_handle s \<le> 1024" .
  obtain e where "heap_lookup t = (heap_lookup s)(h \<mapsto> e)"
    using heap_push_lookup(2) [OF 3(1) t(3)] t by blast
  then have "(\<lambda>k. map_option block_extent (heap_lookup t k))
      = (\<lambda>k. map_option block_extent (heap_lookup s k))(h \<mapsto> block_extent e)"
    by (simp add: fun_eq_iff)
  moreover have "h \<notin> heap_issued s" "heap_issued t = insert h (heap_issued s)"
    using heap_push_lookup(1) [OF 3(1) t(3)] t by (auto simp: heap_issued_def)
  ultimately show ?case by (intro conjI exI)
next
  case (4 s req t e)
  then have "heap_of t = heap_of s" by (simp add: heap_refused)
  moreover have "next_handle t = next_handle s" using calculation by (simp add: heap_of_def)
  ultimately show ?case by (simp add: heap_lookup_cong [of t s] heap_issued_def)
next
  case (5 s h t ok)
  have "t = fst (heap_free_op s h)" "ok = snd (heap_free_op s h)" by (simp_all add: 5(2))
  then show ?case using heap_free_lookup [OF 5(1), of h] by (simp add: fun_eq_iff)
next
  case (6 s h e)
  then show ?case by (auto simp: heap_lookup_def heap_issued_def word_neq_0_conv not_le split: if_splits)
next
  case (7 s h a b k c d)
  then show ?case using heap_lookup_apart [OF 7(1)] by (fastforce simp: apart_def block_extent_def)
qed

abbreviation heap_older :: "'h velocitor_state \<Rightarrow> 'h velocitor_state \<Rightarrow> bool" where
  "heap_older \<equiv> older heap_issued (\<lambda>s h. map_option block_extent (heap_lookup s h))"

lemma heap_older_cong: "heap_of t = heap_of s \<Longrightarrow> heap_older c t = heap_older c s"
  using heap_lookup_cong [of t s] by (simp add: older_def heap_issued_def heap_of_def)

lemma alloc_block_older:
  assumes "heap_ok s" and "velocitor_alloc_block s req = (t, res)"
  shows "heap_older s t"
  using assms heap.alloc_older [OF assms(1), of req] by (cases res) (simp_all add: heap_alloc_op_def)

lemma free_block_older:
  assumes "heap_ok s" and "velocitor_free_block s h = (t, e)"
  shows "heap_older s t"
  using heap.free_older [OF assms(1), of h t "e = 0"] assms(2) by (simp add: heap_free_op_def)

section \<open>Properties\<close>

text \<open>A reset device that has allocated one block, for the witnesses.\<close>

definition one_block :: "unit velocitor_state" where
  "one_block = fst (heap_alloc_op (velocitor_alloc_reset (velocitor_new ()))
     \<lparr>areq_size = 100, areq_dtype = 0, areq_node = 0\<rparr>)"

lemma heap_alloc_op_good: "heap_ok s \<Longrightarrow> heap_ok (fst (heap_alloc_op s r))"
  by (rule heap.alloc_good [OF _ prod.collapse [symmetric]])

lemma one_block_ok: "heap_ok one_block"
  unfolding one_block_def by (rule heap_alloc_op_good) (rule alloc_reset_heap_ok)

lemma one_block_simps:
  "alloc one_block 0 = \<lparr>a_offset = 0x1000000, a_size = 256, a_node = 0, a_live = 1\<rparr>"
  "next_handle one_block = 2" "node_bump one_block 0 = 0x1000100" "err_inject one_block = 0"
  "live_handles one_block = 1"
  by (simp_all add: one_block_def heap_alloc_op_def velocitor_alloc_block_def Let_def
      velocitor_alloc_reset_def velocitor_new_def velocitor_alloc_pick_node_def ROUND_UP_256
      velocitor_node_free_def velocitor_node_end_def velocitor_node_base_def)

lemma heap_ok_block_end:
  assumes "heap_ok s" and "block_in (node_bump s) b"
  shows "unat (a_offset b) + unat (a_size b) \<le> unat (velocitor_node_end (unat (a_node b)))"
proof -
  have n: "unat (a_node b) < 2" using assms(2) by (simp add: block_in_def word_less_nat_alt)
  then have "node_bump s (unat (a_node b)) \<le> velocitor_node_end (unat (a_node b))"
    using assms(1) by (simp add: heap_ok_def bump_ok_def Let_def)
  then show ?thesis using assms(2) by (simp add: block_in_def word_le_nat_alt)
qed

text \<open>C21. An ALLOC that succeeds returns a handle that was not live before, naming a block of the
  node it reports, at the reported device offset, aligned to 256 bytes, at least as large as
  requested and by less than 256 bytes larger, ending within the node and disjoint from every block
  that was live.\<close>

lemma alloc_block_sound:
  assumes "heap_ok s" and "velocitor_alloc_block s req = (t, Inr r)"
  shows "\<exists>b. heap_lookup t (aresp_handle r) = Some b \<and> heap_lookup s (aresp_handle r) = None
     \<and> a_offset b = aresp_dev_offset r \<and> a_node b = aresp_node r
     \<and> unat (areq_size req) \<le> unat (a_size b) \<and> unat (a_size b) < unat (areq_size req) + 256
     \<and> (areq_node req \<noteq> VEL_NODE_ANY \<longrightarrow> a_node b = areq_node req)
     \<and> block_in (node_bump t) b
     \<and> unat (a_offset b) + unat (a_size b) \<le> unat (velocitor_node_end (unat (a_node b)))
     \<and> (\<forall>k c. heap_lookup s k = Some c \<longrightarrow> apart b c)"
proof -
  have nz: "next_handle s \<noteq> 0" using assms(1) by (auto simp: heap_ok_def Let_def)
  from alloc_block_Inr [OF assms(2) nz] obtain node sz where
    sz: "sz = ROUND_UP (areq_size req) 256" "areq_size req \<le> VEL_MEM_SIZE"
    and nh: "next_handle s \<le> VEL_MAX_HANDLES"
    and pick: "velocitor_alloc_pick_node s (areq_node req) sz = (True, node)"
    and want: "areq_node req = VEL_NODE_ANY \<or> areq_node req < VEL_NODES"
    and t: "t = heap_push s node sz"
    and r: "r = \<lparr>aresp_handle = next_handle s, aresp_node = word_of_nat node,
              aresp_generation = generation s, aresp_reserved = 0,
              aresp_dev_offset = node_bump s node\<rparr>" .
  let ?b = "\<lparr>a_offset = node_bump s node, a_size = sz, a_node = word_of_nat node, a_live = 1\<rparr>"
  have t': "heap_ok t" using assms by (rule alloc_block_heap_ok)
  have lk: "heap_lookup t = (heap_lookup s)(next_handle s \<mapsto> ?b)"
    unfolding t using heap_push_lookup(3) [OF assms(1)] nh by simp
  have none: "heap_lookup s (next_handle s) = None" by (simp add: heap_lookup_def)
  have new: "heap_lookup t (next_handle s) = Some ?b" by (simp add: lk)
  have sep: "apart ?b c" if "heap_lookup s k = Some c" for k c
  proof (rule heap_lookup_apart [OF t' new])
    show "next_handle s \<noteq> k" using that none by auto
    then show "heap_lookup t k = Some c" using that by (simp add: lk)
  qed
  have u: "unat sz = (unat (areq_size req) + 255) div 256 * 256"
    using sz by (simp add: unat_ROUND_UP)
  have nd: "areq_node req \<noteq> VEL_NODE_ANY \<longrightarrow> word_of_nat node = areq_node req"
    using pick_node_sound [OF pick want] by auto
  have inside: "unat (a_offset ?b) + unat (a_size ?b) \<le> unat (velocitor_node_end (unat (a_node ?b)))"
    using heap_ok_block_end [OF t' heap_lookup_in [OF t' new]] .
  show ?thesis
    using new none sep heap_lookup_in [OF t' new] nd round_bounds [of "unat (areq_size req)"] inside
    by (intro exI [of _ ?b]) (simp add: r u)
qed

lemma alloc_block_sound_witness:
  "\<exists>b. heap_lookup (heap_push one_block 1 512) 2 = Some b \<and> a_offset b = 0x8000000
     \<and> apart b \<lparr>a_offset = 0x1000000, a_size = 256, a_node = 0, a_live = 1\<rparr>"
proof -
  have "velocitor_alloc_block one_block \<lparr>areq_size = 300, areq_dtype = 0, areq_node = 1\<rparr>
      = (heap_push one_block 1 512, Inr \<lparr>aresp_handle = 2, aresp_node = 1,
          aresp_generation = 0, aresp_reserved = 0, aresp_dev_offset = 0x8000000\<rparr>)"
    by (simp add: velocitor_alloc_block_def one_block_simps heap_push_def Let_def ROUND_UP_256
        velocitor_alloc_pick_node_def velocitor_node_free_def one_block_def heap_alloc_op_def
        velocitor_alloc_reset_def velocitor_new_def velocitor_node_end_def velocitor_node_base_def
        word_le_nat_alt)
  moreover have "heap_lookup one_block 1
      = Some \<lparr>a_offset = 0x1000000, a_size = 256, a_node = 0, a_live = 1\<rparr>"
    by (simp add: heap_lookup_def one_block_simps word_le_nat_alt)
  ultimately show ?thesis
    using alloc_block_sound [OF one_block_ok] by fastforce
qed

text \<open>ALLOC answers every request, and succeeds exactly when the node named exists, the size is
  neither zero nor larger than the device, no failure is injected, fewer than 1024 handles were
  issued this session and some eligible node has room for the rounded size.\<close>

lemma alloc_block_succeeds_iff:
  "(\<exists>t r. velocitor_alloc_block s req = (t, Inr r)) \<longleftrightarrow>
     (areq_node req = VEL_NODE_ANY \<or> areq_node req < VEL_NODES)
     \<and> 0 < areq_size req \<and> areq_size req \<le> VEL_MEM_SIZE
     \<and> err_inject s AND VEL_ERR_INJECT_ALLOC_FAIL = 0 \<and> next_handle s \<le> VEL_MAX_HANDLES
     \<and> (\<exists>n < VEL_NODES. (areq_node req = VEL_NODE_ANY \<or> areq_node req = word_of_nat n)
          \<and> ROUND_UP (areq_size req) VEL_ALLOC_ALIGN \<le> velocitor_node_free s n)"
proof -
  obtain ok node where
    pick: "velocitor_alloc_pick_node s (areq_node req) (ROUND_UP (areq_size req) 256) = (ok, node)"
    by fastforce
  then have any: "areq_node req = VEL_NODE_ANY \<Longrightarrow>
      velocitor_alloc_pick_node s VEL_NODE_ANY (ROUND_UP (areq_size req) 256) = (ok, node)"
    by simp
  have "(\<exists>t r. velocitor_alloc_block s req = (t, Inr r)) \<longleftrightarrow>
      (areq_node req = VEL_NODE_ANY \<or> areq_node req < VEL_NODES)
      \<and> 0 < areq_size req \<and> areq_size req \<le> VEL_MEM_SIZE
      \<and> err_inject s AND VEL_ERR_INJECT_ALLOC_FAIL = 0 \<and> next_handle s \<le> VEL_MAX_HANDLES \<and> ok"
    using pick any
    by (auto simp: velocitor_alloc_block_def Let_def word_neq_0_conv not_le not_less)
  then show ?thesis
    using pick_node_iff [of "areq_node req" s "ROUND_UP (areq_size req) VEL_ALLOC_ALIGN"] pick
    unfolding VEL_ALLOC_ALIGN_def by auto
qed

text \<open>C18. A handle that FREE accepted is dead for the rest of the firmware session: after any
  further sequence of ALLOC and FREE requests it names no block and freeing it again is refused
  with EINVAL, so a stale handle is always detected.\<close>

lemma freed_handle_stays_dead:
  assumes "heap_ok s" and "velocitor_free_block s h = (t, 0)"
  shows "heap_lookup (heap_run heap_alloc_op heap_free_op ops t) h = None
     \<and> snd (velocitor_free_block (heap_run heap_alloc_op heap_free_op ops t) h) = - EINVAL"
proof -
  have "heap_free_op s h = (t, True)" using assms(2) by (simp add: heap_free_op_def)
  from heap.freed_forever [OF assms(1) this, of ops] show ?thesis
    by (auto simp: velocitor_free_block_def heap_lookup_def split: if_splits)
qed

lemma freed_handle_stays_dead_witness:
  "heap_lookup (heap_run heap_alloc_op heap_free_op
     [Alloc \<lparr>areq_size = 8, areq_dtype = 0, areq_node = 0\<rparr>, Free 1] (heap_free one_block 1)) 1 = None"
  using freed_handle_stays_dead [OF one_block_ok, of 1 "heap_free one_block 1"
      "[Alloc \<lparr>areq_size = 8, areq_dtype = 0, areq_node = 0\<rparr>, Free 1]"]
  by (simp add: velocitor_free_block_def heap_free_def one_block_simps word_le_nat_alt)

text \<open>A live block keeps its place: whatever else is allocated or freed, until its own handle is
  freed the handle names the same extent.\<close>

lemma live_block_keeps_place:
  assumes "heap_ok s" and "heap_lookup s h = Some b" and "Free h \<notin> set ops"
  shows "\<exists>c. heap_lookup (heap_run heap_alloc_op heap_free_op ops s) h = Some c
     \<and> block_extent c = block_extent b"
  using heap.live_stays [OF assms(1) _ assms(3), of "block_extent b"] assms(2) by auto

lemma live_block_keeps_place_witness:
  "\<exists>c. heap_lookup (heap_run heap_alloc_op heap_free_op
       [Alloc \<lparr>areq_size = 8, areq_dtype = 0, areq_node = 0\<rparr>, Free 2] one_block) 1 = Some c
     \<and> block_extent c = (0x1000000, 0x1000100)"
  using live_block_keeps_place [OF one_block_ok, of 1 "alloc one_block 0"
      "[Alloc \<lparr>areq_size = 8, areq_dtype = 0, areq_node = 0\<rparr>, Free 2]"]
  by (simp add: heap_lookup_def block_extent_def one_block_simps word_le_nat_alt)

end
