(* ===== verification/Vel_Firmware.thy ===== *)
theory Vel_Firmware
  imports Vel_Queue Vel_Alloc
begin

text \<open>
  The firmware life cycle of \<open>velocitor.c\<close>: the header check that makes a load
  falsifiable, the boot timer, RESET, and the crash injection. \<open>fw_ok\<close> is what the
  host may rely on in every state: FW_STATUS is one of its four values, and a trace
  ring that was announced lies in the fixed aperture.
\<close>

definition VEL_FW_BOOT_LATENCY_NS :: u64 where [simp]: "VEL_FW_BOOT_LATENCY_NS = 100000"

definition velocitor_boot_done :: "'h velocitor_state \<Rightarrow> 'h velocitor_state" where
  "velocitor_boot_done s =
     (let s = s\<lparr>fw_status := VEL_FW_STATUS_RUNNING, generation := generation s + 1\<rparr>;
          s = velocitor_alloc_reset s;
          s = velocitor_mem_write32 s (trace_da s + VEL_TRACE_OFF_ENTRY_SIZE) VEL_TRACE_ENTRY
      in velocitor_trace s VEL_TRACE_LEVEL_INFO VEL_TRACE_ENGINE_NONE VEL_TRACE_SEQ_NONE
           (str ''firmware running, generation '' @ fmt_u (generation s)))"

definition fw_refuse :: "'h velocitor_state \<Rightarrow> u32 \<Rightarrow> 'h velocitor_state" where
  "fw_refuse s info =
     velocitor_raise (velocitor_error_set s VEL_ERR_FW_HEADER (ucast info)) VEL_IRQ_VEC_ERROR"

definition velocitor_fw_verify :: "'h velocitor_state \<Rightarrow> 'h velocitor_state" where
  "velocitor_fw_verify s =
     (let magic = velocitor_mem_read32 s (VEL_FW_HDR_DA + VEL_FW_HDR_OFF_MAGIC);
          abi = velocitor_mem_read32 s (VEL_FW_HDR_DA + VEL_FW_HDR_OFF_ABI);
          da = velocitor_mem_read32 s (VEL_FW_HDR_DA + VEL_FW_HDR_OFF_TRACE_DA);
          len = velocitor_mem_read32 s (VEL_FW_HDR_DA + VEL_FW_HDR_OFF_TRACE_LEN);
          s = s\<lparr>fw_status := VEL_FW_STATUS_RESET, fw_abi := 0\<rparr>
      in if magic \<noteq> VEL_FW_MAGIC \<or> abi \<noteq> VEL_FW_ABI then fw_refuse s magic
         else if len \<noteq> VEL_TRACE_SIZE \<or> (ucast da :: u64) + ucast len > VEL_APERTURE_SIZE
         then fw_refuse s da
         else s\<lparr>fw_abi := abi, trace_da := da, trace_len := len, trace_epoch := clock s,
                fw_status := VEL_FW_STATUS_VERIFIED,
                boot_timer := Some (clock s + VEL_FW_BOOT_LATENCY_NS)\<rparr>)"

definition velocitor_reset_write :: "'h velocitor_state \<Rightarrow> u32 \<Rightarrow> 'h velocitor_state" where
  "velocitor_reset_write s val =
     (let s = s\<lparr>reset := val AND 1\<rparr> in
      if reset s \<noteq> 0 then
        let s = velocitor_trace s VEL_TRACE_LEVEL_WARN VEL_TRACE_ENGINE_NONE VEL_TRACE_SEQ_NONE
                  (str ''reset asserted, generation '' @ fmt_u (generation s));
            s = s\<lparr>boot_timer := None\<rparr>;
            s = velocitor_vq_purge s
        in s\<lparr>rsc_valid := 0, fw_status := VEL_FW_STATUS_RESET, fw_abi := 0, trace_da := 0,
             trace_len := 0\<rparr>
      else velocitor_fw_verify s)"

text \<open>The firmware crash of ERR_INJECT bit 2, in \<open>velocitor_bar0_write\<close>.\<close>

definition err_inject_write :: "'h velocitor_state \<Rightarrow> u32 \<Rightarrow> 'h velocitor_state" where
  "err_inject_write s val =
     (let s = s\<lparr>err_inject := val\<rparr> in
      if err_inject s AND VEL_ERR_INJECT_FW_CRASH \<noteq> 0 then
        let s = velocitor_trace s VEL_TRACE_LEVEL_ERROR VEL_TRACE_ENGINE_NONE VEL_TRACE_SEQ_NONE
                  (str ''firmware crashed on request (ERR_INJECT bit 2)'');
            s = s\<lparr>boot_timer := None\<rparr>;
            s = velocitor_vq_purge s;
            s = s\<lparr>fw_status := VEL_FW_STATUS_CRASHED\<rparr>
        in velocitor_raise s VEL_IRQ_VEC_ERROR
      else s)"

lemma firmware_inject [simp]:
  "err_inject (velocitor_reset_write s v) = err_inject s" "err_inject (velocitor_boot_done s) = err_inject s"
  by (simp_all add: velocitor_reset_write_def velocitor_fw_verify_def fw_refuse_def velocitor_boot_done_def velocitor_vq_purge_def
      velocitor_mem_write32_def velocitor_alloc_reset_def Let_def)

section \<open>The invariant\<close>

definition fw_ok :: "'h velocitor_state \<Rightarrow> bool" where
  "fw_ok s \<longleftrightarrow> fw_status s \<le> VEL_FW_STATUS_CRASHED \<and> reset s \<le> 1 \<and> ring_ok s"

lemma fw_ok_cong: "firmware_of s = firmware_of t \<Longrightarrow> fw_ok s = fw_ok t"
  by (simp add: fw_ok_def firmware_of_def ring_ok_def)

lemma fw_okD: "fw_ok s \<Longrightarrow> ring_ok s"
  by (simp add: fw_ok_def)

text \<open>Cases of the header check: the refusal, or the state of a verified firmware.\<close>

definition header_ok :: "'h velocitor_state \<Rightarrow> bool" where
  "header_ok s \<longleftrightarrow> velocitor_mem_read32 s 0 = VEL_FW_MAGIC \<and> velocitor_mem_read32 s 4 = VEL_FW_ABI
     \<and> velocitor_mem_read32 s 12 = VEL_TRACE_SIZE
     \<and> unat (velocitor_mem_read32 s 8) + VEL_TRACE_SIZE \<le> VEL_APERTURE_SIZE"

lemma fw_verify_cases:
  obtains (refused) info where "\<not> header_ok s"
    "velocitor_fw_verify s = fw_refuse (s\<lparr>fw_status := 0, fw_abi := 0\<rparr>) info"
  | (verified) "header_ok s"
    "velocitor_fw_verify s = s\<lparr>fw_status := 1, fw_abi := 1, trace_da := velocitor_mem_read32 s 8,
       trace_len := VEL_TRACE_SIZE, trace_epoch := clock s,
       boot_timer := Some (clock s + VEL_FW_BOOT_LATENCY_NS)\<rparr>"
proof -
  define x where "x = velocitor_mem_read32 s 8"
  have b: "0x1000000 < (ucast x :: u64) + 0x10000 \<longleftrightarrow> 0x1000000 < unat x + 0x10000"
    using u64_sum_bound [of "0x1000000" x "0x10000"] by simp
  show thesis
  proof (cases "header_ok s")
    case True
    then show ?thesis using b
      by (intro verified) (simp_all add: velocitor_fw_verify_def Let_def header_ok_def flip: x_def)
  next
    case False
    then have "\<exists>info. velocitor_fw_verify s = fw_refuse (s\<lparr>fw_status := 0, fw_abi := 0\<rparr>) info"
      using b by (auto simp: velocitor_fw_verify_def Let_def header_ok_def not_le simp flip: x_def)
    with False show ?thesis by (auto intro: refused)
  qed
qed


section \<open>What the life cycle leaves alone, and what it keeps\<close>

lemma mem_write32_low:
  assumes "unat off < VEL_MEM_SIZE" and "mem_bounded s"
  shows "mem_bounded (velocitor_mem_write32 s off v)"
proof -
  have "unat (off div 4) * 4 + 4 \<le> VEL_MEM_SIZE"
    using assms(1) by (simp add: unat_div) 
  then show ?thesis using assms(2)
    by (simp add: mem_bounded_def velocitor_mem_write32_def mem_store_out)
qed

lemma ring_ok_da: "trace_da s = trace_da t \<Longrightarrow> ring_ok s = ring_ok t"
  by (simp add: ring_ok_def)

lemma trace_da_simps [simp]:
  "trace_da (velocitor_alloc_reset s) = trace_da s"
  "trace_da (velocitor_mem_write32 s a v) = trace_da s"
  "trace_da (velocitor_vq_purge s) = trace_da s"
  by (auto simp: velocitor_alloc_reset_def velocitor_mem_write32_def velocitor_vq_purge_def)

lemma trace_bounded: "ring_ok s \<Longrightarrow> mem_bounded s \<Longrightarrow> mem_bounded (velocitor_trace s l e q m)"
  by (rule mem_bounded_store [of _ s]) (simp_all add: frames ring_ok_def)

lemma alloc_reset_frame [frames]:
  "queues_of (velocitor_alloc_reset s) = queues_of s" "firmware_of (velocitor_alloc_reset s) = firmware_of s"
  "window_of (velocitor_alloc_reset s) = window_of s" "irq_of (velocitor_alloc_reset s) = irq_of s"
  "error_of (velocitor_alloc_reset s) = error_of s" "dma_of (velocitor_alloc_reset s) = dma_of s"
  "store_of (velocitor_alloc_reset s) = store_of s" "mem (velocitor_alloc_reset s) = mem s"
  by (simp_all add: velocitor_alloc_reset_def frames)

lemma boot_done_frame [frames]:
  "queues_of (velocitor_boot_done s) = queues_of s" "window_of (velocitor_boot_done s) = window_of s"
  "irq_of (velocitor_boot_done s) = irq_of s" "error_of (velocitor_boot_done s) = error_of s"
  "dma_of (velocitor_boot_done s) = dma_of s"
  by (simp_all add: velocitor_boot_done_def Let_def frames)

lemma fw_refuse_frame [frames]:
  "queues_of (fw_refuse s i) = queues_of s" "heap_of (fw_refuse s i) = heap_of s"
  "firmware_of (fw_refuse s i) = firmware_of s" "window_of (fw_refuse s i) = window_of s"
  "dma_of (fw_refuse s i) = dma_of s" "store_of (fw_refuse s i) = store_of s"
  by (simp_all add: fw_refuse_def frames)

lemma fw_verify_frame [frames]:
  "queues_of (velocitor_fw_verify s) = queues_of s" "heap_of (velocitor_fw_verify s) = heap_of s"
  "window_of (velocitor_fw_verify s) = window_of s" "dma_of (velocitor_fw_verify s) = dma_of s"
  by (cases s rule: fw_verify_cases; simp add: frames)+

lemma reset_write_frame [frames]:
  "heap_of (velocitor_reset_write s v) = heap_of s"
  "window_of (velocitor_reset_write s v) = window_of s" "dma_of (velocitor_reset_write s v) = dma_of s"
  by (simp_all add: velocitor_reset_write_def Let_def frames)

lemma err_inject_frame [frames]:
  "heap_of (err_inject_write s v) = heap_of s" "window_of (err_inject_write s v) = window_of s"
  "error_of (err_inject_write s v) = error_of s" "dma_of (err_inject_write s v) = dma_of s"
  "store_of (err_inject_write s v) = store_of s"
  by (simp_all add: err_inject_write_def Let_def frames)

lemma boot_done_heap_ok [keeps]: "heap_ok (velocitor_boot_done s)"
proof -
  have "heap_of (velocitor_boot_done s)
      = heap_of (velocitor_alloc_reset (s\<lparr>fw_status := VEL_FW_STATUS_RUNNING, generation := generation s + 1\<rparr>))"
    by (simp add: velocitor_boot_done_def Let_def frames)
  then show ?thesis using alloc_reset_heap_ok heap_ok_cong by blast
qed

lemma boot_done_firmware:
  "fw_status (velocitor_boot_done s) = VEL_FW_STATUS_RUNNING"
  "generation (velocitor_boot_done s) = generation s + 1"
  "fw_abi (velocitor_boot_done s) = fw_abi s" "reset (velocitor_boot_done s) = reset s"
  "trace_da (velocitor_boot_done s) = trace_da s"
  "boot_timer (velocitor_boot_done s) = boot_timer s"
proof -
  have "firmware_of (velocitor_boot_done s)
      = firmware_of (s\<lparr>fw_status := VEL_FW_STATUS_RUNNING, generation := generation s + 1\<rparr>)"
    by (simp add: velocitor_boot_done_def Let_def frames)
  then show "fw_status (velocitor_boot_done s) = VEL_FW_STATUS_RUNNING"
    "generation (velocitor_boot_done s) = generation s + 1"
    "fw_abi (velocitor_boot_done s) = fw_abi s" "reset (velocitor_boot_done s) = reset s"
    "trace_da (velocitor_boot_done s) = trace_da s"
    "boot_timer (velocitor_boot_done s) = boot_timer s"
    by (simp_all add: firmware_of_def)
qed

lemma boot_done_fw_ok [keeps]: "fw_ok s \<Longrightarrow> fw_ok (velocitor_boot_done s)"
  by (simp add: fw_ok_def boot_done_firmware ring_ok_def)

lemma boot_done_bounded [keeps]:
  assumes "fw_ok s" and "mem_bounded s"
  shows "mem_bounded (velocitor_boot_done s)"
proof -
  have "unat (trace_da s + 12) < VEL_MEM_SIZE"
    using assms(1) by (auto simp: fw_ok_def ring_ok_def unat_word_ariths)
  moreover have "ring_ok s" using assms(1) by (rule fw_okD)
  ultimately show ?thesis
    using assms(2) unfolding velocitor_boot_done_def Let_def
    by (intro trace_bounded mem_write32_low)
      (simp_all add: ring_ok_def mem_bounded_def frames)
qed

lemma fw_verify_fw_ok [keeps]: "fw_ok s \<Longrightarrow> fw_ok (velocitor_fw_verify s)"
proof (cases s rule: fw_verify_cases)
  case (refused info)
  assume "fw_ok s"
  then have "fw_ok (s\<lparr>fw_status := 0, fw_abi := 0\<rparr>)" by (simp add: fw_ok_def ring_ok_def)
  moreover have "firmware_of (velocitor_fw_verify s) = firmware_of (s\<lparr>fw_status := 0, fw_abi := 0\<rparr>)"
    by (simp add: refused frames)
  ultimately show ?thesis using fw_ok_cong by blast
next
  case verified
  assume "fw_ok s"
  with verified show ?thesis by (simp add: fw_ok_def ring_ok_def header_ok_def)
qed

lemma fw_verify_bounded [keeps]:
  assumes "fw_ok s" and "mem_bounded s"
  shows "mem_bounded (velocitor_fw_verify s)"
proof (cases s rule: fw_verify_cases)
  case (refused info)
  have r: "ring_ok (s\<lparr>fw_status := 0, fw_abi := 0\<rparr>)" using assms(1) by (simp add: fw_ok_def ring_ok_def)
  moreover have "ring_ok (velocitor_fw_verify s)"
    using fw_verify_fw_ok [OF assms(1)] by (rule fw_okD)
  moreover have "store_of (velocitor_fw_verify s) = store_of (s\<lparr>fw_status := 0, fw_abi := 0\<rparr>)"
    by (simp add: refused frames)
  ultimately show ?thesis
    using assms(2) mem_bounded_store [of "velocitor_fw_verify s" "s\<lparr>fw_status := 0, fw_abi := 0\<rparr>"]
    by (simp add: mem_bounded_def)
next
  case verified
  then show ?thesis using assms(2) by (simp add: mem_bounded_def)
qed

lemma word_and_1: "(v :: u32) AND 1 \<le> 1"
  by (simp add: and_one_eq word_le_nat_alt unat_mod)

lemma reset_write_keeps [keeps]:
  assumes "fw_ok s" and "queues_ok s" and "mem_bounded s"
  shows "fw_ok (velocitor_reset_write s v) \<and> queues_ok (velocitor_reset_write s v)
     \<and> mem_bounded (velocitor_reset_write s v)"
proof -
  let ?r = "s\<lparr>reset := v AND 1\<rparr>"
  have r: "fw_ok ?r" "queues_ok ?r" "mem_bounded ?r" "ring_ok ?r"
    using assms word_and_1 by (auto simp: fw_ok_def ring_ok_def queues_ok_def mem_bounded_def)
  let ?t = "velocitor_trace ?r VEL_TRACE_LEVEL_WARN VEL_TRACE_ENGINE_NONE VEL_TRACE_SEQ_NONE
      (str ''reset asserted, generation '' @ fmt_u (generation ?r))"
  have t: "mem_bounded ?t" "queues_ok ?t" "firmware_of ?t = firmware_of ?r"
    using r trace_bounded [OF r(4,3)] queues_ok_cong [of ?t ?r] by (simp_all add: frames)
  then have "queues_ok (velocitor_vq_purge (?t\<lparr>boot_timer := None\<rparr>))"
    by (intro vq_purge_ok) (simp add: queues_ok_def)
  moreover have "reset ?t \<le> 1" using t(3) word_and_1 by (simp add: firmware_of_def)
  moreover have "queues_ok (velocitor_fw_verify ?r)"
    using r(2) queues_ok_cong [of "velocitor_fw_verify ?r" ?r] by (simp add: frames)
  moreover have "velocitor_reset_write s v = velocitor_fw_verify ?r" if "v AND 1 = 0"
    using that by (simp add: velocitor_reset_write_def Let_def)
  ultimately show ?thesis
    using fw_verify_fw_ok [OF r(1)] fw_verify_bounded [OF r(1,3)] t(1)
    by (cases "v AND 1 = 0") (simp_all add: velocitor_reset_write_def Let_def fw_ok_def ring_ok_def
        queues_ok_def mem_bounded_def velocitor_vq_purge_def)
qed

lemma err_inject_keeps [keeps]:
  assumes "fw_ok s" and "queues_ok s" and "mem_bounded s"
  shows "fw_ok (err_inject_write s v) \<and> queues_ok (err_inject_write s v)
     \<and> mem_bounded (err_inject_write s v)"
proof -
  let ?r = "s\<lparr>err_inject := v\<rparr>"
  let ?t = "velocitor_trace ?r VEL_TRACE_LEVEL_ERROR VEL_TRACE_ENGINE_NONE VEL_TRACE_SEQ_NONE
      (str ''firmware crashed on request (ERR_INJECT bit 2)'')"
  let ?u = "(velocitor_vq_purge (?t\<lparr>boot_timer := None\<rparr>))\<lparr>fw_status := VEL_FW_STATUS_CRASHED\<rparr>"
  have r: "fw_ok ?r" "queues_ok ?r" "mem_bounded ?r" "ring_ok ?r"
    using assms by (auto simp: fw_ok_def ring_ok_def queues_ok_def mem_bounded_def)
  have t: "mem_bounded ?t" "queues_ok ?t" "fw_ok ?t"
    using r trace_bounded [OF r(4,3)] queues_ok_cong [of ?t ?r] fw_ok_cong [of ?t ?r]
    by (simp_all add: frames)
  have "queues_ok (velocitor_vq_purge (?t\<lparr>boot_timer := None\<rparr>))"
    using t(2) by (intro vq_purge_ok) (simp add: queues_ok_def)
  then have u: "queues_ok ?u" "fw_ok ?u" "mem_bounded ?u"
    using t by (simp_all add: queues_ok_def fw_ok_def ring_ok_def velocitor_vq_purge_def mem_bounded_def)
  define w where "w = velocitor_raise ?u VEL_IRQ_VEC_ERROR"
  have "queues_ok w \<and> fw_ok w \<and> mem_bounded w"
    using u queues_ok_cong [of w ?u] fw_ok_cong [of w ?u]
    by (simp add: w_def frames mem_bounded_def)
  note ok = this
  consider (crash) "err_inject_write s v = w"
    | (plain) "err_inject_write s v = ?r"
    by (cases "v AND VEL_ERR_INJECT_FW_CRASH = 0") (simp_all add: err_inject_write_def Let_def w_def)
  then show ?thesis using r ok by cases (simp_all only: simp_thms)
qed

section \<open>Properties\<close>

text \<open>Releasing RESET verifies the loaded image: with the magic and the ABI in the header and a trace
  ring of 64 KiB inside the aperture, FW_STATUS becomes verified, FW_ABI 1 and the boot timer is
  armed 100 us ahead; with any other header FW_STATUS and FW_ABI are 0, the error vector is latched
  and, if no error was latched before, ERR_CODE names the firmware header.\<close>

lemma reset_release_verifies:
  assumes "v AND 1 = 0"
  shows "if header_ok s
     then fw_status (velocitor_reset_write s v) = VEL_FW_STATUS_VERIFIED
       \<and> fw_abi (velocitor_reset_write s v) = VEL_FW_ABI
       \<and> trace_da (velocitor_reset_write s v) = velocitor_mem_read32 s 8
       \<and> boot_timer (velocitor_reset_write s v) = Some (clock s + VEL_FW_BOOT_LATENCY_NS)
     else fw_status (velocitor_reset_write s v) = VEL_FW_STATUS_RESET
       \<and> fw_abi (velocitor_reset_write s v) = 0
       \<and> irq_status (velocitor_reset_write s v) AND irq_bit VEL_IRQ_VEC_ERROR \<noteq> 0
       \<and> (irq_status s AND irq_bit VEL_IRQ_VEC_ERROR = 0 \<longrightarrow>
            err_code (velocitor_reset_write s v) = VEL_ERR_FW_HEADER)"
proof -
  let ?r = "s\<lparr>reset := v AND 1\<rparr>"
  have w: "velocitor_reset_write s v = velocitor_fw_verify ?r"
    using assms by (simp add: velocitor_reset_write_def Let_def)
  have h: "header_ok ?r = header_ok s" "velocitor_mem_read32 ?r = velocitor_mem_read32 s"
    by (simp_all add: header_ok_def velocitor_mem_read32_def fun_eq_iff)
  show ?thesis
  proof (cases ?r rule: fw_verify_cases)
    case (refused info)
    let ?t = "?r\<lparr>fw_status := 0, fw_abi := 0\<rparr>"
    have "firmware_of (fw_refuse ?t info) = firmware_of ?t" by (simp add: frames)
    then have "fw_status (fw_refuse ?t info) = 0" "fw_abi (fw_refuse ?t info) = 0"
      by (simp_all add: firmware_of_def)
    moreover have "irq_status (fw_refuse ?t info) AND irq_bit VEL_IRQ_VEC_ERROR \<noteq> 0"
      unfolding fw_refuse_def by (rule raise_error_latched)
    moreover have "irq_status s AND irq_bit VEL_IRQ_VEC_ERROR = 0 \<longrightarrow>
        err_code (fw_refuse ?t info) = VEL_ERR_FW_HEADER"
      by (simp add: fw_refuse_def velocitor_error_set_def velocitor_error_qualify_def)
    ultimately show ?thesis using refused w h by simp
  next
    case verified
    then show ?thesis using w h by simp
  qed
qed


text \<open>Device memory with a firmware header, for the witnesses: \<open>image_with m\<close> has magic \<open>m\<close>.\<close>

definition image_with :: "u32 \<Rightarrow> unit velocitor_state" where
  "image_with m = (velocitor_new ())\<lparr>mem := mem_store (\<lambda>_. 0) 0
     (put_le 4 m @ put_le 4 (1 :: u32) @ put_le 4 (0x20000 :: u32) @ put_le 4 (0x10000 :: u32))\<rparr>"

lemma image_with_reads:
  "velocitor_mem_read32 (image_with m) 0 = m" "velocitor_mem_read32 (image_with m) 4 = 1"
  "velocitor_mem_read32 (image_with m) 8 = 0x20000" "velocitor_mem_read32 (image_with m) 12 = 0x10000"
proof -
  let ?bs = "put_le 4 m @ put_le 4 (1 :: u32) @ put_le 4 (0x20000 :: u32) @ put_le 4 (0x10000 :: u32)"
  have ld: "mem_load (mem_store (\<lambda>_. 0) 0 ?bs) a 4 = take 4 (drop a ?bs)" if "a + 4 \<le> 16" for a
    using mem_load_sub [of a 4 16 "mem_store (\<lambda>_. 0) 0 ?bs" 0] that by simp
  show "velocitor_mem_read32 (image_with m) 0 = m" "velocitor_mem_read32 (image_with m) 4 = 1"
    "velocitor_mem_read32 (image_with m) 8 = 0x20000" "velocitor_mem_read32 (image_with m) 12 = 0x10000"
    using ld [of 0] ld [of 4] ld [of 8] ld [of 12]
    by (simp_all add: velocitor_mem_read32_def image_with_def unat_div)
qed

lemma reset_release_verifies_witness:
  "fw_status (velocitor_reset_write (image_with VEL_FW_MAGIC) 0) = VEL_FW_STATUS_VERIFIED
   \<and> fw_status (velocitor_reset_write (image_with 0) 0) = VEL_FW_STATUS_RESET"
  using reset_release_verifies [of 0 "image_with VEL_FW_MAGIC"] reset_release_verifies [of 0 "image_with 0"]
  by (simp add: header_ok_def image_with_reads)

text \<open>Every boot starts a new session: GENERATION goes up by one, the firmware runs, no handle of an
  earlier session names a block, the two nodes are empty and ALLOC numbers from 1 again.\<close>

lemma boot_starts_session:
  "fw_status (velocitor_boot_done s) = VEL_FW_STATUS_RUNNING
     \<and> generation (velocitor_boot_done s) = generation s + 1
     \<and> heap_lookup (velocitor_boot_done s) = (\<lambda>_. None)
     \<and> next_handle (velocitor_boot_done s) = 1
     \<and> velocitor_stat_fill (velocitor_boot_done s) =
         \<lparr>sresp_node = [\<lparr>sn_capacity = 0x7000000, sn_free = 0x7000000\<rparr>,
                       \<lparr>sn_capacity = 0x8000000, sn_free = 0x8000000\<rparr>],
          sresp_live_handles = 0, sresp_reserved = 0\<rparr>"
proof -
  have "heap_of (velocitor_boot_done s) = heap_of (velocitor_alloc_reset s)"
    by (simp add: velocitor_boot_done_def Let_def frames) (simp add: velocitor_alloc_reset_def heap_of_def)
  then have h: "next_handle (velocitor_boot_done s) = 1" "live_handles (velocitor_boot_done s) = 0"
    "node_bump (velocitor_boot_done s) 0 = velocitor_node_base 0"
    "node_bump (velocitor_boot_done s) 1 = velocitor_node_base 1"
    by (auto simp: heap_of_def velocitor_alloc_reset_def)
  have "h = 0 \<or> h \<ge> 1" for h :: u32 by (cases "h = 0") (simp_all add: word_le_nat_alt unat_gt_0 Suc_le_eq)
  then have "heap_lookup (velocitor_boot_done s) = (\<lambda>_. None)"
    by (auto simp: heap_lookup_def h fun_eq_iff)
  then show ?thesis using h
    by (simp add: boot_done_firmware velocitor_stat_fill_def velocitor_node_free_def upt_rec
        velocitor_node_end_def velocitor_node_base_def)
qed

text \<open>Asserting RESET ends everything the boot had: no queue is enabled and no service is pending, the
  boot timer is cancelled, the shadow table is invalid, FW_STATUS and FW_ABI are 0 and the firmware
  logs nothing any more.\<close>

lemma reset_assert_purges:
  assumes "v AND 1 \<noteq> 0" and "t = velocitor_reset_write s v"
  shows "(\<forall>q < VEL_VQ_COUNT. q_enable (vq t q) = 0 \<and> q_last_avail (vq t q) = 0)
     \<and> vq_pending t = 0 \<and> vq_timer t = None \<and> boot_timer t = None \<and> rsc_valid t = 0
     \<and> fw_status t = VEL_FW_STATUS_RESET \<and> fw_abi t = 0 \<and> velocitor_trace t l e n m = t"
  using assms by (simp add: velocitor_reset_write_def Let_def velocitor_vq_purge_def velocitor_trace_def)

lemma reset_assert_purges_witness:
  "boot_timer (velocitor_reset_write ((image_with 0)\<lparr>boot_timer := Some 5\<rparr>) 1) = None"
  using reset_assert_purges [of 1 _ "(image_with 0)\<lparr>boot_timer := Some 5\<rparr>", OF _ refl] by simp

text \<open>A crash request ends the session without saying why: FW_STATUS is crashed, the queues are purged,
  the boot is cancelled and the error vector latched, but ERR_CODE and the other qualification
  registers keep what they held.\<close>

lemma crash_purges_unqualified:
  assumes "v AND VEL_ERR_INJECT_FW_CRASH \<noteq> 0" and "t = err_inject_write s v"
  shows "fw_status t = VEL_FW_STATUS_CRASHED \<and> (\<forall>q < VEL_VQ_COUNT. q_enable (vq t q) = 0)
     \<and> vq_timer t = None \<and> boot_timer t = None
     \<and> irq_status t AND irq_bit VEL_IRQ_VEC_ERROR \<noteq> 0 \<and> error_of t = error_of s"
proof -
  have "error_of t = error_of s" using assms(2) by (simp add: frames)
  moreover have "irq_status t AND irq_bit VEL_IRQ_VEC_ERROR \<noteq> 0"
    using assms raise_error_latched by (simp only: err_inject_write_def Let_def) simp
  ultimately show ?thesis
    using assms by (simp add: err_inject_write_def Let_def velocitor_vq_purge_def)
qed

lemma crash_purges_unqualified_witness:
  "fw_status (err_inject_write (image_with 0) 4) = VEL_FW_STATUS_CRASHED"
  using crash_purges_unqualified [of 4 _ "image_with 0", OF _ refl] by simp

text \<open>A boot can complete on an image that was refused: releasing RESET again while a boot timer is
  armed does not cancel it, so when the second header does not check out the device reports reset
  with ABI 0, and then runs all the same when the old timer fires.\<close>

lemma stale_boot_timer_runs:
  assumes "boot_timer s = Some d" and "\<not> header_ok s" and "v AND 1 = 0"
    and "t = velocitor_reset_write s v"
  shows "fw_status t = VEL_FW_STATUS_RESET \<and> boot_timer t = Some d
     \<and> fw_status (velocitor_boot_done t) = VEL_FW_STATUS_RUNNING
     \<and> fw_abi (velocitor_boot_done t) = 0"
proof -
  let ?r = "s\<lparr>reset := v AND 1\<rparr>"
  have h: "\<not> header_ok ?r" using assms(2) by (simp add: header_ok_def velocitor_mem_read32_def)
  obtain info where w: "t = fw_refuse (?r\<lparr>fw_status := 0, fw_abi := 0\<rparr>) info"
    using assms(3,4) h by (cases ?r rule: fw_verify_cases) (auto simp: velocitor_reset_write_def Let_def)
  have "firmware_of t = firmware_of (?r\<lparr>fw_status := 0, fw_abi := 0\<rparr>)"
    by (simp add: w frames)
  then have "fw_status t = 0" "fw_abi t = 0" "boot_timer t = boot_timer s"
    by (simp_all add: firmware_of_def)
  with assms(1) show ?thesis by (simp add: boot_done_firmware)
qed

lemma stale_boot_timer_runs_witness:
  "fw_status (velocitor_boot_done
     (velocitor_reset_write ((image_with 0)\<lparr>boot_timer := Some 5\<rparr>) 0)) = VEL_FW_STATUS_RUNNING"
proof -
  have "\<not> header_ok ((image_with 0)\<lparr>boot_timer := Some 5\<rparr>)"
    using image_with_reads(1) [of 0] by (simp add: header_ok_def velocitor_mem_read32_def)
  from stale_boot_timer_runs [OF _ this, of 5 0] show ?thesis by simp
qed

end
