(* ===== verification/Vel_Rpmsg.thy ===== *)
theory Vel_Rpmsg
  imports Vel_Loop Vel_Firmware
begin

text \<open>
  The control plane of \<open>velocitor.c\<close>: rpmsg messages on the control vdev, the name service
  announcement, and the four control operations with their byte layouts. The C structures are
  packed and little-endian, so a message is a list of bytes and a field an offset in it.
\<close>

definition VEL_RPMSG_NS_CREATE :: u32 where [simp]: "VEL_RPMSG_NS_CREATE = 0"
definition VEL_RPMSG_NAME_SIZE :: nat where [simp]: "VEL_RPMSG_NAME_SIZE = 32"
definition VEL_RPMSG_BUF_SIZE :: u32 where [simp]: "VEL_RPMSG_BUF_SIZE = 512"
definition VEL_VIRTIO_RPMSG_F_NS :: nat where [simp]: "VEL_VIRTIO_RPMSG_F_NS = 0"

section \<open>Wire formats\<close>

text \<open>\<open>struct VelocitorRpmsgHdr\<close>, 16 bytes; \<open>reserved\<close> and \<open>flags\<close> are sent as zero.\<close>

definition rpmsg_hdr :: "u32 \<Rightarrow> u32 \<Rightarrow> u16 \<Rightarrow> bytes" where
  "rpmsg_hdr src dst len =
     put_le 4 src @ put_le 4 dst @ put_le 4 (0 :: u32) @ put_le 2 len @ put_le 2 (0 :: u16)"

definition rpmsg_src :: "bytes \<Rightarrow> u32" where
  "rpmsg_src bs = get_le 0 4 bs"

definition rpmsg_len :: "bytes \<Rightarrow> u16" where
  "rpmsg_len bs = get_le 12 2 bs"

text \<open>\<open>struct VelocitorNsMsg\<close>, 40 bytes.\<close>

definition ns_msg :: "string \<Rightarrow> u32 \<Rightarrow> u32 \<Rightarrow> bytes" where
  "ns_msg name addr flags =
     (let n = take (VEL_RPMSG_NAME_SIZE - 1) (str name) in
      n @ replicate (VEL_RPMSG_NAME_SIZE - length n) 0 @ put_le 4 addr @ put_le 4 flags)"

text \<open>\<open>struct VelocitorCtrlMsg\<close>, 16 bytes.\<close>

record ctrl_msg =
  cm_seq :: u32
  cm_op :: u16
  cm_flags :: u16
  cm_status :: u32
  cm_reserved :: u32

definition put_ctrl :: "ctrl_msg \<Rightarrow> bytes" where
  "put_ctrl m = put_le 4 (cm_seq m) @ put_le 2 (cm_op m) @ put_le 2 (cm_flags m) @
     put_le 4 (cm_status m) @ put_le 4 (cm_reserved m)"

definition get_ctrl :: "bytes \<Rightarrow> ctrl_msg" where
  "get_ctrl bs = \<lparr>cm_seq = get_le 0 4 bs, cm_op = get_le 4 2 bs, cm_flags = get_le 6 2 bs,
     cm_status = get_le 8 4 bs, cm_reserved = get_le 12 4 bs\<rparr>"

text \<open>\<open>struct VelocitorInfoResp\<close>, 28 bytes.\<close>

record info_resp =
  i_abi :: u32
  i_caps :: u32
  i_ctrl_caps :: u32
  i_nodes :: u32
  i_engines :: u32
  i_alloc_align :: u32
  i_generation :: u32

definition put_info :: "info_resp \<Rightarrow> bytes" where
  "put_info r = put_le 4 (i_abi r) @ put_le 4 (i_caps r) @ put_le 4 (i_ctrl_caps r) @
     put_le 4 (i_nodes r) @ put_le 4 (i_engines r) @ put_le 4 (i_alloc_align r) @
     put_le 4 (i_generation r)"

text \<open>\<open>struct VelocitorAllocReq\<close> and \<open>VelocitorAllocResp\<close>, 16 and 24 bytes.\<close>

definition get_alloc_req :: "bytes \<Rightarrow> alloc_req" where
  "get_alloc_req bs = \<lparr>areq_size = get_le 0 8 bs, areq_dtype = get_le 8 4 bs, areq_node = get_le 12 4 bs\<rparr>"

definition put_alloc_resp :: "alloc_resp \<Rightarrow> bytes" where
  "put_alloc_resp r = put_le 4 (aresp_handle r) @ put_le 4 (aresp_node r) @
     put_le 4 (aresp_generation r) @ put_le 4 (aresp_reserved r) @ put_le 8 (aresp_dev_offset r)"

text \<open>\<open>struct VelocitorStatResp\<close>, 40 bytes.\<close>

definition put_stat :: "stat_resp \<Rightarrow> bytes" where
  "put_stat r = concat (map (\<lambda>n. put_le 8 (sn_capacity n) @ put_le 8 (sn_free n)) (sresp_node r)) @
     put_le 4 (sresp_live_handles r) @ put_le 4 (sresp_reserved r)"

section \<open>Sending\<close>

definition velocitor_rpmsg_send ::
  "'h pci_bus \<Rightarrow> 'h velocitor_state \<Rightarrow> u32 \<Rightarrow> u32 \<Rightarrow> bytes \<Rightarrow> 'h velocitor_state \<times> bool" where
  "velocitor_rpmsg_send B s src dst payload =
     (let q = VEL_VQ_CTRL_RX; len = length payload in
      if q_enable (vq s q) = 0 then (s, False)
      else case velocitor_vq_pop B s q of
        (s, None) \<Rightarrow> (s, False)
      | (s, Some (head, addr, buflen)) \<Rightarrow>
          if unat buflen < 16 + len
          then (velocitor_vq_push B
                  (velocitor_error_qualify s VEL_ERR_OUT_OF_BOUNDS (ucast buflen) (q_notifyid (vq s q)) 0)
                  q head 0, False)
          else case velocitor_vq_host_write B s q addr (rpmsg_hdr src dst (word_of_nat len)) of
            (s, False) \<Rightarrow> (s, False)
          | (s, True) \<Rightarrow>
              (case velocitor_vq_host_write B s q (addr + 16) payload of
                 (s, False) \<Rightarrow> (s, False)
               | (s, True) \<Rightarrow> (velocitor_vq_push B s q head (word_of_nat (16 + len)), True)))"

definition velocitor_rpmsg_announce :: "'h pci_bus \<Rightarrow> 'h velocitor_state \<Rightarrow> 'h velocitor_state" where
  "velocitor_rpmsg_announce B s =
     (case velocitor_rpmsg_send B s VEL_RPMSG_CTRL_ADDR VEL_RPMSG_NS_ADDR
             (ns_msg VEL_CTRL_NAME VEL_RPMSG_CTRL_ADDR VEL_RPMSG_NS_CREATE) of
        (s, False) \<Rightarrow> s
      | (s, True) \<Rightarrow>
          velocitor_trace (s\<lparr>rpmsg_announced := True\<rparr>) VEL_TRACE_LEVEL_INFO VEL_TRACE_ENGINE_NONE
            VEL_TRACE_SEQ_NONE
            (str ''announced '' @ [34] @ str VEL_CTRL_NAME @ [34] @ str '' at address '' @
             fmt_u (VEL_RPMSG_CTRL_ADDR :: u32)))"

section \<open>The control operations\<close>

definition errno32 :: "int \<Rightarrow> u32" where
  "errno32 e = word_of_int e"

definition info_fill :: "'h velocitor_state \<Rightarrow> info_resp" where
  "info_fill s = \<lparr>i_abi = VEL_FW_ABI, i_caps = VEL_CAP_FP32 OR VEL_CAP_BF16 OR VEL_CAP_TRANSPOSE,
     i_ctrl_caps = VEL_CTRL_CAP_NODE_HINT, i_nodes = VEL_NODES, i_engines = VEL_ENGINES,
     i_alloc_align = VEL_ALLOC_ALIGN, i_generation = generation s\<rparr>"

text \<open>The \<open>switch\<close> of \<open>velocitor_rpmsg_recv\<close>: new state, \<open>resp->status\<close>, payload of the answer.\<close>

definition ctrl_op :: "'h velocitor_state \<Rightarrow> u16 \<Rightarrow> bytes \<Rightarrow> 'h velocitor_state \<times> u32 \<times> bytes" where
  "ctrl_op s op data =
     (let len = length data in
      if op = VEL_OP_INFO then (s, 0, put_info (info_fill s))
      else if op = VEL_OP_ALLOC then
        (if len < 16 + 16 then (s, errno32 (- EINVAL), [])
         else case velocitor_alloc_block s (get_alloc_req (drop 16 data)) of
           (s, Inl err) \<Rightarrow> (s, errno32 err, [])
         | (s, Inr r) \<Rightarrow> (s, 0, put_alloc_resp r))
      else if op = VEL_OP_FREE then
        (if len < 16 + 8 then (s, errno32 (- EINVAL), [])
         else case velocitor_free_block s (get_le 16 4 data) of (s, err) \<Rightarrow> (s, errno32 err, []))
      else if op = VEL_OP_STAT then (s, 0, put_stat (velocitor_stat_fill s))
      else (s, errno32 (- ENOSYS), []))"

definition velocitor_rpmsg_recv ::
  "'h pci_bus \<Rightarrow> 'h velocitor_state \<Rightarrow> u32 \<Rightarrow> bytes \<Rightarrow> 'h velocitor_state" where
  "velocitor_rpmsg_recv B s src data =
     (if length data < 16 then s
      else
        let req = get_ctrl data;
            (s, status, payload) = ctrl_op s (cm_op req) data;
            resp = \<lparr>cm_seq = cm_seq req, cm_op = cm_op req, cm_flags = 0, cm_status = status,
                    cm_reserved = 0\<rparr>;
            s = velocitor_trace s VEL_TRACE_LEVEL_INFO VEL_TRACE_ENGINE_NONE (cm_seq req)
                  (str ''control op '' @ fmt_u (cm_op req) @ str '' from address '' @ fmt_u src)
        in fst (velocitor_rpmsg_send B s VEL_RPMSG_CTRL_ADDR src (put_ctrl resp @ payload)))"

section \<open>Consuming the transmit ring\<close>

text \<open>One iteration of the loop of \<open>velocitor_rpmsg_drain\<close>; the flag is false on \<open>return\<close>.\<close>

definition rpmsg_serve ::
  "'h pci_bus \<Rightarrow> u16 \<times> u64 \<times> u32 \<Rightarrow> 'h velocitor_state \<Rightarrow> 'h velocitor_state \<times> bool" where
  "rpmsg_serve B e s =
     (let q = VEL_VQ_CTRL_TX; (head, addr, len) = e in
      if len < 16 \<or> len > VEL_RPMSG_BUF_SIZE
      then (velocitor_vq_push B
              (velocitor_error_qualify s VEL_ERR_BAD_DESC (ucast len) (q_notifyid (vq s q)) 0) q head 0,
            True)
      else case velocitor_vq_host_read B s q addr (replicate (unat len) 0) of
        (s, _, False) \<Rightarrow> (s, False)
      | (s, buffer, True) \<Rightarrow>
          let payload = rpmsg_len buffer in
          if 16 + unat payload > unat len
          then (velocitor_vq_push B
                  (velocitor_error_qualify s VEL_ERR_BAD_DESC (ucast payload) (q_notifyid (vq s q)) 0)
                  q head 0, True)
          else (velocitor_rpmsg_recv B (velocitor_vq_push B s q head 0) (rpmsg_src buffer)
                  (take (unat payload) (drop 16 buffer)), True))"

definition velocitor_rpmsg_drain ::
  "'h pci_bus \<Rightarrow> 'h velocitor_state \<Rightarrow> 'h velocitor_state option" where
  "velocitor_rpmsg_drain B = drain_loop (\<lambda>s. velocitor_vq_pop B s VEL_VQ_CTRL_TX) (rpmsg_serve B)"

section \<open>What the control plane keeps\<close>

text \<open>Everything the control plane leaves alone: all but interrupts, errors and the allocator.\<close>

definition ctrl_rest :: "'h velocitor_state \<Rightarrow> _" where
  "ctrl_rest s = (queues_of s, firmware_of s, window_of s, dma_of s, store_of s)"

definition ctrl_inv :: "'h velocitor_state \<Rightarrow> 'h velocitor_state \<Rightarrow> bool" where
  "ctrl_inv c s \<longleftrightarrow> ctrl_rest s = ctrl_rest c \<and> heap_ok s \<and> heap_older c s"

lemma ctrl_inv_rest: "rest_of t = rest_of s \<Longrightarrow> ctrl_inv c t = ctrl_inv c s"
  using heap_ok_cong [of t s] heap_older_cong [of t s c]
  by (simp add: ctrl_inv_def ctrl_rest_def rest_of_def)

lemmas ctrl_inv_simps = push_rest [THEN ctrl_inv_rest] error_qualify_rest [THEN ctrl_inv_rest]
  trace_rest [THEN ctrl_inv_rest]

lemma announced_rest: "rest_of (s\<lparr>rpmsg_announced := b\<rparr>) = rest_of s"
  by (simp add: rest_of_def frames)

lemma rpmsg_send_rest: "velocitor_rpmsg_send B s src dst p = (t, b) \<Longrightarrow> rest_of t = rest_of s"
  by (auto simp: velocitor_rpmsg_send_def Let_def push_rest rest_simps
      dest!: pop_rest host_write_rest split: if_splits prod.splits option.splits bool.splits)

lemma rpmsg_announce_rest: "rest_of (velocitor_rpmsg_announce B s) = rest_of s"
  by (auto simp: velocitor_rpmsg_announce_def trace_rest announced_rest dest!: rpmsg_send_rest
      split: prod.splits bool.splits)

lemma alloc_block_rest:
  assumes "velocitor_alloc_block s req = (t, r)"
  shows "ctrl_rest t = ctrl_rest s"
proof -
  have "ctrl_rest (fst (velocitor_alloc_block s req)) = ctrl_rest s"
    by (simp add: velocitor_alloc_block_def Let_def case_prod_beta ctrl_rest_def frames)
  with assms show ?thesis by simp
qed

lemma free_block_rest:
  assumes "velocitor_free_block s h = (t, e)"
  shows "ctrl_rest t = ctrl_rest s"
proof -
  have "ctrl_rest (fst (velocitor_free_block s h)) = ctrl_rest s"
    by (simp add: velocitor_free_block_def ctrl_rest_def frames)
  with assms show ?thesis by simp
qed

lemma ctrl_op_inv: "ctrl_inv c s \<Longrightarrow> ctrl_op s op data = (t, r) \<Longrightarrow> ctrl_inv c t"
  by (auto simp: ctrl_op_def Let_def ctrl_inv_def alloc_block_rest free_block_rest
      split: if_splits prod.splits sum.splits intro: alloc_block_heap_ok free_block_heap_ok
        older_trans alloc_block_older free_block_older)

lemma rpmsg_recv_inv:
  assumes "ctrl_inv c s"
  shows "ctrl_inv c (velocitor_rpmsg_recv B s src data)"
proof -
  obtain t st p where op: "ctrl_op s (cm_op (get_ctrl data)) data = (t, st, p)"
    by (metis prod_cases3)
  have "ctrl_inv c t" using ctrl_op_inv [OF assms op] .
  moreover have "ctrl_inv c (fst (velocitor_rpmsg_send B u a b q)) = ctrl_inv c u" for u a b q
    using rpmsg_send_rest [THEN ctrl_inv_rest, of B u a b q _ _ c] prod.collapse by metis
  ultimately show ?thesis using assms op
    by (simp add: velocitor_rpmsg_recv_def Let_def ctrl_inv_simps)
qed

lemma rpmsg_serve_inv:
  assumes "ctrl_inv c s" and "rpmsg_serve B e s = (t, b)"
  shows "ctrl_inv c t"
  using assms
  by (auto simp: rpmsg_serve_def Let_def ctrl_inv_simps rpmsg_recv_inv
      dest!: host_read_rest [THEN ctrl_inv_rest, of _ _ _ _ _ _ _ c]
      split: if_splits prod.splits bool.splits)

interpretation rpmsg: loop_keeps "\<lambda>s. velocitor_vq_pop B s VEL_VQ_CTRL_TX" "rpmsg_serve B" "ctrl_inv c"
  for B c
  by unfold_locales (use pop_rest [THEN ctrl_inv_rest] rpmsg_serve_inv in blast)+

lemma rpmsg_drain_inv: "velocitor_rpmsg_drain B s = Some t \<Longrightarrow> ctrl_inv c s \<Longrightarrow> ctrl_inv c t"
  unfolding velocitor_rpmsg_drain_def by (rule rpmsg.drain_inv)


section \<open>The control loop ends\<close>

text \<open>
  The loop takes the heads between the cursor of the device and the available index it reads from
  the ring. Only a pop of the queue itself moves its cursor.
\<close>

definition cursor_of :: "nat \<Rightarrow> 'h velocitor_state \<Rightarrow> u16" where
  "cursor_of q s = ucast (q_last_avail (vq s q))"

lemma cursor_same: "vq t = vq s \<Longrightarrow> cursor_of q t = cursor_of q s"
  by (simp add: cursor_of_def)

lemma cursor_simps [simp]:
  "cursor_of q (velocitor_raise s v) = cursor_of q s"
  "cursor_of q (velocitor_error_qualify s c i n h) = cursor_of q s"
  "cursor_of q (velocitor_error_set s c i) = cursor_of q s"
  "cursor_of q (velocitor_trace s l e n m) = cursor_of q s"
  "cursor_of q (cnt_add r k s) = cursor_of q s"
  "cursor_of q (vq_trap s p x) = cursor_of q s"
  "cursor_of q (bad_desc s p x) = cursor_of q s"
  "cursor_of q (s\<lparr>rpmsg_announced := b\<rparr>) = cursor_of q s"
  "cursor_of q (s\<lparr>host := g\<rparr>) = cursor_of q s"
  "cursor_of q (s\<lparr>mem := w\<rparr>) = cursor_of q s"
  by (simp_all add: cursor_of_def vq_trap_def bad_desc_def)

lemma cursor_read: "velocitor_vq_host_read B s p x buf = (t, r) \<Longrightarrow> cursor_of q t = cursor_of q s"
  by (auto simp: velocitor_vq_host_read_def Let_def split: if_splits prod.splits)

lemma cursor_read16: "host_read16 B s p x = (t, r) \<Longrightarrow> cursor_of q t = cursor_of q s"
  by (auto simp: host_read16_def dest: cursor_read split: prod.splits)

lemma cursor_write: "velocitor_vq_host_write B s p x buf = (t, r) \<Longrightarrow> cursor_of q t = cursor_of q s"
  by (auto simp: velocitor_vq_host_write_def Let_def split: if_splits prod.splits)

lemma cursor_set: "p \<noteq> q \<Longrightarrow> cursor_of q (set_vq p f s) = cursor_of q s"
  by (simp add: cursor_of_def)

lemma cursor_push [simp]: "cursor_of q (velocitor_vq_push B s p h n) = cursor_of q s"
  by (auto simp: velocitor_vq_push_def
      dest!: cursor_read16 [of _ _ _ _ _ _ q] cursor_write [of _ _ _ _ _ _ _ q]
      split: prod.splits option.splits bool.splits)

lemma cursor_pop_other: "p \<noteq> q \<Longrightarrow> velocitor_vq_pop B s p = (t, r) \<Longrightarrow> cursor_of q t = cursor_of q s"
  by (auto simp: velocitor_vq_pop_def cursor_set dest!: cursor_read16 [of _ _ _ _ _ _ q]
      cursor_read [of _ _ _ _ _ _ _ q] split: if_splits prod.splits option.splits)

text \<open>A pop that returns a head used one up.\<close>

lemma host_read_same: "velocitor_vq_host_read B s q a buf = (t, r) \<Longrightarrow> host t = host s \<and> vq t = vq s"
  by (auto simp: velocitor_vq_host_read_def vq_trap_def Let_def split: if_splits prod.splits)

lemma host_read16_same:
  "host_read16 B s q a = (t, r) \<Longrightarrow> host t = host s \<and> vq t = vq s \<and> (r \<noteq> None \<longrightarrow> r = Some (word_at B s a))"
  by (auto simp: host_read16_def velocitor_vq_host_read_def vq_trap_def Let_def word_at_def
      numeral_2_eq_2 split: if_splits prod.splits)

lemma pop_head_Some:
  assumes "velocitor_vq_pop_head B s q = (t, Some e)"
  shows "vq t = (vq s)(q := avail_advance (vq s q)) \<and> avail_idx B s q \<noteq> cursor_of q s"
  using assms
  by (auto simp: velocitor_vq_pop_head_def avail_idx_def cursor_of_def dest!: host_read16_same
      split: if_splits prod.splits option.splits)

lemma pop_Some:
  assumes "velocitor_vq_pop B s q = (t, Some e)"
  shows "vq t = (vq s)(q := avail_advance (vq s q)) \<and> avail_idx B s q \<noteq> cursor_of q s"
  using assms
  by (auto simp: velocitor_vq_pop_def avail_idx_def cursor_of_def dest!: host_read16_same host_read_same
      split: if_splits prod.splits option.splits)

lemma no_more_heads:
  assumes "avail_idx B u q = cursor_of q u"
  shows "snd (velocitor_vq_pop B u q) = None" and "snd (velocitor_vq_pop_head B u q) = None"
  using assms pop_Some [of B u q] pop_head_Some [of B u q]
  by (metis not_None_eq prod.collapse)+

lemma cursor_advance: "vq t = (vq s)(q := avail_advance (vq s q)) \<Longrightarrow> cursor_of q t = cursor_of q s + 1"
  by (simp add: cursor_of_def avail_advance_def narrow_widen narrow_add)

lemma rpmsg_send_cursor: "velocitor_rpmsg_send B s x y p = (t, r) \<Longrightarrow> cursor_of 1 t = cursor_of 1 s"
  by (auto simp: velocitor_rpmsg_send_def Let_def
      dest!: cursor_pop_other [OF zero_neq_one] cursor_write [of _ _ _ _ _ _ _ 1]
      split: if_splits prod.splits option.splits bool.splits)

lemma ctrl_op_cursor: "ctrl_op s op data = (t, r) \<Longrightarrow> cursor_of q t = cursor_of q s"
proof -
  have al: "cursor_of q (fst (velocitor_alloc_block s req)) = cursor_of q s" for req
    by (rule cursor_same) (simp add: velocitor_alloc_block_def Let_def case_prod_beta)
  have fr: "cursor_of q (fst (velocitor_free_block s h)) = cursor_of q s" for h
    by (rule cursor_same) (simp add: velocitor_free_block_def)
  assume "ctrl_op s op data = (t, r)"
  then show ?thesis using al fr
    by (auto simp: ctrl_op_def Let_def split: if_splits prod.splits sum.splits) (metis fst_conv)+
qed

lemma rpmsg_recv_cursor: "cursor_of 1 (velocitor_rpmsg_recv B s src data) = cursor_of 1 s"
proof -
  obtain t st p where op: "ctrl_op s (cm_op (get_ctrl data)) data = (t, st, p)"
    by (metis prod_cases3)
  have "cursor_of 1 (fst (velocitor_rpmsg_send B u x y z)) = cursor_of 1 u" for u x y z
    using rpmsg_send_cursor [of B u x y z] by (cases "velocitor_rpmsg_send B u x y z") simp
  with op ctrl_op_cursor [OF op] show ?thesis
    by (simp add: velocitor_rpmsg_recv_def Let_def)
qed

lemma rpmsg_serve_cursor: "rpmsg_serve B e s = (t, r) \<Longrightarrow> cursor_of 1 t = cursor_of 1 s"
  by (auto simp: rpmsg_serve_def Let_def rpmsg_recv_cursor [simplified]
      dest!: cursor_read [of _ _ _ _ _ _ _ 1] split: if_splits prod.splits bool.splits)

interpretation rpmsg_ends: loop_ends "\<lambda>s. velocitor_vq_pop B s VEL_VQ_CTRL_TX" "rpmsg_serve B"
  "\<lambda>s. avail_idx B s 1" "cursor_of 1"
  for B
proof (unfold_locales, goal_cases)
  case (1 s t e)
  then show ?case using pop_Some [of B s 1 t e] cursor_advance [of t s 1] by simp
next
  case (2 e s t b)
  then show ?case by (rule rpmsg_serve_cursor)
qed

lemma host_read_ok:
  assumes "readable B s a (length buf)"
  shows "\<exists>t. velocitor_vq_host_read B s q a buf = (t, fst (pci_dma_read B (host s) a (length buf)), True)
     \<and> vq t = vq s \<and> host t = host s"
  using assms no_trap [of a "length buf"]
  by (auto simp: velocitor_vq_host_read_def readable_def Let_def split: prod.split)

lemma pop_ok:
  assumes "readable B s (vq_avail_addr (vq s q) + 2) 2"
    and "avail_idx B s q \<noteq> ucast (q_last_avail (vq s q))"
    and "readable B s (slot_addr (vq s q) (ucast (q_last_avail (vq s q)))) 2"
    and "head = word_at B s (slot_addr (vq s q) (ucast (q_last_avail (vq s q))))"
    and "ucast head < q_num (vq s q)"
    and "readable B s (vq_desc_addr (vq s q) + ucast head * 16) 16"
    and "d = get_desc (fst (pci_dma_read B (host s) (vq_desc_addr (vq s q) + ucast head * 16) 16))"
  shows "\<exists>t. velocitor_vq_pop B s q = (t, Some (head, d_addr d, d_len d))
     \<and> host t = host s \<and> vq t = (vq s)(q := avail_advance (vq s q))"
proof -
  obtain u where u: "host_read16 B s q (vq_avail_addr (vq s q) + 2) = (u, Some (avail_idx B s q))"
    "vq u = vq s" "host u = host s"
    using host_read16_ok [OF assms(1)] by (auto simp: avail_idx_def)
  let ?a = "slot_addr (vq s q) (ucast (q_last_avail (vq s q)))"
  have "readable B u ?a 2" using assms(3) u(3) by (simp add: readable_def)
  from host_read16_ok [OF this] obtain w where
    w: "host_read16 B u q ?a = (w, Some head)" "vq w = vq s" "host w = host s"
    using u assms(4) by (auto simp: word_at_def)
  have a: "vq_avail_addr (vq s q) + VEL_AVAIL_OFF_RING + ucast (avail_slot (vq s q)) * 2 = ?a"
    by (simp add: slot_addr_def avail_slot_def)
  have "readable B w (vq_desc_addr (vq s q) + ucast head * 16) (length (replicate 16 (0 :: u8)))"
    using assms(6) w(3) by (simp add: readable_def)
  from host_read_ok [OF this, of q] obtain v where
    v: "velocitor_vq_host_read B w q (vq_desc_addr (vq s q) + ucast head * 16) (replicate 16 0)
        = (v, fst (pci_dma_read B (host s) (vq_desc_addr (vq s q) + ucast head * 16) 16), True)"
      "vq v = vq s" "host v = host s"
    using w by auto
  show ?thesis
    using u w v a assms(2,5,7) by (simp add: velocitor_vq_pop_def not_le)
qed

section \<open>Properties\<close>

text \<open>Reading back what the sender encoded.\<close>

lemma get_put_ctrl: "get_ctrl (put_ctrl m @ p) = m"
  by (simp add: get_ctrl_def put_ctrl_def get_le_skip)

lemma get_put_alloc_resp:
  "get_le 0 4 (put_alloc_resp r) = aresp_handle r" "get_le 4 4 (put_alloc_resp r) = aresp_node r"
  "get_le 8 4 (put_alloc_resp r) = aresp_generation r"
  "get_le 16 8 (put_alloc_resp r) = aresp_dev_offset r"
  by (simp_all add: put_alloc_resp_def get_le_skip)

lemma length_put [simp]:
  "length (put_ctrl m) = 16" "length (put_info i) = 28" "length (put_alloc_resp r) = 24"
  "length (rpmsg_hdr a b n) = 16" "length (put_stat (velocitor_stat_fill s)) = 40"
  by (simp_all add: put_ctrl_def put_info_def put_alloc_resp_def rpmsg_hdr_def put_stat_def
      velocitor_stat_fill_def upt_rec)

text \<open>Every control request of at least a header is answered: the answer carries back the request's
  sequence number and operation, its status is the errno of the operation, its payload has the
  length of the operation's response when the status is zero and is empty otherwise, and the whole
  rpmsg buffer is at most 72 bytes, so it fits the 512-byte buffers the host lends.\<close>

lemma ctrl_request_answered:
  assumes "16 \<le> length data"
  shows "\<exists>t status payload. ctrl_op s (cm_op (get_ctrl data)) data = (t, status, payload)
     \<and> velocitor_rpmsg_recv B s src data =
         fst (velocitor_rpmsg_send B
           (velocitor_trace t VEL_TRACE_LEVEL_INFO VEL_TRACE_ENGINE_NONE (get_le 0 4 data)
              (str ''control op '' @ fmt_u (get_le 4 2 data :: u16) @ str '' from address '' @ fmt_u src))
           VEL_RPMSG_CTRL_ADDR src
           (put_ctrl \<lparr>cm_seq = get_le 0 4 data, cm_op = get_le 4 2 data, cm_flags = 0,
              cm_status = status, cm_reserved = 0\<rparr> @ payload))
     \<and> (status \<noteq> 0 \<longrightarrow> payload = []) \<and> 16 + (16 + length payload) \<le> 72"
proof -
  obtain t st p where op: "ctrl_op s (cm_op (get_ctrl data)) data = (t, st, p)"
    by (metis prod_cases3)
  have "(st \<noteq> 0 \<longrightarrow> p = []) \<and> length p \<le> 40"
    using op by (auto simp: ctrl_op_def Let_def split: if_splits prod.splits sum.splits)
  moreover have "\<not> length data < 16" using assms by simp
  ultimately show ?thesis using op
    by (intro exI [of _ t] exI [of _ st] exI [of _ p])
      (simp add: velocitor_rpmsg_recv_def get_ctrl_def Let_def)
qed

definition no_bus :: "unit pci_bus" where
  "no_bus = \<lparr>pci_dma_read = \<lambda>m a n. (replicate n 0, False), pci_dma_write = \<lambda>m a bs. (m, False)\<rparr>"

lemma ctrl_request_answered_witness:
  "\<exists>t status payload. ctrl_op one_block 4 (put_le 4 (9 :: u32) @ put_le 2 (4 :: u16) @ replicate 10 0)
     = (t, status, payload)"
  using ctrl_request_answered [of "put_le 4 (9 :: u32) @ put_le 2 (4 :: u16) @ replicate 10 0" one_block
      no_bus 0]
  by (auto simp: get_ctrl_def get_le_skip)

text \<open>The control operations, branch by branch: INFO and STAT change nothing and succeed; ALLOC and FREE
  shorter than their request are refused with EINVAL without touching the allocator; an unknown
  operation answers ENOSYS; and every operation keeps the allocator's invariant.\<close>

lemma ctrl_op_branches:
  assumes "heap_ok s" and "ctrl_op s op data = (t, status, payload)"
  shows "heap_ok t
     \<and> (op = VEL_OP_INFO \<longrightarrow> t = s \<and> status = 0 \<and> get_le 24 4 payload = generation s
          \<and> get_le 12 4 payload = (VEL_NODES :: u32) \<and> get_le 20 4 payload = (VEL_ALLOC_ALIGN :: u32))
     \<and> (op = VEL_OP_ALLOC \<and> length data < 32 \<longrightarrow> t = s \<and> status = - 22)
     \<and> (op = VEL_OP_FREE \<and> length data < 24 \<longrightarrow> t = s \<and> status = - 22)
     \<and> (op = VEL_OP_STAT \<longrightarrow> t = s \<and> status = 0 \<and> get_le 32 4 payload = live_handles s
          \<and> get_le 8 8 payload = velocitor_node_free s 0 \<and> get_le 24 8 payload = velocitor_node_free s 1)
     \<and> (op \<notin> {VEL_OP_INFO, VEL_OP_ALLOC, VEL_OP_FREE, VEL_OP_STAT} \<longrightarrow> t = s \<and> status = - 38)"
proof -
  have "ctrl_inv s s" using assms(1) by (simp add: ctrl_inv_def)
  then have "heap_ok t" using ctrl_op_inv [OF _ assms(2), of s] by (simp add: ctrl_inv_def)
  moreover have "errno32 (- 22) = - 22" "errno32 (- 38) = - 38" by (simp_all add: errno32_def)
  moreover have "put_stat (velocitor_stat_fill s) =
      put_le 8 (velocitor_node_end 0 - velocitor_node_base 0) @ put_le 8 (velocitor_node_free s 0) @
      put_le 8 (velocitor_node_end 1 - velocitor_node_base 1) @ put_le 8 (velocitor_node_free s 1) @
      put_le 4 (live_handles s) @ put_le 4 (0 :: u32)"
    by (simp add: put_stat_def velocitor_stat_fill_def upt_rec)
  ultimately show ?thesis using assms(2)
    by (auto simp: ctrl_op_def Let_def put_info_def info_fill_def get_le_skip split: if_splits)
qed

lemma ctrl_op_branches_witness:
  "get_le 32 4 (put_stat (velocitor_stat_fill one_block)) = (1 :: u32)"
proof -
  have "ctrl_op one_block 4 [] = (one_block, 0, put_stat (velocitor_stat_fill one_block))"
    by (simp add: ctrl_op_def)
  from ctrl_op_branches [OF one_block_ok this] show ?thesis by (simp add: one_block_simps)
qed

text \<open>Serving the control ring, however many requests the host published and whatever they hold,
  leaves the queue descriptions, the firmware state, the window, the bring-up DMA and all of device
  memory outside the trace ring as they were, and keeps the allocator's invariant.\<close>

lemma control_drain_confined:
  assumes "velocitor_rpmsg_drain B s = Some t" and "heap_ok s"
  shows "queues_of t = queues_of s \<and> firmware_of t = firmware_of s \<and> window_of t = window_of s
     \<and> dma_of t = dma_of s \<and> store_of t = store_of s \<and> heap_ok t"
proof -
  have "ctrl_inv s s" using assms(2) by (simp add: ctrl_inv_def)
  with assms(1) have "ctrl_inv s t" by (rule rpmsg_drain_inv)
  then show ?thesis by (simp add: ctrl_inv_def ctrl_rest_def)
qed

text \<open>
  One head on the transmit queue of a device over plain memory: available ring, descriptors and used
  ring apart, and a buffer too short to hold a message.
\<close>

definition one_head :: "nat \<Rightarrow> store velocitor_state" where
  "one_head q = set_vq q (\<lambda>v. v\<lparr>q_num := 4, q_avail_lo := 0x1000, q_used_lo := 0x3000, q_desc_lo := 0x2000\<rparr>)
     (velocitor_alloc_reset (velocitor_new (mem_store (\<lambda>_. 0) 0x1002 (put_le 2 (1 :: u16)))))"

lemma zero_bytes:
  "replicate 2 (0 :: u8) = [0, 0]" "replicate 8 (0 :: u8) = [0, 0, 0, 0, 0, 0, 0, 0]"
  "replicate 16 (0 :: u8) = [0, 0, 0, 0, 0, 0, 0, 0, 0, 0, 0, 0, 0, 0, 0, 0]"
  by (simp_all add: numeral_eq_Suc)

lemma one_head_layout:
  assumes "q < 4"
  shows "vq_avail_addr (vq (one_head q) q) = 0x1000" "vq_used_addr (vq (one_head q) q) = 0x3000"
    "vq_desc_addr (vq (one_head q) q) = 0x2000" "q_num (vq (one_head q) q) = 4"
    "q_last_avail (vq (one_head q) q) = 0"
    "host (one_head q) = mem_store (\<lambda>_. 0) 0x1002 (put_le 2 (1 :: u16))"
  by (simp_all add: one_head_def velocitor_alloc_reset_def velocitor_new_def no_queue_def vq_avail_addr_def
      vq_used_addr_def vq_desc_addr_def addr64_def)

lemma one_head_words:
  assumes "host s = mem_store (\<lambda>_. 0) 0x1002 (put_le 2 (1 :: u16))"
  shows "word_at ram_bus s 0x1002 = 1" "word_at ram_bus s 0x1004 = 0"
    "mem_load (host s) 0x2000 16 = replicate 16 0"
proof -
  show "word_at ram_bus s 0x1002 = 1" using assms by (simp add: word_at_def)
  show "word_at ram_bus s 0x1004 = 0" using assms
    by (simp add: word_at_def mem_load_store_other) (simp add: mem_load_def get_le_def map_replicate_const)
  show "mem_load (host s) 0x2000 16 = replicate 16 0" using assms
    by (simp add: mem_load_store_other) (simp add: mem_load_def map_replicate_const zero_bytes)
qed

text \<open>The head taken and pushed back: nothing is left on the ring.\<close>

lemma one_head_pushed:
  assumes "vq t = (vq (one_head q))(q := avail_advance (vq (one_head q) q))" and "q < 4"
    and "host t = host (one_head q)"
  shows "avail_idx ram_bus (velocitor_vq_push ram_bus t q 0 0) q = 1"
    and "cursor_of q (velocitor_vq_push ram_bus t q 0 0) = 1"
proof -
  let ?g = "mem_store (host t) 0x3004 (replicate 8 0)"
  let ?h = "mem_store ?g 0x3002 (put_le 2 (1 :: u16))"
  note L = one_head_layout [OF assms(2)]
  have v: "vq_used_addr (vq t q) = 0x3000" "q_num (vq t q) = 4" "vq_avail_addr (vq t q) = 0x1000"
    "q_last_avail (vq t q) = 1"
    using assms(1) L by (simp_all add: avail_advance_def vq_used_addr_def vq_avail_addr_def)
  have z: "word_at ram_bus t 0x3002 = 0"
    using assms(3) L(6) by (simp add: word_at_def mem_load_store_other)
      (simp add: mem_load_def get_le_def map_replicate_const)
  have e: "put_le 4 (ucast (0 :: u16) :: u32) @ put_le 4 (0 :: u32) = replicate 8 0"
    by (simp add: put_le_def zero_bytes)
  have "readable ram_bus t (vq_used_addr (vq t q) + 2) 2" "0 = word_at ram_bus t (vq_used_addr (vq t q) + 2)"
    "0x3004 = vq_used_addr (vq t q) + 4 + ucast (ucast (0 :: u16) mod q_num (vq t q)) * 8"
    "unat (0x3004 :: u64) + 8 \<le> 2 ^ VEL_DMA_BITS"
    using v z by (simp_all add: readable_def)
  from push_ok [OF this, of 0 0 ?g ?h] have "host (velocitor_vq_push ram_bus t q 0 0) = ?h
      \<and> vq (velocitor_vq_push ram_bus t q 0 0) = vq t"
    by (simp only: ram_bus_simps e v) auto
  then show "avail_idx ram_bus (velocitor_vq_push ram_bus t q 0 0) q = 1"
    "cursor_of q (velocitor_vq_push ram_bus t q 0 0) = 1"
    using v(3,4) assms(3) L(6) by (simp_all add: avail_idx_def cursor_of_def word_at_def mem_load_store_other)
qed

lemma one_head_pop:
  "\<exists>t. velocitor_vq_pop ram_bus (one_head 1) 1 = (t, Some (0, 0, 0))
     \<and> host t = host (one_head 1) \<and> vq t = (vq (one_head 1))(1 := avail_advance (vq (one_head 1) 1))"
proof -
  have z: "get_desc (replicate 16 0) = \<lparr>d_addr = 0, d_len = 0, d_flags = 0, d_next = 0\<rparr>"
    by (simp add: get_desc_def get_le_def numeral_eq_Suc)
  have one: "(1 :: nat) < 4" by simp
  note L = one_head_layout [OF one]
  have s: "slot_addr (vq (one_head 1) 1) 0 = 0x1004" by (simp add: slot_addr_def L del: One_nat_def)
  show ?thesis
    using pop_ok [of ram_bus "one_head 1" 1 0 "get_desc (replicate 16 0)"]
      one_head_words [OF one_head_layout(6) [of 1]] L s
    by (simp add: readable_def avail_idx_def z del: One_nat_def)
qed

text \<open>C22. Serving the control ring ends: as long as the driver publishes no further head while the loop
  runs (every pass finds the available index the first one found, as it does unless the driver or a
  used ring laid over the available ring changes it), the loop returns, having taken at most the
  heads that were pending when it began.\<close>

lemma control_drain_returns:
  assumes "\<And>n t. drain_pass (\<lambda>s. velocitor_vq_pop B s VEL_VQ_CTRL_TX) (rpmsg_serve B) n s = Some t
     \<Longrightarrow> avail_idx B t VEL_VQ_CTRL_TX = avail_idx B s VEL_VQ_CTRL_TX"
  shows "\<exists>t. velocitor_rpmsg_drain B s = Some t
     \<and> drain_within (\<lambda>s. velocitor_vq_pop B s VEL_VQ_CTRL_TX) (rpmsg_serve B)
         (length (pending_heads B s VEL_VQ_CTRL_TX)) s = Some t"
  using rpmsg_ends.drain_returns [of B s] assms
  by (simp add: velocitor_rpmsg_drain_def cursor_of_def pending_heads_def Let_def)

lemma control_drain_returns_witness:
  "\<exists>t. velocitor_rpmsg_drain ram_bus (one_head 1) = Some t
     \<and> drain_within (\<lambda>s. velocitor_vq_pop ram_bus s 1) (rpmsg_serve ram_bus) 1 (one_head 1) = Some t"
proof -
  obtain t where t: "velocitor_vq_pop ram_bus (one_head 1) 1 = (t, Some (0, 0, 0))"
    "host t = host (one_head 1)" "vq t = (vq (one_head 1))(1 := avail_advance (vq (one_head 1) 1))"
    using one_head_pop by blast
  let ?t = "velocitor_error_qualify t VEL_ERR_BAD_DESC 0 (q_notifyid (vq t 1)) 0"
  let ?u = "velocitor_vq_push ram_bus ?t 1 0 0"
  have sv: "rpmsg_serve ram_bus (0, 0, 0) t = (?u, True)" by (simp add: rpmsg_serve_def)
  have u: "avail_idx ram_bus ?u 1 = 1" "cursor_of 1 ?u = 1"
    using one_head_pushed [of ?t 1] t(2,3) by simp_all
  then have "snd (velocitor_vq_pop ram_bus ?u 1) = None" by (intro no_more_heads) simp
  then obtain v where "velocitor_vq_pop ram_bus ?u 1 = (v, None)" by (metis prod.collapse)
  note P = one_pass_states [of "\<lambda>s. velocitor_vq_pop ram_bus s 1" _ _ _ "rpmsg_serve ram_bus", OF t(1) sv this]
  have i: "avail_idx ram_bus (one_head 1) 1 = 1"
    using one_head_words(1) [OF one_head_layout(6) [of 1]] one_head_layout(1) [of 1]
    by (simp add: avail_idx_def)
  have "avail_idx ram_bus x VEL_VQ_CTRL_TX = avail_idx ram_bus (one_head 1) VEL_VQ_CTRL_TX"
    if "drain_pass (\<lambda>s. velocitor_vq_pop ram_bus s VEL_VQ_CTRL_TX) (rpmsg_serve ram_bus) n (one_head 1) = Some x"
    for n x using P [of n x] that u(1) i by auto
  note R = control_drain_returns [OF this]
  have "length (pending_heads ram_bus (one_head 1) 1) = 1"
    using i one_head_layout(5) [of 1] by (simp add: pending_heads_def Let_def del: One_nat_def)
  with R show ?thesis by simp
qed
lemma control_drain_confined_witness:
  "\<exists>t :: store velocitor_state. heap_ok t \<and> dma_of t = dma_of (velocitor_alloc_reset (velocitor_new ring_ram))"
proof -
  let ?s = "velocitor_alloc_reset (velocitor_new ring_ram)"
  have "velocitor_vq_pop ram_bus ?s 1 = (t, r) \<Longrightarrow> r = None" for t r
    by (auto simp: velocitor_vq_pop_def host_read16_def velocitor_vq_host_read_def Let_def addr64_def
        vq_avail_addr_def velocitor_alloc_reset_def velocitor_new_def no_queue_def ring_ram_def
        get_le_def mem_load_def mem_store_def upt_rec split: if_splits)
  then have "\<exists>t. velocitor_rpmsg_drain ram_bus ?s = Some t"
    unfolding velocitor_rpmsg_drain_def
    by (subst drain_loop.simps) (auto split: prod.split option.split)
  then obtain t where "velocitor_rpmsg_drain ram_bus ?s = Some t" ..
  from control_drain_confined [OF this alloc_reset_heap_ok] show ?thesis by (intro exI [of _ t]) simp
qed


section \<open>A ring layout on which the loop never ends\<close>

text \<open>
  The used ring of a one-entry transmit queue laid over its available ring, and a buffer too short
  to hold a message: every answer the device pushes looks like a new request.
\<close>

definition overlapped :: "store velocitor_state \<Rightarrow> bool" where
  "overlapped s \<longleftrightarrow> vq_avail_addr (vq s 1) = 0x1000 \<and> vq_used_addr (vq s 1) = 0x1000
     \<and> vq_desc_addr (vq s 1) = 0x2000 \<and> q_num (vq s 1) = 1
     \<and> word_at ram_bus s 0x1002 \<noteq> ucast (q_last_avail (vq s 1))
     \<and> word_at ram_bus s 0x1004 = 0 \<and> mem_load (host s) 0x2000 16 = replicate 16 0"

lemma overlapped_pop:
  assumes "overlapped s"
  shows "\<exists>t. velocitor_vq_pop ram_bus s 1 = (t, Some (0, 0, 0)) \<and> host t = host s
     \<and> vq t = (vq s)(1 := avail_advance (vq s 1))"
proof -
  have z: "get_desc (replicate 16 0) = \<lparr>d_addr = 0, d_len = 0, d_flags = 0, d_next = 0\<rparr>"
    by (simp add: get_desc_def get_le_def numeral_eq_Suc)
  have sl: "slot_addr (vq s 1) n = 0x1004" for n
    using assms by (simp add: overlapped_def slot_addr_def)
  show ?thesis
    using pop_ok [of ram_bus s 1 0 "get_desc (replicate 16 0)"] assms sl
    by (simp add: overlapped_def readable_def avail_idx_def z del: One_nat_def)
qed

lemma overlapped_push:
  assumes "vq_used_addr (vq s 1) = 0x1000" and "q_num (vq s 1) = 1"
    and "i = word_at ram_bus s 0x1002"
  shows "host (velocitor_vq_push ram_bus s 1 0 0)
      = mem_store (mem_store (host s) 0x1004 (replicate 8 0)) 0x1002 (put_le 2 (i + 1))
    \<and> vq (velocitor_vq_push ram_bus s 1 0 0) = vq s"
proof -
  have e: "put_le 4 (ucast (0 :: u16) :: u32) @ put_le 4 (0 :: u32) = replicate 8 0"
    by (simp add: put_le_def zero_bytes)
  have "readable ram_bus s (vq_used_addr (vq s 1) + 2) 2" "i = word_at ram_bus s (vq_used_addr (vq s 1) + 2)"
    "0x1004 = vq_used_addr (vq s 1) + 4 + ucast (ucast i mod q_num (vq s 1)) * 8"
    "unat (0x1004 :: u64) + 8 \<le> 2 ^ VEL_DMA_BITS"
    using assms by (simp_all add: readable_def)
  from push_ok [OF this, of 0 0 "mem_store (host s) 0x1004 (replicate 8 0)"
      "mem_store (mem_store (host s) 0x1004 (replicate 8 0)) 0x1002 (put_le 2 (i + 1))"]
  have "\<exists>t. velocitor_vq_push ram_bus s 1 0 0 = velocitor_raise t (q_msix_vector (vq s 1))
      \<and> host t = mem_store (mem_store (host s) 0x1004 (replicate 8 0)) 0x1002 (put_le 2 (i + 1))
      \<and> vq t = vq s"
    by (simp only: ram_bus_simps e assms(1)) simp
  then show ?thesis by auto
qed

lemma overlapped_step:
  assumes "overlapped s" and "host t = host s" and "vq t = (vq s)(1 := avail_advance (vq s 1))"
    and "host u = mem_store (mem_store (host t) 0x1004 (replicate 8 0)) 0x1002
           (put_le 2 (word_at ram_bus t 0x1002 + 1))"
    and "vq u = vq t"
  shows "overlapped u"
proof -
  have v: "vq_avail_addr (vq u 1) = 0x1000" "vq_used_addr (vq u 1) = 0x1000"
    "vq_desc_addr (vq u 1) = 0x2000" "q_num (vq u 1) = 1"
    "(ucast (q_last_avail (vq u 1)) :: u16) = ucast (q_last_avail (vq s 1)) + 1"
    using assms(1,3,5)
    by (simp_all add: overlapped_def avail_advance_def vq_avail_addr_def vq_used_addr_def
        vq_desc_addr_def narrow_widen narrow_add)
  have w: "word_at ram_bus u 0x1002 = word_at ram_bus s 0x1002 + 1"
    using assms(2,4) by (simp add: word_at_def)
  have "mem_load (mem_store (host t) 0x1004 (replicate 8 0)) 0x1004 2 = replicate 2 0"
    using mem_load_sub [of 0 2 8 "mem_store (host t) 0x1004 (replicate 8 0)" "0x1004"] by simp
  then have "word_at ram_bus u 0x1004 = 0"
    using assms(4) by (simp add: word_at_def mem_load_store_other get_le_def zero_bytes)
  moreover have "mem_load (host u) 0x2000 16 = replicate 16 0"
    using assms(1,2,4) by (simp add: overlapped_def mem_load_store_other)
  moreover have "word_at ram_bus u 0x1002 \<noteq> ucast (q_last_avail (vq u 1))"
    using assms(1) v(5) by (auto simp: overlapped_def w)
  ultimately show ?thesis using v(1-4) by (simp add: overlapped_def)
qed

interpretation overlap: loop_never_ends "\<lambda>s. velocitor_vq_pop ram_bus s VEL_VQ_CTRL_TX"
  "rpmsg_serve ram_bus" overlapped
proof (unfold_locales, goal_cases)
  case (1 s)
  then obtain t where t: "velocitor_vq_pop ram_bus s 1 = (t, Some (0, 0, 0))" "host t = host s"
    "vq t = (vq s)(1 := avail_advance (vq s 1))"
    using overlapped_pop by blast
  let ?t = "velocitor_error_qualify t VEL_ERR_BAD_DESC 0 (q_notifyid (vq t 1)) 0"
  let ?u = "velocitor_vq_push ram_bus ?t 1 0 0"
  have "vq_used_addr (vq ?t 1) = 0x1000" "q_num (vq ?t 1) = 1"
    using 1 t(3) by (simp_all add: overlapped_def avail_advance_def vq_used_addr_def)
  from overlapped_push [OF this refl]
  have "host ?u = mem_store (mem_store (host t) 0x1004 (replicate 8 0)) 0x1002
      (put_le 2 (word_at ram_bus t 0x1002 + 1))" "vq ?u = vq t"
    by (simp_all add: word_at_def)
  from overlapped_step [OF 1 t(2,3) this] have "overlapped ?u" .
  moreover have "rpmsg_serve ram_bus (0, 0, 0) t = (?u, True)"
    by (simp add: rpmsg_serve_def)
  ultimately show ?case using t(1) by auto
qed

text \<open>The device can be made to spin: with the used ring of the transmit queue laid over its available
  ring, and one buffer too short to hold a message, serving the queue never returns.\<close>

lemma control_drain_can_spin:
  assumes "overlapped s"
  shows "velocitor_rpmsg_drain ram_bus s = None"
  unfolding velocitor_rpmsg_drain_def using assms by (rule overlap.drain_diverges)

lemma control_drain_can_spin_witness:
  "velocitor_rpmsg_drain ram_bus
     (set_vq 1 (\<lambda>v. v\<lparr>q_num := 1, q_avail_lo := 0x1000, q_used_lo := 0x1000, q_desc_lo := 0x2000\<rparr>)
       (velocitor_new (mem_store (\<lambda>_. 0) 0x1002 (put_le 2 (1 :: u16))))) = None"
proof (rule control_drain_can_spin)
  show "overlapped (set_vq 1 (\<lambda>v. v\<lparr>q_num := 1, q_avail_lo := 0x1000, q_used_lo := 0x1000,
      q_desc_lo := 0x2000\<rparr>) (velocitor_new (mem_store (\<lambda>_. 0) 0x1002 (put_le 2 (1 :: u16)))))"
    by (simp add: overlapped_def velocitor_new_def no_queue_def vq_avail_addr_def vq_used_addr_def
        vq_desc_addr_def addr64_def word_at_def mem_load_store_other)
      (simp add: mem_load_def get_le_def map_replicate_const zero_bytes)
qed

end
