(* ===== verification/Vel_Data.thy ===== *)
theory Vel_Data
  imports Vel_Rpmsg
begin

text \<open>
  The data plane of \<open>velocitor.c\<close>: copies between the host and a block of device memory,
  requested on the engine queues as a chain of one readable and one writable descriptor.
  \<open>engine_drain_confined\<close> is the memory-safety statement: serving changes device memory only inside
  live blocks, whatever the ring and the requests hold.
\<close>

section \<open>Wire formats of \<open>velocitor_wire.h\<close>\<close>

record vel_req_hdr =
  rq_seq :: u32
  rq_generation :: u32
  rq_op :: u16
  rq_flags :: u16

definition get_req :: "bytes \<Rightarrow> vel_req_hdr" where
  "get_req bs = \<lparr>rq_seq = get_le 0 4 bs, rq_generation = get_le 4 4 bs, rq_op = get_le 8 2 bs,
     rq_flags = get_le 10 2 bs\<rparr>"

definition put_req :: "vel_req_hdr \<Rightarrow> bytes" where
  "put_req r = put_le 4 (rq_seq r) @ put_le 4 (rq_generation r) @ put_le 2 (rq_op r) @
     put_le 2 (rq_flags r) @ put_le 4 (0 :: u32)"

record vel_copy_hdr =
  cp_handle :: u32
  cp_offset :: u64
  cp_dma_addr :: u64
  cp_len :: u64

definition get_copy :: "bytes \<Rightarrow> vel_copy_hdr" where
  "get_copy bs = \<lparr>cp_handle = get_le 0 4 bs, cp_offset = get_le 8 8 bs, cp_dma_addr = get_le 16 8 bs,
     cp_len = get_le 24 8 bs\<rparr>"

definition put_copy :: "vel_copy_hdr \<Rightarrow> bytes" where
  "put_copy h = put_le 4 (cp_handle h) @ put_le 4 (0 :: u32) @ put_le 8 (cp_offset h) @
     put_le 8 (cp_dma_addr h) @ put_le 8 (cp_len h)"

record vel_resp =
  rs_seq :: u32
  rs_status :: u32
  rs_cycles :: u64
  rs_far_accesses :: u32
  rs_engine :: u32

definition put_resp :: "vel_resp \<Rightarrow> bytes" where
  "put_resp r = put_le 4 (rs_seq r) @ put_le 4 (rs_status r) @ put_le 8 (rs_cycles r) @
     put_le 4 (rs_far_accesses r) @ put_le 4 (rs_engine r)"

definition get_resp :: "bytes \<Rightarrow> vel_resp" where
  "get_resp bs = \<lparr>rs_seq = get_le 0 4 bs, rs_status = get_le 4 4 bs, rs_cycles = get_le 8 8 bs,
     rs_far_accesses = get_le 16 4 bs, rs_engine = get_le 20 4 bs\<rparr>"

lemma get_put_wire:
  "get_req (put_req r @ p) = r" "get_copy (put_copy h) = h" "get_resp (put_resp x) = x"
  by (simp_all add: get_req_def put_req_def get_copy_def put_copy_def get_resp_def put_resp_def
      get_le_skip)

lemma length_put_wire [simp]:
  "length (put_req r) = VEL_REQ_HDR_SIZE" "length (put_copy h) = VEL_COPY_HDR_SIZE"
  "length (put_resp x) = VEL_RESP_SIZE"
  by (simp_all add: put_req_def put_copy_def put_resp_def)

section \<open>One copy\<close>

text \<open>An unsigned subtraction, which wraps below the first engine queue.\<close>

definition velocitor_queue_engine :: "nat \<Rightarrow> nat" where
  "velocitor_queue_engine q = (q + 2 ^ 32 - VEL_VQ_ENGINE0) mod 2 ^ 32"

definition velocitor_data_handle ::
  "'h velocitor_state \<Rightarrow> nat \<Rightarrow> u32 \<Rightarrow> 'h velocitor_state \<times> velocitor_alloc option" where
  "velocitor_data_handle s q handle =
     (if handle = 0 \<or> handle \<ge> next_handle s \<or> a_live (alloc s (unat (handle - 1))) = 0
      then (velocitor_error_qualify s VEL_ERR_BAD_HANDLE 0 (q_notifyid (vq s q)) handle, None)
      else (s, Some (alloc s (unat (handle - 1)))))"

text \<open>New state, cycles charged, and \<open>*far\<close>.\<close>

definition velocitor_data_charge ::
  "'h velocitor_state \<Rightarrow> nat \<Rightarrow> nat \<Rightarrow> 'h velocitor_state \<times> u64 \<times> u32" where
  "velocitor_data_charge s engine node =
     (let cycles = VEL_CYCLES_COPY :: u64;
          (s, cycles, far) = (if node \<noteq> engine
             then (cnt_add VEL_REG_CNT_FAR_ACCESS 1 s, cycles * VEL_FAR_PENALTY, 1)
             else (s, cycles, 0))
      in (cnt_add (if engine = 0 then VEL_REG_CNT_CYCLES_E0 else VEL_REG_CNT_CYCLES_E1) (ucast cycles) s,
          cycles, far))"

text \<open>New state, errno, cycles, far accesses.\<close>

definition velocitor_data_copy ::
  "'h pci_bus \<Rightarrow> 'h velocitor_state \<Rightarrow> nat \<Rightarrow> u16 \<Rightarrow> vel_copy_hdr \<Rightarrow>
     'h velocitor_state \<times> int \<times> u64 \<times> u32" where
  "velocitor_data_copy B s q op hdr =
     (let offset = cp_offset hdr; iova = cp_dma_addr hdr; len = cp_len hdr in
      case velocitor_data_handle s q (cp_handle hdr) of
        (s, None) \<Rightarrow> (s, - EINVAL, 0, 0)
      | (s, Some block) \<Rightarrow>
          if offset + len < offset \<or> offset + len > a_size block
          then (velocitor_error_qualify s VEL_ERR_OUT_OF_BOUNDS offset (q_notifyid (vq s q)) (cp_handle hdr),
                - EINVAL, 0, 0)
          else if len = 0 then (s, - EINVAL, 0, 0)
          else
            let (s, cycles, far) =
                  velocitor_data_charge s (velocitor_queue_engine q) (unat (a_node block));
                at = unat (a_offset block) + unat offset
            in if op = VEL_DATA_OP_COPY_H2D then
                 (case velocitor_vq_host_read B s q iova (mem_load (mem s) at (unat len)) of
                    (s, bs, ok) \<Rightarrow>
                      (s\<lparr>mem := mem_store (mem s) at bs\<rparr>, if ok then 0 else - EIO, cycles, far))
               else
                 (case velocitor_vq_host_write B s q iova (mem_load (mem s) at (unat len)) of
                    (s, ok) \<Rightarrow> (s, if ok then 0 else - EIO, cycles, far)))"

section \<open>Consuming an engine queue\<close>

definition put_errno :: "int \<Rightarrow> u32" where
  "put_errno e = word_of_int e"

text \<open>The generation check and the \<open>switch\<close> on the operation.\<close>

definition data_op ::
  "'h pci_bus \<Rightarrow> 'h velocitor_state \<Rightarrow> nat \<Rightarrow> bytes \<Rightarrow> 'h velocitor_state \<times> int \<times> u64 \<times> u32" where
  "data_op B s q buffer =
     (let req = get_req buffer in
      if rq_generation req \<noteq> generation s
      then (velocitor_error_qualify s VEL_ERR_STALE (ucast (rq_generation req)) (q_notifyid (vq s q)) 0,
            - ESTALE, 0, 0)
      else if rq_op req = VEL_DATA_OP_COPY_H2D \<or> rq_op req = VEL_DATA_OP_COPY_D2H then
        (if length buffer < VEL_REQ_HDR_SIZE + VEL_COPY_HDR_SIZE then (s, - EINVAL, 0, 0)
         else velocitor_data_copy B s q (rq_op req) (get_copy (drop VEL_REQ_HDR_SIZE buffer)))
      else (s, - ENOSYS, 0, 0))"

text \<open>The request is executed, the response written, the head handed back.\<close>

definition engine_execute ::
  "'h pci_bus \<Rightarrow> nat \<Rightarrow> u16 \<Rightarrow> vring_desc \<Rightarrow> bytes \<Rightarrow> 'h velocitor_state \<Rightarrow> 'h velocitor_state \<times> bool"
where
  "engine_execute B q head out buffer s =
     (let req = get_req buffer;
          (s, err, cycles, far) = data_op B s q buffer;
          resp = \<lparr>rs_seq = rq_seq req, rs_status = put_errno err, rs_cycles = cycles,
                  rs_far_accesses = far, rs_engine = word_of_nat (velocitor_queue_engine q)\<rparr>
      in case velocitor_vq_host_write B s q (d_addr out) (put_resp resp) of
           (s, False) \<Rightarrow> (s, False)
         | (s, True) \<Rightarrow>
             let s = velocitor_trace s (if err \<noteq> 0 then VEL_TRACE_LEVEL_ERROR else VEL_TRACE_LEVEL_INFO)
                       (word_of_nat (velocitor_queue_engine q)) (rq_seq req)
                       (str ''data op '' @ fmt_u (rq_op req) @ str '', status '' @ fmt_d err @
                        str '', '' @ fmt_u cycles @ str '' cycle(s)'')
             in (velocitor_vq_push B s q head VEL_RESP_SIZE, True))"

definition engine_reject ::
  "'h pci_bus \<Rightarrow> nat \<Rightarrow> u16 \<Rightarrow> u32 \<Rightarrow> 'h velocitor_state \<Rightarrow> 'h velocitor_state \<times> bool" where
  "engine_reject B q head len s = (velocitor_vq_push B (bad_desc s q (ucast len)) q head 0, True)"

text \<open>One iteration of the loop of \<open>velocitor_engine_drain\<close>; the flag is false on \<open>return\<close>.\<close>

definition engine_serve ::
  "'h pci_bus \<Rightarrow> nat \<Rightarrow> u16 \<Rightarrow> 'h velocitor_state \<Rightarrow> 'h velocitor_state \<times> bool" where
  "engine_serve B q head s =
     (case velocitor_vq_desc B s q head of
        (s, None) \<Rightarrow> (s, False)
      | (s, Some inn) \<Rightarrow>
          if d_flags inn AND VRING_DESC_F_NEXT = 0 \<or> d_flags inn AND VRING_DESC_F_WRITE \<noteq> 0
             \<or> d_len inn < VEL_REQ_HDR_SIZE \<or> d_len inn > VEL_REQ_HDR_SIZE + VEL_GEMM_HDR_SIZE
          then engine_reject B q head (d_len inn) s
          else case velocitor_vq_desc B s q (d_next inn) of
            (s, None) \<Rightarrow> (s, False)
          | (s, Some out) \<Rightarrow>
              if d_flags out AND VRING_DESC_F_WRITE = 0 \<or> d_len out < VEL_RESP_SIZE
              then engine_reject B q head (d_len out) s
              else case velocitor_vq_host_read B s q (d_addr inn) (replicate (unat (d_len inn)) 0) of
                (s, _, False) \<Rightarrow> (s, False)
              | (s, buffer, True) \<Rightarrow> engine_execute B q head out buffer s)"

definition velocitor_engine_drain ::
  "'h pci_bus \<Rightarrow> 'h velocitor_state \<Rightarrow> nat \<Rightarrow> 'h velocitor_state option" where
  "velocitor_engine_drain B s q =
     drain_loop (\<lambda>s. velocitor_vq_pop_head B s q) (engine_serve B q) s"

section \<open>Service of a queue\<close>

text \<open>The counting loop of \<open>velocitor_vq_sweep\<close>: false when a read failed and the function returned.\<close>

fun sweep_count ::
  "'h pci_bus \<Rightarrow> nat \<Rightarrow> nat \<Rightarrow> u16 \<Rightarrow> 'h velocitor_state \<Rightarrow> 'h velocitor_state \<times> bool" where
  "sweep_count B q 0 i s = (s, True)"
| "sweep_count B q (Suc n) i s =
     (let v = vq s q;
          slot = ucast ((ucast (ucast (q_last_avail v) :: u16) + ucast i) mod q_num v) :: u16
      in case host_read16 B s q (vq_avail_addr v + VEL_AVAIL_OFF_RING + ucast slot * 2) of
           (s, None) \<Rightarrow> (s, False)
         | (s, Some _) \<Rightarrow> sweep_count B q n (i + 1) (cnt_add VEL_REG_CNT_DESC 1 s))"

text \<open>The tail of \<open>velocitor_vq_sweep\<close> for a queue nothing consumes: the heads are only counted.\<close>

definition sweep_unserved ::
  "'h pci_bus \<Rightarrow> nat \<Rightarrow> u16 \<Rightarrow> 'h velocitor_state \<Rightarrow> 'h velocitor_state" where
  "sweep_unserved B q published s =
     (let pending = (if ucast published > q_num (vq s q) then ucast (q_num (vq s q)) else published) in
      case sweep_count B q (unat pending) 0 s of
        (s, False) \<Rightarrow> s
      | (s, True) \<Rightarrow>
          let s = set_vq q (\<lambda>v. v\<lparr>q_last_avail :=
                    ucast (ucast (q_last_avail v + ucast pending) :: u16)\<rparr>) s
          in velocitor_trace s VEL_TRACE_LEVEL_INFO VEL_TRACE_ENGINE_NONE VEL_TRACE_SEQ_NONE
               (str ''queue '' @ fmt_dec q @ str '' swept '' @ fmt_u pending @
                str '' head(s), gfeatures 0x'' @ fmt_pad 8 (fmt_x (q_gfeatures (vq s q))) @
                str '', status 0x'' @ fmt_pad 2 (fmt_x (q_vstatus (vq s q)))))"

definition velocitor_vq_sweep ::
  "'h pci_bus \<Rightarrow> 'h velocitor_state \<Rightarrow> nat \<Rightarrow> 'h velocitor_state option" where
  "velocitor_vq_sweep B s q =
     (if q_enable (vq s q) = 0 then Some s
      else
        let s = velocitor_vq_refresh_negotiation B s q in
        if q = VEL_VQ_CTRL_TX then velocitor_rpmsg_drain B s
        else case host_read16 B s q (vq_avail_addr (vq s q) + VEL_AVAIL_OFF_IDX) of
          (s, None) \<Rightarrow> Some s
        | (s, Some idx) \<Rightarrow>
            let pending = idx - ucast (q_last_avail (vq s q)) in
            if pending = 0 then Some s
            else if q = VEL_VQ_CTRL_RX then
              Some (if \<not> rpmsg_announced s \<and> q_gfeatures (vq s q) AND push_bit VEL_VIRTIO_RPMSG_F_NS 1 \<noteq> 0
                    then velocitor_rpmsg_announce B s else s)
            else if q = VEL_VQ_ENGINE0 \<or> q = VEL_VQ_ENGINE1 then velocitor_engine_drain B s q
            else Some (sweep_unserved B q pending s))"

text \<open>The loop of \<open>velocitor_vq_service\<close> over the queues from \<open>q\<close> on, \<open>n\<close> of them left.\<close>

fun vq_service_from ::
  "'h pci_bus \<Rightarrow> u32 \<Rightarrow> nat \<Rightarrow> nat \<Rightarrow> 'h velocitor_state \<Rightarrow> 'h velocitor_state option" where
  "vq_service_from B pending 0 q s = Some s"
| "vq_service_from B pending (Suc n) q s =
     (if pending AND push_bit q 1 \<noteq> 0 then
        (case velocitor_vq_sweep B s q of
           None \<Rightarrow> None
         | Some s \<Rightarrow> vq_service_from B pending n (Suc q) s)
      else vq_service_from B pending n (Suc q) s)"

definition velocitor_vq_service ::
  "'h pci_bus \<Rightarrow> 'h velocitor_state \<Rightarrow> 'h velocitor_state option" where
  "velocitor_vq_service B s =
     vq_service_from B (vq_pending s) VEL_VQ_COUNT 0 (s\<lparr>vq_pending := 0\<rparr>)"

section \<open>What the data plane keeps\<close>

definition data_rest :: "'h velocitor_state \<Rightarrow> _" where
  "data_rest s = (queues_of s, heap_of s, firmware_of s, window_of s, dma_of s)"

text \<open>A byte of device memory that belongs to a live block.\<close>

definition in_block :: "'h velocitor_state \<Rightarrow> nat \<Rightarrow> bool" where
  "in_block s i \<longleftrightarrow> (\<exists>h b. heap_lookup s h = Some b
     \<and> unat (a_offset b) \<le> i \<and> i < unat (a_offset b) + unat (a_size b))"

definition data_inv :: "'h velocitor_state \<Rightarrow> 'h velocitor_state \<Rightarrow> bool" where
  "data_inv c s \<longleftrightarrow> data_rest s = data_rest c \<and> (\<forall>i. \<not> in_block s i \<longrightarrow> store_of s i = store_of c i)"

lemma in_block_cong: "heap_of t = heap_of s \<Longrightarrow> in_block t i = in_block s i"
  using heap_lookup_cong [of t s] by (simp add: in_block_def)

lemma data_inv_rest: "rest_of t = rest_of s \<Longrightarrow> data_inv c t = data_inv c s"
  using in_block_cong [of t s] by (simp add: data_inv_def data_rest_def rest_of_def)

lemmas data_inv_simps = push_rest [THEN data_inv_rest] error_qualify_rest [THEN data_inv_rest]
  trace_rest [THEN data_inv_rest] cnt_add_rest [THEN data_inv_rest] bad_desc_rest [THEN data_inv_rest]

lemma data_handle_cases:
  "velocitor_data_handle s q h =
     (case heap_lookup s h of
        None \<Rightarrow> (velocitor_error_qualify s VEL_ERR_BAD_HANDLE 0 (q_notifyid (vq s q)) h, None)
      | Some b \<Rightarrow> (s, Some b))"
  by (simp add: velocitor_data_handle_def heap_lookup_def)

lemma data_charge_rest: "velocitor_data_charge s e n = (t, r) \<Longrightarrow> rest_of t = rest_of s"
  by (auto simp: velocitor_data_charge_def Let_def rest_simps split: if_splits)

lemma range_ok:
  fixes off len sz :: u64
  assumes "\<not> off + len < off" and "off + len \<le> sz"
  shows "unat off + unat len \<le> unat sz"
proof -
  have "unat (off + len) = unat off + unat len"
    using assms(1) unat_bound [of off] unat_bound [of len]
    by (simp add: word_less_nat_alt unat_word_ariths mod_if split: if_splits)
  then show ?thesis using assms(2) by (simp add: word_le_nat_alt)
qed

lemma store_of_write:
  "store_of (s\<lparr>mem := mem_store (mem s) a bs\<rparr>) i =
     (if a \<le> i \<and> i < a + length bs \<and> ring_ok s \<and> i \<notin> trace_area s then bs ! (i - a) else store_of s i)"
  by (auto simp: store_of_def ring_ok_def trace_area_def mem_store_def)

lemma data_inv_write:
  assumes "data_inv c s" and "heap_lookup s h = Some b"
    and "unat (a_offset b) \<le> a" and "a + length bs \<le> unat (a_offset b) + unat (a_size b)"
  shows "data_inv c (s\<lparr>mem := mem_store (mem s) a bs\<rparr>)"
proof -
  have "in_block s i" if "a \<le> i" "i < a + length bs" for i
    using that assms(2-4) unfolding in_block_def by (intro exI [of _ h] exI [of _ b]) simp
  moreover have "in_block (s\<lparr>mem := mem_store (mem s) a bs\<rparr>) i = in_block s i" for i
    by (rule in_block_cong) (simp add: frames)
  ultimately show ?thesis
    using assms(1) by (auto simp: data_inv_def data_rest_def frames store_of_write)
qed

lemma host_read_length:
  "bus_fills B \<Longrightarrow> velocitor_vq_host_read B s q a buf = (t, bs, ok) \<Longrightarrow> length bs = length buf"
  by (auto simp: velocitor_vq_host_read_def Let_def dest: bus_fillsD split: if_splits prod.splits)

lemma data_copy_inv:
  assumes "bus_fills B" and "data_inv c s" and "velocitor_data_copy B s q op hdr = (t, r)"
  shows "data_inv c t"
proof (cases "heap_lookup s (cp_handle hdr)")
  case None
  then show ?thesis using assms(2,3)
    by (auto simp: velocitor_data_copy_def data_handle_cases data_inv_simps)
next
  case (Some b)
  obtain u cyc far where ch: "velocitor_data_charge s (velocitor_queue_engine q) (unat (a_node b)) = (u, cyc, far)"
    by (metis prod_cases3)
  have u: "rest_of u = rest_of s" using ch by (rule data_charge_rest)
  let ?at = "unat (a_offset b) + unat (cp_offset hdr)"
  obtain v bs ok where rd: "velocitor_vq_host_read B u q (cp_dma_addr hdr)
      (mem_load (mem u) ?at (unat (cp_len hdr))) = (v, bs, ok)" by (metis prod_cases3)
  have v: "rest_of v = rest_of s" using host_read_rest [OF rd] u by simp
  have len: "length bs = unat (cp_len hdr)" using host_read_length [OF assms(1) rd] by simp
  obtain w ok' where wr: "velocitor_vq_host_write B u q (cp_dma_addr hdr)
      (mem_load (mem u) ?at (unat (cp_len hdr))) = (w, ok')" by fastforce
  have w: "rest_of w = rest_of s" using host_write_rest [OF wr] u by simp
  have lk: "heap_lookup v (cp_handle hdr) = Some b"
    using Some v heap_lookup_cong [of v s] by (simp add: rest_of_def)
  have h2d: "data_inv c (v\<lparr>mem := mem_store (mem v) ?at bs\<rparr>)"
    if "\<not> cp_offset hdr + cp_len hdr < cp_offset hdr" "cp_offset hdr + cp_len hdr \<le> a_size b"
    using range_ok [OF that] assms(2) v lk len
    by (intro data_inv_write [OF _ lk]) (simp_all add: data_inv_rest [OF v])
  show ?thesis
    using assms(2,3) Some ch rd wr h2d data_inv_rest [OF w, of c]
    by (auto simp: velocitor_data_copy_def data_handle_cases data_inv_simps Let_def not_less
        split: if_splits)
qed

lemma data_op_inv:
  assumes "bus_fills B" and "data_inv c s" and "data_op B s q buf = (t, r)"
  shows "data_inv c t"
  using assms data_copy_inv [OF assms(1,2)]
  by (auto simp: data_op_def Let_def data_inv_simps split: if_splits)

lemma engine_execute_inv:
  assumes "bus_fills B" and "data_inv c s" and "engine_execute B q head out buf s = (t, b)"
  shows "data_inv c t"
proof -
  obtain u err cyc far where op: "data_op B s q buf = (u, err, cyc, far)" by (metis prod_cases4)
  have "data_inv c u" using data_op_inv [OF assms(1,2) op] .
  then show ?thesis using assms(3) op
    by (auto simp: engine_execute_def Let_def data_inv_simps
        dest!: host_write_rest [THEN data_inv_rest, of _ _ _ _ _ _ _ c] split: prod.splits bool.splits)
qed

lemma engine_serve_inv:
  assumes "bus_fills B" and "data_inv c s" and "engine_serve B q head s = (t, b)"
  shows "data_inv c t"
  using assms(2,3) engine_execute_inv [OF assms(1)]
  by (auto simp: engine_serve_def engine_reject_def data_inv_simps
      dest!: vq_desc_rest [THEN data_inv_rest, of _ _ _ _ _ _ c]
        host_read_rest [THEN data_inv_rest, of _ _ _ _ _ _ _ c]
      split: if_splits prod.splits option.splits bool.splits)

interpretation engine: loop_keeps "\<lambda>s. velocitor_vq_pop_head B s q" "engine_serve B q"
  "\<lambda>s. bus_fills B \<and> data_inv c s"
  for B q c
  by unfold_locales (use pop_head_rest [THEN data_inv_rest] engine_serve_inv in blast)+

lemma engine_drain_inv:
  assumes "velocitor_engine_drain B s q = Some t" and "bus_fills B" and "data_inv c s"
  shows "data_inv c t"
  using engine.drain_inv [of B q s t c] assms by (simp add: velocitor_engine_drain_def)

section \<open>The engine loop ends\<close>

lemma data_copy_cursor: "velocitor_data_copy B s q op hdr = (t, r) \<Longrightarrow> cursor_of p t = cursor_of p s"
proof -
  have ch: "cursor_of p u = cursor_of p s" if "velocitor_data_charge s e n = (u, x)" for e n u x
    using that by (auto simp: velocitor_data_charge_def Let_def split: if_splits)
  assume "velocitor_data_copy B s q op hdr = (t, r)"
  then show ?thesis using ch
    by (auto simp: velocitor_data_copy_def data_handle_cases Let_def
        dest!: cursor_read [of _ _ _ _ _ _ _ p] cursor_write [of _ _ _ _ _ _ _ p]
        split: if_splits prod.splits option.splits)
qed

lemma engine_execute_cursor:
  assumes "engine_execute B q head out buf s = (t, b)"
  shows "cursor_of p t = cursor_of p s"
proof -
  obtain u err cyc far where op: "data_op B s q buf = (u, err, cyc, far)" by (metis prod_cases4)
  have "cursor_of p u = cursor_of p s"
    using op data_copy_cursor by (auto simp: data_op_def Let_def split: if_splits)
  then show ?thesis using assms op
    by (auto simp: engine_execute_def Let_def
        dest!: cursor_write [of _ _ _ _ _ _ _ p] split: prod.splits bool.splits)
qed

lemma vq_desc_cursor: "velocitor_vq_desc B s q i = (t, r) \<Longrightarrow> cursor_of p t = cursor_of p s"
  by (auto simp: velocitor_vq_desc_def dest: cursor_read split: if_splits prod.splits)

lemma engine_serve_cursor: "engine_serve B q head s = (t, b) \<Longrightarrow> cursor_of p t = cursor_of p s"
  by (auto simp: engine_serve_def engine_reject_def
      dest!: vq_desc_cursor [of _ _ _ _ _ _ p] cursor_read [of _ _ _ _ _ _ _ p]
        engine_execute_cursor [of _ _ _ _ _ _ _ _ p]
      split: if_splits prod.splits option.splits bool.splits)

interpretation engine_ends: loop_ends "\<lambda>s. velocitor_vq_pop_head B s q" "engine_serve B q"
  "\<lambda>s. avail_idx B s q" "cursor_of q"
  for B q
proof (unfold_locales, goal_cases)
  case (1 s t e)
  then show ?case using pop_head_Some [of B s q t e] cursor_advance [of t s q] by simp
next
  case (2 e s t b)
  then show ?case by (rule engine_serve_cursor)
qed

section \<open>The whole service\<close>

text \<open>What both planes together leave alone: every byte below the nodes and beyond the device.\<close>

definition svc_rest :: "'h velocitor_state \<Rightarrow> _" where
  "svc_rest s = (queues_of s, firmware_of s, window_of s, dma_of s)"

definition svc_inv :: "'h velocitor_state \<Rightarrow> 'h velocitor_state \<Rightarrow> bool" where
  "svc_inv c s \<longleftrightarrow> svc_rest s = svc_rest c \<and> heap_ok s \<and> heap_older c s
     \<and> (\<forall>i. i < VEL_NODE0_BASE \<or> VEL_MEM_SIZE \<le> i \<longrightarrow> store_of s i = store_of c i)"

lemma svc_inv_refl: "heap_ok s \<Longrightarrow> svc_inv s s"
  by (simp add: svc_inv_def)

lemma svc_inv_heap_ok: "svc_inv c s \<Longrightarrow> heap_ok s"
  by (simp add: svc_inv_def)

lemma svc_inv_trans: "svc_inv a b \<Longrightarrow> svc_inv b c \<Longrightarrow> svc_inv a c"
  by (auto simp: svc_inv_def intro: older_trans)

lemma svc_inv_rest: "rest_of t = rest_of s \<Longrightarrow> heap_ok s \<Longrightarrow> svc_inv s t"
  using heap_ok_cong [of t s] heap_older_cong [of t s s]
  by (simp add: svc_inv_def svc_rest_def rest_of_def)

lemma live_block_range:
  assumes "heap_ok s" and b: "heap_lookup s h = Some b"
  shows "VEL_NODE0_BASE \<le> unat (a_offset b) \<and> unat (a_offset b) + unat (a_size b) \<le> VEL_MEM_SIZE"
proof -
  have ins: "block_in (node_bump s) b" using assms by (rule heap_lookup_in)
  have bump: "bump_ok (node_bump s)" using assms(1) by (simp add: heap_ok_def Let_def)
  have n: "unat (a_node b) = 0 \<or> unat (a_node b) = 1"
    using ins by (auto simp: block_in_def word_less_nat_alt)
  have "unat (node_bump s (unat (a_node b))) \<le> unat (velocitor_node_end (unat (a_node b)))"
    using bump n by (auto simp: bump_ok_def word_le_nat_alt)
  moreover have "unat (velocitor_node_base (unat (a_node b))) \<le> unat (a_offset b)"
    using ins by (simp add: block_in_def word_le_nat_alt)
  ultimately show ?thesis using ins n by (auto simp: block_in_def node_bounds)
qed

lemma in_block_range: "heap_ok s \<Longrightarrow> in_block s i \<Longrightarrow> VEL_NODE0_BASE \<le> i \<and> i < VEL_MEM_SIZE"
  using live_block_range by (fastforce simp: in_block_def)

lemma svc_inv_ctrl: "ctrl_inv s t \<Longrightarrow> svc_inv s t"
  by (simp add: ctrl_inv_def svc_inv_def ctrl_rest_def svc_rest_def)

lemma svc_inv_data:
  assumes "heap_ok s" and "data_inv s t"
  shows "svc_inv s t"
proof -
  have h: "heap_of t = heap_of s" using assms(2) by (simp add: data_inv_def data_rest_def)
  then have "heap_ok t" using heap_ok_cong assms(1) by blast
  moreover have "\<not> in_block t i" if "i < VEL_NODE0_BASE \<or> VEL_MEM_SIZE \<le> i" for i
    using in_block_range [OF \<open>heap_ok t\<close>, of i] that by auto
  ultimately show ?thesis
    using assms(2) heap_older_cong [OF h, of s]
    by (simp add: svc_inv_def data_inv_def svc_rest_def data_rest_def)
qed

lemma data_inv_refl: "data_inv s s"
  by (simp add: data_inv_def)

lemma sweep_count_rest: "sweep_count B q n i s = (t, b) \<Longrightarrow> rest_of t = rest_of s"
proof (induction n arbitrary: i s)
  case (Suc n)
  obtain u r where "host_read16 B s q (vq_avail_addr (vq s q) + VEL_AVAIL_OFF_RING +
      ucast (ucast ((ucast (ucast (q_last_avail (vq s q)) :: u16) + ucast i) mod q_num (vq s q)) :: u16) * 2)
      = (u, r)" by fastforce
  then show ?case using Suc host_read16_rest
    by (fastforce simp: Let_def rest_simps split: option.splits)
qed simp

lemma sweep_unserved_rest: "rest_of (sweep_unserved B q p s) = rest_of s"
  by (auto simp: sweep_unserved_def Let_def trace_rest set_vq_rest dest!: sweep_count_rest
      split: prod.split bool.split)

lemma vq_sweep_inv:
  assumes "bus_fills B" and "heap_ok s" and "velocitor_vq_sweep B s q = Some t"
  shows "svc_inv s t"
proof -
  let ?s = "velocitor_vq_refresh_negotiation B s q"
  have r: "svc_inv s ?s" using refresh_rest assms(2) by (rule svc_inv_rest)
  then have ok: "heap_ok ?s" by (simp add: svc_inv_def)
  obtain u x where rd: "host_read16 B ?s q (vq_avail_addr (vq ?s q) + VEL_AVAIL_OFF_IDX) = (u, x)"
    by fastforce
  have u: "svc_inv ?s u" "heap_ok u"
    using svc_inv_rest [OF host_read16_rest [OF rd] ok] by (auto simp: svc_inv_def)
  have drain: "svc_inv u t" if "velocitor_engine_drain B u q = Some t"
    using engine_drain_inv [OF that assms(1) data_inv_refl] u(2) by (simp add: svc_inv_data)
  have ann: "svc_inv u (velocitor_rpmsg_announce B u)"
    using rpmsg_announce_rest u(2) by (rule svc_inv_rest)
  have ctrl: "svc_inv ?s t" if "velocitor_rpmsg_drain B ?s = Some t"
    using rpmsg_drain_inv [OF that, of ?s] ok by (simp add: svc_inv_ctrl ctrl_inv_def)
  consider "t = s" | "velocitor_rpmsg_drain B ?s = Some t" | "t = u" | "t = velocitor_rpmsg_announce B u"
    | "velocitor_engine_drain B u q = Some t" | "rest_of t = rest_of u"
  proof -
    consider (off) "q_enable (vq s q) = 0" | (tx) "q_enable (vq s q) \<noteq> 0" "q = 1"
      | (none) "q_enable (vq s q) \<noteq> 0" "q \<noteq> 1" "x = None"
      | (rx) idx where "q_enable (vq s q) \<noteq> 0" "x = Some idx" "q = 0"
      | (eng) idx where "q_enable (vq s q) \<noteq> 0" "x = Some idx" "q = 2 \<or> q = 3"
      | (other) idx where "q_enable (vq s q) \<noteq> 0" "x = Some idx" "q > 3"
      by (cases x; cases "q_enable (vq s q) = 0"; cases "q \<in> {0, 1, 2, 3}") auto
    then show thesis
    proof cases
      case off
      then show thesis using assms(3) that(1) by (simp add: velocitor_vq_sweep_def)
    next
      case tx
      then show thesis using assms(3) that(2) by (simp add: velocitor_vq_sweep_def)
    next
      case none
      then show thesis using assms(3) that(3) rd by (simp add: velocitor_vq_sweep_def)
    next
      case rx
      then show thesis using assms(3) that(3,4) rd
        by (simp add: velocitor_vq_sweep_def Let_def split: if_splits)
    next
      case eng
      then have "t = u \<or> velocitor_engine_drain B u q = Some t"
        using assms(3) rd by (elim disjE) (simp_all add: velocitor_vq_sweep_def Let_def split: if_splits)
      then show thesis using that(3,5) by blast
    next
      case other
      then have "t = u \<or> t = sweep_unserved B q (idx - ucast (q_last_avail (vq u q))) u"
        using assms(3) rd by (simp add: velocitor_vq_sweep_def Let_def split: if_splits)
      then show thesis using that(3,6) sweep_unserved_rest by blast
    qed
  qed
  then have "svc_inv ?s t \<or> svc_inv u t \<or> t = s"
    using drain ann ctrl svc_inv_refl [OF u(2)] svc_inv_rest [OF _ u(2)] by cases blast+
  then show ?thesis
    using r u(1) svc_inv_trans svc_inv_refl [OF assms(2)] by blast
qed

lemma vq_service_from_inv:
  assumes "bus_fills B"
  shows "vq_service_from B p n q s = Some t \<Longrightarrow> heap_ok s \<Longrightarrow> svc_inv s t"
proof (induction n arbitrary: q s)
  case (Suc n)
  then show ?case
    using vq_sweep_inv [OF assms] svc_inv_heap_ok svc_inv_trans
    by (auto split: if_splits option.splits) blast
qed (simp add: svc_inv_refl)

lemma vq_service_inv:
  assumes "bus_fills B" and "velocitor_vq_service B s = Some t" and "heap_ok s"
  shows "svc_inv s t"
proof -
  let ?s = "s\<lparr>vq_pending := 0\<rparr>"
  have r: "svc_inv s ?s" using assms(3) by (intro svc_inv_rest) (simp_all add: rest_of_def frames)
  then have "heap_ok ?s" by (simp add: svc_inv_def)
  with assms(1,2) have "svc_inv ?s t"
    by (auto simp: velocitor_vq_service_def intro: vq_service_from_inv)
  with r show ?thesis by (rule svc_inv_trans)
qed

section \<open>Properties\<close>

lemma data_charge_value:
  "\<exists>t. velocitor_data_charge s e n = (t, if n \<noteq> e then 400 else 100, if n \<noteq> e then 1 else 0)
     \<and> mem t = mem s \<and> host t = host s \<and> vq t = vq s \<and> rest_of t = rest_of s"
  by (simp add: velocitor_data_charge_def Let_def rest_simps)

lemma copy_in_range:
  fixes off len sz :: u64
  assumes "unat off + unat len \<le> unat sz"
  shows "\<not> off + len < off" and "off + len \<le> sz"
proof -
  have "unat (off + len) = unat off + unat len"
    using assms unat_bound [of sz] by (simp add: unat_word_ariths)
  then show "\<not> off + len < off" and "off + len \<le> sz"
    using assms by (simp_all add: word_less_nat_alt word_le_nat_alt)
qed

lemma copy_effect:
  assumes "heap_lookup s (cp_handle hdr) = Some b" and "0 < cp_len hdr"
    and "unat (cp_offset hdr) + unat (cp_len hdr) \<le> unat (a_size b)"
    and "unat (cp_dma_addr hdr) + unat (cp_len hdr) \<le> 2 ^ VEL_DMA_BITS"
    and "at = unat (a_offset b) + unat (cp_offset hdr)" and "n = unat (cp_len hdr)"
    and "pci_dma_read B (host s) (cp_dma_addr hdr) n = (bs, True)"
    and "pci_dma_write B (host s) (cp_dma_addr hdr) (mem_load (mem s) at n) = (h, True)"
    and "cost = (if unat (a_node b) \<noteq> velocitor_queue_engine q then (400, 1) else (100, 0))"
  shows "(\<exists>t. velocitor_data_copy B s q VEL_DATA_OP_COPY_H2D hdr = (t, 0, cost)
       \<and> mem t = mem_store (mem s) at bs \<and> host t = host s)
     \<and> (\<exists>t. velocitor_data_copy B s q VEL_DATA_OP_COPY_D2H hdr = (t, 0, cost)
       \<and> mem t = mem s \<and> host t = h)"
proof -
  obtain u where u: "velocitor_data_charge s (velocitor_queue_engine q) (unat (a_node b)) = (u, cost)"
    "mem u = mem s" "host u = host s"
    using data_charge_value [of s "velocitor_queue_engine q" "unat (a_node b)"] assms(9) by auto
  note range = copy_in_range [OF assms(3)]
  have tr: "\<not> cp_dma_addr hdr + cp_len hdr > 2 ^ 42"
    using no_trap [of "cp_dma_addr hdr" n] assms(4,6) by simp
  have rd: "velocitor_vq_host_read B u q (cp_dma_addr hdr) (mem_load (mem u) at n)
      = (cnt_add VEL_REG_CNT_BYTES_RD_LO (ucast (cp_len hdr)) (cnt_add VEL_REG_CNT_DMA_RD 1 u), bs, True)"
    using assms(6,7) u tr by (simp add: velocitor_vq_host_read_def)
  have wr: "\<exists>w. velocitor_vq_host_write B u q (cp_dma_addr hdr) (mem_load (mem u) at n) = (w, True)
      \<and> host w = h \<and> mem w = mem s"
    using assms(6,8) u tr by (simp add: velocitor_vq_host_write_def Let_def)
  show ?thesis
    using assms(1,2,5,6) u rd wr range
    by (auto simp: velocitor_data_copy_def data_handle_cases Let_def not_less split: prod.split)
qed


text \<open>One live block of 256 bytes at 16 MiB, and a host whose memory at 0x5000 holds 1, 2, 3, 4.\<close>

definition copy_state :: "store velocitor_state" where
  "copy_state = (velocitor_alloc_reset (velocitor_new (mem_store (\<lambda>_. 0) 0x5000 [1, 2, 3, 4])))
     \<lparr>next_handle := 2, live_handles := 1,
      alloc := (\<lambda>_. no_block)(0 := \<lparr>a_offset = 0x1000000, a_size = 256, a_node = 0, a_live = 1\<rparr>)\<rparr>"


text \<open>A copy that names no live handle, a range that is not inside its block (also when offset plus
  length overflows 64 bits) or no bytes is refused with EINVAL and costs nothing: neither the host's
  memory nor device memory outside the trace ring changes, and no queue or allocation does.\<close>

lemma copy_refused:
  assumes "heap_lookup s (cp_handle hdr) = None
     \<or> (\<exists>b. heap_lookup s (cp_handle hdr) = Some b \<and>
          unat (cp_offset hdr) + unat (cp_len hdr) > unat (a_size b))
     \<or> cp_len hdr = 0"
  shows "\<exists>t. velocitor_data_copy B s q op hdr = (t, - EINVAL, 0, 0)
     \<and> host t = host s \<and> rest_of t = rest_of s"
proof (cases "heap_lookup s (cp_handle hdr)")
  case None
  then show ?thesis by (simp add: velocitor_data_copy_def data_handle_cases rest_simps)
next
  case (Some b)
  then have "cp_offset hdr + cp_len hdr < cp_offset hdr \<or> cp_offset hdr + cp_len hdr > a_size b
      \<or> cp_len hdr = 0"
    using assms Some range_ok [of "cp_offset hdr" "cp_len hdr" "a_size b"]
    by (metis linorder_not_less option.distinct(1) option.inject)
  with Some show ?thesis
    by (auto simp: velocitor_data_copy_def data_handle_cases Let_def rest_simps)
qed

lemma copy_refused_witness:
  "\<exists>t. velocitor_data_copy ram_bus copy_state 2 VEL_DATA_OP_COPY_H2D
       \<lparr>cp_handle = 1, cp_offset = 255, cp_dma_addr = 0x5000, cp_len = 2\<rparr> = (t, - 22, 0, 0)"
proof -
  have "heap_lookup copy_state 1 = Some \<lparr>a_offset = 0x1000000, a_size = 256, a_node = 0, a_live = 1\<rparr>"
    by (simp add: copy_state_def heap_lookup_def word_le_nat_alt)
  then show ?thesis
    using copy_refused [of copy_state "\<lparr>cp_handle = 1, cp_offset = 255, cp_dma_addr = 0x5000, cp_len = 2\<rparr>"
        ram_bus 2 VEL_DATA_OP_COPY_H2D]
    by auto
qed

text \<open>A request of an earlier firmware session is refused: when its generation is not the device's, the
  answer is ESTALE with zero cycles, whatever the operation and the handle, and neither the host's
  memory nor device memory outside the trace ring nor any allocation changes.\<close>

lemma stale_request_refused:
  assumes "rq_generation (get_req buffer) \<noteq> generation s"
  shows "\<exists>t. data_op B s q buffer = (t, - ESTALE, 0, 0) \<and> host t = host s \<and> rest_of t = rest_of s"
  using assms by (simp add: data_op_def rest_simps)

lemma stale_request_refused_witness:
  "\<exists>t. data_op ram_bus copy_state 2
     (put_req \<lparr>rq_seq = 1, rq_generation = 7, rq_op = 1, rq_flags = 0\<rparr>) = (t, - 116, 0, 0)"
proof -
  have "rq_generation (get_req (put_req \<lparr>rq_seq = 1, rq_generation = 7, rq_op = 1, rq_flags = 0\<rparr>)) \<noteq> generation copy_state"
    using get_put_wire(1) [of "\<lparr>rq_seq = 1, rq_generation = 7, rq_op = 1, rq_flags = 0\<rparr>" "[]"]
    by (simp add: copy_state_def velocitor_alloc_reset_def velocitor_new_def)
  from stale_request_refused [OF this, of ram_bus 2] show ?thesis by auto
qed

text \<open>C19. Serving an engine queue is confined to live blocks: whatever the ring and the requests hold, the
  only device memory outside the trace ring that changes lies inside a block whose handle is live,
  and the queue descriptions, the allocator, the firmware state, the window and the bring-up DMA are
  as they were.\<close>

lemma engine_drain_confined:
  assumes "velocitor_engine_drain B s q = Some t" and "bus_fills B"
  shows "queues_of t = queues_of s \<and> heap_of t = heap_of s \<and> firmware_of t = firmware_of s
     \<and> window_of t = window_of s \<and> dma_of t = dma_of s
     \<and> (\<forall>i. store_of t i \<noteq> store_of s i \<longrightarrow> in_block s i)"
  using engine_drain_inv [OF assms data_inv_refl] in_block_cong [of t s]
  by (auto simp: data_inv_def data_rest_def)

lemma engine_drain_confined_witness:
  "\<exists>t. velocitor_engine_drain ram_bus copy_state 2 = Some t \<and> heap_of t = heap_of copy_state"
proof -
  have z: "mem_load (mem_store (\<lambda>_. 0) 0x5000 [1, 2, 3, 4]) 2 2 = [0, 0 :: u8]"
    by (simp add: mem_load_def mem_store_def upt_rec)
  have z2: "mem_load (mem_store (\<lambda>_. 0) 0x5000 [1, 2, 3, 4]) 2 (Suc (Suc 0)) = [0, 0 :: u8]"
    using z by (simp add: numeral_2_eq_2 [symmetric])
  have "velocitor_vq_pop_head ram_bus copy_state 2 = (u, r) \<Longrightarrow> r = None" for u r
    using z z2 by (auto simp: velocitor_vq_pop_head_def host_read16_def velocitor_vq_host_read_def Let_def
        addr64_def vq_avail_addr_def copy_state_def velocitor_alloc_reset_def velocitor_new_def
        no_queue_def get_le_def split: if_splits)
  then have "velocitor_vq_pop_head ram_bus copy_state 2 = (fst (velocitor_vq_pop_head ram_bus copy_state 2), None)"
    by (metis prod.collapse)
  then obtain t where "velocitor_engine_drain ram_bus copy_state 2 = Some t"
    by (metis (no_types, lifting) drain_loop.simps velocitor_engine_drain_def old.prod.case option.simps(4))
  with engine_drain_confined [OF this ram_bus_fills] show ?thesis by blast
qed

lemma one_head_served:
  "\<exists>t u v. velocitor_vq_pop_head ram_bus (one_head 2) 2 = (t, Some 0)
     \<and> engine_serve ram_bus 2 0 t = (u, True) \<and> velocitor_vq_pop_head ram_bus u 2 = (v, None)
     \<and> avail_idx ram_bus u 2 = 1"
proof -
  have two: "(2 :: nat) < 4" by simp
  note L = one_head_layout [OF two] and W = one_head_words [OF one_head_layout(6) [OF two]]
  obtain w where w: "host_read16 ram_bus (one_head 2) 2 0x1002 = (w, Some 1)" "vq w = vq (one_head 2)"
    "host w = host (one_head 2)"
    using host_read16_ok [of ram_bus "one_head 2" "0x1002" 2] W by (auto simp: readable_def)
  obtain x where x: "host_read16 ram_bus w 2 0x1004 = (x, Some 0)" "vq x = vq (one_head 2)"
    "host x = host (one_head 2)"
    using host_read16_ok [of ram_bus w "0x1004" 2] w W by (auto simp: readable_def word_at_def)
  define t where "t = cnt_add VEL_REG_CNT_DESC 1 (set_vq 2 avail_advance x)"
  have pop: "velocitor_vq_pop_head ram_bus (one_head 2) 2 = (t, Some 0)"
    using w x by (simp add: velocitor_vq_pop_head_def L avail_slot_def t_def)
  have t: "vq t = (vq (one_head 2))(2 := avail_advance (vq (one_head 2) 2))" "host t = host (one_head 2)"
    using x by (simp_all add: t_def)
  have z: "get_desc (replicate 16 0) = \<lparr>d_addr = 0, d_len = 0, d_flags = 0, d_next = 0\<rparr>"
    by (simp add: get_desc_def get_le_def numeral_eq_Suc)
  have "readable ram_bus t 0x2000 (length (replicate 16 (0 :: u8)))" by (simp add: readable_def)
  from host_read_ok [OF this, of 2] t(2) W(3) obtain y where
    y: "velocitor_vq_host_read ram_bus t 2 0x2000 (replicate 16 0) = (y, replicate 16 0, True)"
      "vq y = vq t" "host y = host t"
    by auto
  have "engine_serve ram_bus 2 0 t = (velocitor_vq_push ram_bus (bad_desc y 2 0) 2 0 0, True)"
    using y t(1) L by (simp add: engine_serve_def velocitor_vq_desc_def vq_desc_addr_def avail_advance_def
        addr64_def z engine_reject_def)
  moreover have b: "vq (bad_desc y 2 0) = (vq (one_head 2))(2 := avail_advance (vq (one_head 2) 2))"
    "host (bad_desc y 2 0) = host (one_head 2)"
    using y t by (simp_all add: bad_desc_def)
  note u = one_head_pushed [OF b(1) two b(2)]
  moreover obtain v where "velocitor_vq_pop_head ram_bus (velocitor_vq_push ram_bus (bad_desc y 2 0) 2 0 0) 2 = (v, None)"
    using no_more_heads(2) [of ram_bus "velocitor_vq_push ram_bus (bad_desc y 2 0) 2 0 0" 2] u
    by (metis prod.collapse)
  ultimately show ?thesis using pop by blast
qed

text \<open>C23. Serving an engine queue ends: as long as every pass of the loop finds the available index the
  first one found, it returns for any contents of the ring, of the requests and of the device, having
  executed or refused at most the heads that were pending when it began.\<close>

lemma engine_drain_returns:
  assumes "\<And>n t. drain_pass (\<lambda>s. velocitor_vq_pop_head B s q) (engine_serve B q) n s = Some t
     \<Longrightarrow> avail_idx B t q = avail_idx B s q"
  shows "\<exists>t. velocitor_engine_drain B s q = Some t
     \<and> drain_within (\<lambda>s. velocitor_vq_pop_head B s q) (engine_serve B q)
         (length (pending_heads B s q)) s = Some t"
  using engine_ends.drain_returns [of B q s] assms
  by (simp add: velocitor_engine_drain_def cursor_of_def pending_heads_def Let_def)

lemma engine_drain_returns_witness:
  "\<exists>t. velocitor_engine_drain ram_bus (one_head 2) 2 = Some t
     \<and> drain_within (\<lambda>s. velocitor_vq_pop_head ram_bus s 2) (engine_serve ram_bus 2) 1 (one_head 2) = Some t"
proof -
  obtain t u v where r: "velocitor_vq_pop_head ram_bus (one_head 2) 2 = (t, Some 0)"
    "engine_serve ram_bus 2 0 t = (u, True)" "velocitor_vq_pop_head ram_bus u 2 = (v, None)"
    "avail_idx ram_bus u 2 = 1"
    using one_head_served by blast
  have i: "avail_idx ram_bus (one_head 2) 2 = 1"
    using one_head_words(1) [OF one_head_layout(6) [of 2]] one_head_layout(1) [of 2]
    by (simp add: avail_idx_def)
  note P = one_pass_states [of "\<lambda>s. velocitor_vq_pop_head ram_bus s 2" _ _ _ "engine_serve ram_bus 2",
      OF r(1-3)]
  have "avail_idx ram_bus x 2 = avail_idx ram_bus (one_head 2) 2"
    if "drain_pass (\<lambda>s. velocitor_vq_pop_head ram_bus s 2) (engine_serve ram_bus 2) n (one_head 2) = Some x"
    for n x using P [OF that] r(4) i by auto
  note R = engine_drain_returns [OF this]
  have "length (pending_heads ram_bus (one_head 2) 2) = 1"
    using i one_head_layout(5) [of 2] by (simp add: pending_heads_def Let_def)
  with R show ?thesis by simp
qed
end
