(* ===== verification/Vel_Run.thy ===== *)
theory Vel_Run
  imports Vel_Prelude
begin

text \<open>
  Runs of a machine given by a labelled step relation, and the two contracts the state
  machines of the development are proved against: \<open>safe_machine\<close>, an invariant every
  permitted step keeps, and \<open>ordered_machine\<close>, a preorder every permitted step follows.
\<close>

inductive run :: "('s \<Rightarrow> 'l \<Rightarrow> 's \<Rightarrow> bool) \<Rightarrow> 's \<Rightarrow> 'l list \<Rightarrow> 's \<Rightarrow> bool" for step where
  run_nil: "run step s [] s"
| run_cons: "\<lbrakk>step s l t; run step t ls u\<rbrakk> \<Longrightarrow> run step s (l # ls) u"

inductive_simps run_simps [simp]: "run step s [] t" "run step s (l # ls) t"

lemma run_append: "run step s (ls @ ms) u \<longleftrightarrow> (\<exists>t. run step s ls t \<and> run step t ms u)"
  by (induction ls arbitrary: s) auto

locale safe_machine =
  fixes step :: "'s \<Rightarrow> 'l \<Rightarrow> 's \<Rightarrow> bool" and ok :: "'l \<Rightarrow> bool" and good :: "'s \<Rightarrow> bool"
  assumes step_good: "\<lbrakk>good s; ok l; step s l t\<rbrakk> \<Longrightarrow> good t"
begin

lemma run_good: "\<lbrakk>run step s ls t; good s; list_all ok ls\<rbrakk> \<Longrightarrow> good t"
  by (induction rule: run.induct) (auto dest: step_good)

end

locale ordered_machine = safe_machine +
  fixes le :: "'s \<Rightarrow> 's \<Rightarrow> bool"
  assumes le_refl: "good s \<Longrightarrow> le s s"
    and le_trans: "\<lbrakk>le s t; le t u\<rbrakk> \<Longrightarrow> le s u"
    and step_le: "\<lbrakk>good s; ok l; step s l t\<rbrakk> \<Longrightarrow> le s t"
begin

lemma run_le: "\<lbrakk>run step s ls t; good s; list_all ok ls\<rbrakk> \<Longrightarrow> le s t"
  by (induction rule: run.induct) (auto intro: le_refl le_trans step_le dest: step_good)

end

end
