(* ===== verification/Vel_Machine.thy ===== *)
theory Vel_Machine
  imports Vel_Data Vel_Run
begin

text \<open>
  The device as the host and QEMU see it (\<open>velocitor.c\<close>): the BAR0 register file, the
  two halves of BAR2, realize, reset and migration, and the step relation whose
  steps are the host's accesses and the expiry of the three timers. \<open>dev_ok\<close> is the
  invariant of every reachable state; \<open>safe_machine\<close> is the contract it is proved against.
\<close>

section \<open>BAR0\<close>

definition VEL_CAPS_VALUE :: u32 where
  "VEL_CAPS_VALUE = VEL_CAP_FP32 OR VEL_CAP_BF16 OR VEL_CAP_TRANSPOSE"

text \<open>The registers whose read is a plain field, and the constants; None for the others.\<close>

definition bar0_field :: "'h velocitor_state \<Rightarrow> u64 \<Rightarrow> u32 option" where
  "bar0_field s addr =
     (if addr = VEL_REG_MAGIC then Some VEL_MAGIC
      else if addr = VEL_REG_VERSION then Some VEL_VERSION
      else if addr = VEL_REG_CAPS then Some VEL_CAPS_VALUE
      else if addr = VEL_REG_SCRATCH then Some (NOT (scratch s))
      else if addr = VEL_REG_MEM_SIZE then Some VEL_MEM_SIZE
      else if addr = VEL_REG_TOPOLOGY then Some VEL_TOPOLOGY
      else if addr = VEL_REG_DMA_BITS then Some VEL_DMA_BITS
      else if addr = VEL_REG_DBG_DMA_ADDR_LO then Some (dma_addr_lo s)
      else if addr = VEL_REG_DBG_DMA_ADDR_HI then Some (dma_addr_hi s)
      else if addr = VEL_REG_DBG_DMA_DEV then Some (dma_dev s)
      else if addr = VEL_REG_DBG_DMA_LEN then Some (dma_len s)
      else if addr = VEL_REG_DBG_DMA_STATUS then Some (dma_status s)
      else if addr = VEL_REG_RSC_ADDR_LO then Some (rsc_addr_lo s)
      else if addr = VEL_REG_RSC_ADDR_HI then Some (rsc_addr_hi s)
      else if addr = VEL_REG_RSC_LEN then Some (rsc_len s)
      else if addr = VEL_REG_RSC_VALID then Some (rsc_valid s)
      else if addr = VEL_REG_ERR_CODE then Some (err_code s)
      else if addr = VEL_REG_ERR_INFO_LO then Some (err_info_lo s)
      else if addr = VEL_REG_ERR_INFO_HI then Some (err_info_hi s)
      else if addr = VEL_REG_ERR_NOTIFYID then Some (err_notifyid s)
      else if addr = VEL_REG_ERR_HANDLE then Some (err_handle s)
      else if addr = VEL_REG_ERR_GENERATION then Some (err_generation s)
      else if addr = VEL_REG_ERR_DROPPED then Some (err_dropped s)
      else if addr = VEL_REG_RESET then Some (reset s)
      else if addr = VEL_REG_FW_STATUS then Some (fw_status s)
      else if addr = VEL_REG_FW_ABI then Some (fw_abi s)
      else if addr = VEL_REG_GENERATION then Some (generation s)
      else if addr = VEL_REG_IRQ_STATUS then Some (irq_status s)
      else if addr = VEL_REG_IRQ_MASK then Some (irq_mask s)
      else if addr = VEL_REG_ERR_INJECT then Some (err_inject s)
      else if addr = VEL_REG_ERR_INJECT_ARG then Some (err_inject_arg s)
      else None)"

text \<open>The write-only registers of annex A.3.\<close>

definition write_only :: "u64 \<Rightarrow> bool" where
  "write_only addr \<longleftrightarrow> addr = VEL_REG_DBG_DMA_CTL \<or> addr = VEL_REG_IRQ_ACK \<or> addr = VEL_REG_DOORBELL
     \<or> addr = VEL_REG_CNT_RESET \<or> addr = VEL_REG_CNT_SNAP"

definition velocitor_bar0_read ::
  "'h velocitor_state \<Rightarrow> u64 \<Rightarrow> nat \<Rightarrow> 'h velocitor_state \<times> u64" where
  "velocitor_bar0_read s addr sz =
     (if \<not> velocitor_access_ok addr sz then (s, - 1)
      else if addr \<ge> VEL_CNT_FIRST \<and> addr \<le> VEL_CNT_LAST
      then (s, ucast (cnt_snap s (VEL_CNT_INDEX addr)))
      else if addr \<ge> VEL_BLK_VQ_BASE \<and> addr \<le> VEL_BLK_VQ_END then (s, ucast (velocitor_vq_read s addr))
      else if addr = VEL_REG_WIN_BASE
      then let s = velocitor_window_promote s in (s, ucast (win_base s))
      else case bar0_field s addr of
        Some v \<Rightarrow> (s, ucast v)
      | None \<Rightarrow> if write_only addr then (s, ucast (- 1 :: u32)) else (s, 0))"

definition cnt_snap_write :: "'h velocitor_state \<Rightarrow> u64 \<Rightarrow> 'h velocitor_state" where
  "cnt_snap_write s val = (if val AND 1 \<noteq> 0 then s\<lparr>cnt_snap := cnt s\<rparr> else s)"

definition cnt_reset_write :: "'h velocitor_state \<Rightarrow> u64 \<Rightarrow> 'h velocitor_state" where
  "cnt_reset_write s val =
     (if val AND 1 \<noteq> 0 then s\<lparr>cnt := (\<lambda>_. 0), cnt_snap := (\<lambda>_. 0)\<rparr> else s)"

definition velocitor_bar0_write ::
  "'h pci_bus \<Rightarrow> 'h velocitor_state \<Rightarrow> u64 \<Rightarrow> u64 \<Rightarrow> nat \<Rightarrow> 'h velocitor_state" where
  "velocitor_bar0_write B s addr val sz =
     (let w = ucast val :: u32 in
      if \<not> velocitor_access_ok addr sz then s
      else if addr \<ge> VEL_CNT_FIRST \<and> addr \<le> VEL_CNT_LAST then s
      else if addr \<ge> VEL_BLK_VQ_BASE \<and> addr \<le> VEL_BLK_VQ_END then velocitor_vq_write s addr w
      else if addr = VEL_REG_SCRATCH then s\<lparr>scratch := w\<rparr>
      else if addr = VEL_REG_CNT_SNAP then cnt_snap_write s val
      else if addr = VEL_REG_CNT_RESET then cnt_reset_write s val
      else if addr = VEL_REG_RESET then velocitor_reset_write s w
      else if addr = VEL_REG_WIN_BASE then velocitor_window_write_base s w
      else if addr = VEL_REG_DBG_DMA_ADDR_LO then s\<lparr>dma_addr_lo := w\<rparr>
      else if addr = VEL_REG_DBG_DMA_ADDR_HI then s\<lparr>dma_addr_hi := w\<rparr>
      else if addr = VEL_REG_DBG_DMA_DEV then s\<lparr>dma_dev := w\<rparr>
      else if addr = VEL_REG_DBG_DMA_LEN then s\<lparr>dma_len := w\<rparr>
      else if addr = VEL_REG_DBG_DMA_CTL then velocitor_dma_start s w
      else if addr = VEL_REG_RSC_ADDR_LO then s\<lparr>rsc_addr_lo := w\<rparr>
      else if addr = VEL_REG_RSC_ADDR_HI then s\<lparr>rsc_addr_hi := w\<rparr>
      else if addr = VEL_REG_RSC_LEN then s\<lparr>rsc_len := w\<rparr>
      else if addr = VEL_REG_RSC_VALID then velocitor_rsc_publish B s w
      else if addr = VEL_REG_IRQ_MASK then s\<lparr>irq_mask := w AND VEL_IRQ_LATCHED\<rparr>
      else if addr = VEL_REG_IRQ_ACK
      then s\<lparr>irq_status := irq_status s AND NOT (w AND VEL_IRQ_LATCHED)\<rparr>
      else if addr = VEL_REG_DOORBELL then velocitor_doorbell s w
      else if addr = VEL_REG_ERR_INJECT_ARG then s\<lparr>err_inject_arg := w\<rparr>
      else if addr = VEL_REG_ERR_INJECT then err_inject_write s w
      else s)"

section \<open>BAR2: the fixed aperture and the movable window\<close>

text \<open>
  \<open>velocitor_realize\<close> lays two aliases of device memory into BAR2; an access is made
  by QEMU in the alias that contains it, at the alias' offset.
\<close>

definition bar2_target :: "'h velocitor_state \<Rightarrow> nat \<Rightarrow> nat option" where
  "bar2_target s a =
     (if a < VEL_APERTURE_SIZE then Some a
      else if VEL_BAR2_WINDOW_OFF \<le> a \<and> a < VEL_BAR2_WINDOW_OFF + VEL_WINDOW_SIZE
      then Some (unat (window_off s) + (a - VEL_BAR2_WINDOW_OFF))
      else None)"

definition bar2_read :: "'h velocitor_state \<Rightarrow> nat \<Rightarrow> u8 option" where
  "bar2_read s a = map_option (mem s) (bar2_target s a)"

definition bar2_write :: "'h velocitor_state \<Rightarrow> nat \<Rightarrow> u8 \<Rightarrow> 'h velocitor_state" where
  "bar2_write s a b =
     (case bar2_target s a of None \<Rightarrow> s | Some i \<Rightarrow> s\<lparr>mem := (mem s)(i := b)\<rparr>)"

section \<open>Reset and migration\<close>

definition velocitor_reset :: "'h velocitor_state \<Rightarrow> 'h velocitor_state" where
  "velocitor_reset s =
     (let s = s\<lparr>scratch := 0, cnt := (\<lambda>_. 0), cnt_snap := (\<lambda>_. 0)\<rparr>;
          s = s\<lparr>dma_timer := None, boot_timer := None\<rparr>;
          s = s\<lparr>dma_addr_lo := 0, dma_addr_hi := 0, dma_dev := 0, dma_len := 0, dma_ctl := 0,
                dma_status := VEL_DMA_STATUS_IDLE\<rparr>;
          s = s\<lparr>err_code := VEL_ERR_NONE, err_info_lo := 0, err_info_hi := 0,
                err_notifyid := VEL_NOTIFYID_NONE, err_handle := 0, err_generation := 0,
                err_dropped := 0\<rparr>;
          s = velocitor_alloc_reset s;
          s = s\<lparr>rsc_addr_lo := 0, rsc_addr_hi := 0, rsc_len := 0, rsc_valid := 0\<rparr>;
          s = s\<lparr>vq_select := 0, rpmsg_announced := False, vq_pending := 0, vq_timer := None\<rparr>;
          s = s\<lparr>vq := (\<lambda>q. if q < VEL_VQ_COUNT then no_queue\<lparr>q_notifyid := VEL_NOTIFYID_NONE\<rparr>
                        else vq s q)\<rparr>;
          s = s\<lparr>win_base := 0, win_pending := 0, window_off := 0\<rparr>;
          s = velocitor_mem_fill_pattern s;
          s = s\<lparr>irq_status := 0, irq_mask := 0\<rparr>;
          s = s\<lparr>reset := 1, fw_status := VEL_FW_STATUS_RESET, fw_abi := 0, generation := 0,
                trace_da := 0, trace_len := 0, trace_epoch := 0\<rparr>;
          s = s\<lparr>err_inject := 0, err_inject_arg := 0\<rparr>
      in s\<lparr>msix_on := False\<rparr>)"

text \<open>
  The machine after \<open>velocitor_realize\<close> and the reset QEMU performs on power-on:
  the instance is zeroed, the alias of the window starts at offset 0.
\<close>

definition velocitor_power_on :: "'h \<Rightarrow> 'h velocitor_state" where
  "velocitor_power_on h = velocitor_reset (velocitor_new h)"

text \<open>
  Loading \<open>vmstate_velocitor\<close> into a machine \<open>d\<close> that was just powered on: the fields
  the description lists, the device memory (a RAM region QEMU migrates by itself) and
  the MSI-X state. The alias offset and the three timers are in no description.
\<close>

definition velocitor_vmstate_load :: "'h velocitor_state \<Rightarrow> 'h velocitor_state \<Rightarrow> 'h velocitor_state" where
  "velocitor_vmstate_load d s =
     s\<lparr>window_off := window_off d, boot_timer := boot_timer d, dma_timer := dma_timer d,
       vq_timer := vq_timer d\<rparr>"

definition velocitor_migrate :: "'h velocitor_state \<Rightarrow> 'h velocitor_state" where
  "velocitor_migrate s = velocitor_vmstate_load (velocitor_power_on (host s)) s"

section \<open>The machine\<close>

datatype 'h label =
    Read u64 nat
  | Write u64 u64 nat
  | Aperture nat u8
  | Host_Memory 'h
  | Msix bool
  | Tick
  | Dma_Timer
  | Boot_Timer
  | Vq_Timer
  | Reset
  | Migrate

definition due :: "'h velocitor_state \<Rightarrow> u64 option \<Rightarrow> bool" where
  "due s timer = (case timer of None \<Rightarrow> False | Some t \<Rightarrow> t \<le> clock s)"

text \<open>
  The accesses of the guest to BAR0 and BAR2 and to its own memory, the virtual clock,
  and the three timer callbacks when their deadline has passed. The clock passes no
  deadline before its callback has run.
\<close>

inductive dev_step ::
  "'h pci_bus \<Rightarrow> 'h velocitor_state \<Rightarrow> 'h label \<Rightarrow> 'h velocitor_state \<Rightarrow> bool" for B where
  bar0_read: "dev_step B s (Read addr sz) (fst (velocitor_bar0_read s addr sz))"
| bar0_write: "dev_step B s (Write addr val sz) (velocitor_bar0_write B s addr val sz)"
| bar2: "dev_step B s (Aperture a b) (bar2_write s a b)"
| host_memory: "dev_step B s (Host_Memory h) (s\<lparr>host := h\<rparr>)"
| msix: "dev_step B s (Msix on) (s\<lparr>msix_on := on\<rparr>)"
| tick: "\<lbrakk>\<not> due s (dma_timer s); \<not> due s (boot_timer s); \<not> due s (vq_timer s)\<rbrakk> \<Longrightarrow>
    dev_step B s Tick (s\<lparr>clock := clock s + 1\<rparr>)"
| dma_timer: "due s (dma_timer s) \<Longrightarrow>
    dev_step B s Dma_Timer (velocitor_dma_run B (s\<lparr>dma_timer := None\<rparr>))"
| boot_timer: "due s (boot_timer s) \<Longrightarrow>
    dev_step B s Boot_Timer (velocitor_boot_done (s\<lparr>boot_timer := None\<rparr>))"
| vq_timer: "\<lbrakk>due s (vq_timer s); velocitor_vq_service B (s\<lparr>vq_timer := None\<rparr>) = Some t\<rbrakk> \<Longrightarrow>
    dev_step B s Vq_Timer t"
| reset: "dev_step B s Reset (velocitor_reset s)"
| migrate: "dev_step B s Migrate (velocitor_migrate s)"

inductive_cases dev_stepE: "dev_step B s l t"

inductive_simps dev_step_simps:
  "dev_step B s (Read addr sz) t" "dev_step B s (Write addr val sz) t" "dev_step B s (Aperture a b) t"
  "dev_step B s (Host_Memory h) t" "dev_step B s (Msix on) t" "dev_step B s Tick t"
  "dev_step B s Dma_Timer t" "dev_step B s Boot_Timer t" "dev_step B s Vq_Timer t"
  "dev_step B s Reset t" "dev_step B s Migrate t"

text \<open>The states a powered-on machine comes to by the steps it is allowed.\<close>

definition dev_reach :: "'h pci_bus \<Rightarrow> ('h label \<Rightarrow> bool) \<Rightarrow> 'h velocitor_state \<Rightarrow> bool" where
  "dev_reach B allowed s \<longleftrightarrow>
     (\<exists>h ls. run (dev_step B) (velocitor_power_on h) ls s \<and> list_all allowed ls)"

section \<open>The invariant of the device\<close>

definition win_legal :: "u32 \<Rightarrow> bool" where
  "win_legal b \<longleftrightarrow> b AND (VEL_WINDOW_SIZE - 1) = 0 \<and> b \<le> VEL_MEM_SIZE - VEL_WINDOW_SIZE"

definition window_ok :: "'h velocitor_state \<Rightarrow> bool" where
  "window_ok s \<longleftrightarrow> win_legal (win_base s) \<and> win_legal (win_pending s)
     \<and> unat (window_off s) + VEL_WINDOW_SIZE \<le> VEL_MEM_SIZE"

definition dev_ok :: "'h velocitor_state \<Rightarrow> bool" where
  "dev_ok s \<longleftrightarrow> queues_ok s \<and> heap_ok s \<and> fw_ok s \<and> window_ok s \<and> mem_bounded s"

definition dev_core :: "'h velocitor_state \<Rightarrow> _" where
  "dev_core s = (queues_of s, heap_of s, firmware_of s, window_of s, mem s)"

lemma window_ok_cong: "window_of t = window_of s \<Longrightarrow> window_ok t = window_ok s"
  by (simp add: window_ok_def window_of_def)

lemma dev_ok_core: "dev_core t = dev_core s \<Longrightarrow> dev_ok s \<Longrightarrow> dev_ok t"
  using queues_ok_cong [of t s] heap_ok_cong [of t s] fw_ok_cong [of t s] window_ok_cong [of t s]
  by (simp add: dev_ok_def dev_core_def mem_bounded_def)

lemma dev_ok_rest:
  assumes "rest_of t = rest_of s" and "dev_ok s"
  shows "dev_ok t"
proof -
  note eq = restD [OF assms(1)]
  have "fw_ok t" using assms(2) fw_ok_cong [OF eq(3)] by (simp add: dev_ok_def)
  then have "mem_bounded t"
    using assms(2) mem_bounded_store [OF eq(6)] by (simp add: dev_ok_def fw_okD)
  with \<open>fw_ok t\<close> show ?thesis
    using assms(2) queues_ok_cong [OF eq(1)] heap_ok_cong [OF eq(2)] window_ok_cong [OF eq(4)]
    by (simp add: dev_ok_def)
qed

lemma window_promote_ok: "window_ok s \<Longrightarrow> window_ok (velocitor_window_promote s)"
proof -
  have "unat b + 0x1000000 \<le> 0x10000000" if "win_legal b" for b :: u32
    using that by (simp add: win_legal_def word_le_nat_alt)
  then show "window_ok s \<Longrightarrow> ?thesis"
    by (simp add: window_ok_def velocitor_window_promote_def Let_def cnt_add_def)
qed

lemma window_write_base_ok: "window_ok s \<Longrightarrow> window_ok (velocitor_window_write_base s b)"
  by (simp add: window_ok_def velocitor_window_write_base_def cnt_add_def win_legal_def not_less)

lemma dev_ok_window:
  assumes "queues_of t = queues_of s" "heap_of t = heap_of s" "firmware_of t = firmware_of s"
    "mem t = mem s" "window_ok t" "dev_ok s"
  shows "dev_ok t"
  using assms queues_ok_cong [of t s] heap_ok_cong [of t s] fw_ok_cong [of t s]
  by (simp add: dev_ok_def mem_bounded_def)

lemma promote_mem: "mem (velocitor_window_promote s) = mem s" "mem (velocitor_window_write_base s b) = mem s"
  by (simp_all add: velocitor_window_promote_def velocitor_window_write_base_def Let_def cnt_add_def)

lemma promote_dev_ok: "dev_ok s \<Longrightarrow> dev_ok (velocitor_window_promote s)"
  by (rule dev_ok_window [of _ s])
    (simp_all add: frames promote_mem, simp_all add: dev_ok_def window_promote_ok)

lemma window_write_base_dev_ok: "dev_ok s \<Longrightarrow> dev_ok (velocitor_window_write_base s b)"
  by (rule dev_ok_window [of _ s])
    (simp_all add: frames promote_mem, simp_all add: dev_ok_def window_write_base_ok)

lemma mem_bounded_write:
  "mem_bounded s \<Longrightarrow> a + length bs \<le> VEL_MEM_SIZE \<Longrightarrow> mem_bounded (s\<lparr>mem := mem_store (mem s) a bs\<rparr>)"
  by (simp add: mem_bounded_def mem_store_out)

lemma dev_ok_mem:
  assumes "dev_ok s" and "queues_of t = queues_of s" "heap_of t = heap_of s" "firmware_of t = firmware_of s"
    "window_of t = window_of s" "mem_bounded t"
  shows "dev_ok t"
  using assms queues_ok_cong [of t s] heap_ok_cong [of t s] fw_ok_cong [of t s] window_ok_cong [of t s]
  by (simp add: dev_ok_def)

lemma dma_range:
  fixes d n :: u32
  assumes "\<not> (ucast d + ucast n :: u64) > 0x10000000"
  shows "unat d + unat n \<le> 0x10000000"
  using assms u64_sum_bound [of "0x10000000" d n] by (simp add: not_less)

lemma dma_run_bounded:
  assumes "bus_fills B" and "mem_bounded s" and "fw_ok s"
  shows "mem_bounded (velocitor_dma_run B s)"
proof -
  let ?a = "addr64 (dma_addr_hi s) (dma_addr_lo s)"
  have fail: "mem_bounded (velocitor_dma_fail t c i)" if "mem_bounded t" "fw_ok t" for t :: "'a velocitor_state" and c i
  proof -
    have "firmware_of (velocitor_dma_fail t c i) = firmware_of t" by (simp add: frames)
    then have "ring_ok (velocitor_dma_fail t c i)" using that(2) fw_ok_cong fw_okD by blast
    then show ?thesis
      by (rule mem_bounded_store [of _ t, rotated 2]) (use that in \<open>simp_all add: frames fw_okD\<close>)
  qed
  have cnt: "mem_bounded (cnt_add r k t) = mem_bounded t" for r k and t :: "'a velocitor_state"
    by (simp add: mem_bounded_def cnt_add_def)
  obtain u ok where tr: "velocitor_dma_transfer B s ?a = (u, ok)" by fastforce
  have fw: "fw_ok u" using dma_transfer_frame(3) [of B s ?a] tr fw_ok_cong [of u s] assms(3) by simp
  obtain bs okr where rd: "pci_dma_read B (host s) ?a (unat (dma_len s)) = (bs, okr)" by fastforce
  obtain h okw where wr: "pci_dma_write B (host s) ?a (mem_load (mem s) (unat (dma_dev s)) (unat (dma_len s))) = (h, okw)"
    by fastforce
  have u: "mem_bounded u" if "unat (dma_dev s) + unat (dma_len s) \<le> VEL_MEM_SIZE"
  proof -
    have "mem_bounded (s\<lparr>mem := mem_store (mem s) (unat (dma_dev s)) bs\<rparr>)"
      using that bus_fillsD [OF assms(1) rd] assms(2) by (intro mem_bounded_write) simp_all
    moreover have "mem_bounded (s\<lparr>host := h\<rparr>)" using assms(2) by (simp add: mem_bounded_def)
    ultimately show ?thesis
      using tr rd wr by (cases "dma_ctl s = VEL_DBG_DMA_H2D")
        (auto simp: velocitor_dma_transfer_def Let_def cnt)
  qed
  have st: "mem_bounded (t\<lparr>dma_status := x\<rparr>) = mem_bounded t" for x and t :: "'a velocitor_state"
    by (simp add: mem_bounded_def)
  consider "?a \<ge> 2 ^ 42" | "?a < 2 ^ 42" "(ucast (dma_dev s) + ucast (dma_len s) :: u64) > 0x10000000"
    | "?a < 2 ^ 42" "\<not> (ucast (dma_dev s) + ucast (dma_len s) :: u64) > 0x10000000"
    by (meson not_le)
  then show ?thesis
  proof cases
    case 3
    with u fail [OF _ fw] dma_range [OF 3(2)] tr show ?thesis
      by (simp add: velocitor_dma_run_def Let_def st not_le [symmetric] del: not_le)
  qed (use fail assms(2,3) in \<open>simp_all add: velocitor_dma_run_def Let_def cnt\<close>)
qed

lemma dma_run_ok:
  assumes "bus_fills B" and "dev_ok s"
  shows "dev_ok (velocitor_dma_run B s)"
  by (rule dev_ok_mem [of s])
    (use assms dma_run_bounded [of B s] in \<open>simp_all add: frames dev_ok_def\<close>)

lemma boot_done_ok: "dev_ok s \<Longrightarrow> dev_ok (velocitor_boot_done s)"
  using queues_ok_cong [of "velocitor_boot_done s" s] window_ok_cong [of "velocitor_boot_done s" s]
  by (simp add: dev_ok_def keeps frames)

lemma vq_service_ok:
  assumes "bus_fills B" and "velocitor_vq_service B s = Some t" and "dev_ok s"
  shows "dev_ok t"
proof -
  have i: "svc_inv s t" using vq_service_inv [OF assms(1,2)] assms(3) by (simp add: dev_ok_def)
  then have eq: "queues_of t = queues_of s" "firmware_of t = firmware_of s" "window_of t = window_of s"
    and heap: "heap_ok t" by (simp_all add: svc_inv_def svc_rest_def)
  have fw: "fw_ok t" "fw_ok s" using assms(3) fw_ok_cong [OF eq(2)] by (simp_all add: dev_ok_def)
  have "mem t j = 0" if j: "j \<ge> VEL_MEM_SIZE" for j
  proof -
    have "store_of t j = mem t j" "store_of s j = mem s j"
      using j fw by (auto simp: store_of_def trace_area_def fw_ok_def ring_ok_def)
    moreover have "store_of t j = store_of s j" using i j by (simp add: svc_inv_def)
    ultimately show ?thesis using j assms(3) by (simp add: dev_ok_def mem_bounded_def)
  qed
  then show ?thesis
    using heap fw assms(3) queues_ok_cong [OF eq(1)] window_ok_cong [OF eq(3)]
    by (simp add: dev_ok_def mem_bounded_def)
qed

lemma fill_fold_out:
  "4 * n \<le> i \<Longrightarrow> fold (\<lambda>k m. mem_store m (4 * k) (put_le 4 (word_of_nat (4 * k) :: u32))) [0..<n] m i = m i"
  by (induction n) (simp_all add: mem_store_out)

lemma mem_upd: "mem (s\<lparr>mem := m\<rparr>) = m"
  by simp

lemma fill_pattern_bounded: "mem_bounded s \<Longrightarrow> mem_bounded (velocitor_mem_fill_pattern s)"
proof -
  have "mem (velocitor_mem_fill_pattern s) i = mem s i" if "VEL_MEM_SIZE \<le> i" for i
    unfolding velocitor_mem_fill_pattern_def mem_upd
    by (rule fill_fold_out) (use that in simp)
  then show "mem_bounded s \<Longrightarrow> ?thesis" by (simp add: mem_bounded_def)
qed

lemma reset_values:
  "queues_ok (velocitor_reset s)" if "\<forall>q \<ge> VEL_VQ_COUNT. queue_ok (vq s q)" for s :: "'h velocitor_state"
  using that by (simp add: queues_ok_def velocitor_reset_def Let_def velocitor_mem_fill_pattern_def
      velocitor_alloc_reset_def queue_ok_def no_queue_def)

lemma reset_heap_ok: "heap_ok (velocitor_reset s)"
proof -
  have "heap_of (velocitor_reset s) = heap_of (velocitor_alloc_reset s)"
    by (simp add: velocitor_reset_def Let_def velocitor_mem_fill_pattern_def velocitor_alloc_reset_def heap_of_def)
  then show ?thesis using alloc_reset_heap_ok heap_ok_cong by blast
qed

lemma reset_ok:
  assumes "mem_bounded s" and "\<forall>q \<ge> VEL_VQ_COUNT. queue_ok (vq s q)"
  shows "dev_ok (velocitor_reset s)"
proof -
  have "mem_bounded (velocitor_reset s)"
  proof -
    have "mem (velocitor_reset s) = mem (velocitor_mem_fill_pattern s)"
      by (simp add: velocitor_reset_def Let_def velocitor_mem_fill_pattern_def velocitor_alloc_reset_def)
    then show ?thesis using fill_pattern_bounded [OF assms(1)] by (simp add: mem_bounded_def)
  qed
  moreover have "fw_ok (velocitor_reset s)" "window_ok (velocitor_reset s)"
    by (simp_all add: fw_ok_def ring_ok_def window_ok_def win_legal_def velocitor_reset_def Let_def
        velocitor_mem_fill_pattern_def)
  ultimately show ?thesis
    using reset_values [OF assms(2)] reset_heap_ok by (simp add: dev_ok_def)
qed

lemma power_on_ok: "dev_ok (velocitor_power_on h)"
  unfolding velocitor_power_on_def
  by (rule reset_ok) (simp_all add: mem_bounded_def velocitor_new_def queue_ok_def no_queue_def)

lemma migrate_ok:
  assumes "dev_ok s"
  shows "dev_ok (velocitor_migrate s)"
proof -
  have w: "window_off (velocitor_power_on (host s)) = 0"
    by (simp add: velocitor_power_on_def velocitor_reset_def Let_def velocitor_mem_fill_pattern_def)
  have "queues_ok (velocitor_migrate s)" "heap_ok (velocitor_migrate s)" "fw_ok (velocitor_migrate s)"
    "mem_bounded (velocitor_migrate s)"
    using assms by (simp_all add: dev_ok_def velocitor_migrate_def velocitor_vmstate_load_def queues_ok_def
        heap_ok_def fw_ok_def ring_ok_def mem_bounded_def)
  moreover have "window_ok (velocitor_migrate s)"
    using assms w by (simp add: dev_ok_def velocitor_migrate_def velocitor_vmstate_load_def window_ok_def)
  ultimately show ?thesis by (simp add: dev_ok_def)
qed

lemma bar0_read_state:
  "fst (velocitor_bar0_read s addr sz) = s
     \<or> addr = VEL_REG_WIN_BASE \<and> fst (velocitor_bar0_read s addr sz) = velocitor_window_promote s"
  by (simp add: velocitor_bar0_read_def Let_def split: option.split)

lemma bar0_read_ok: "dev_ok s \<Longrightarrow> dev_ok (fst (velocitor_bar0_read s addr sz))"
  using bar0_read_state [of s addr sz] promote_dev_ok [of s] by auto

lemma dev_core_upd:
  "dev_core (s\<lparr>scratch := w\<rparr>) = dev_core s" "dev_core (s\<lparr>cnt := c\<rparr>) = dev_core s"
  "dev_core (s\<lparr>cnt_snap := c\<rparr>) = dev_core s" "dev_core (s\<lparr>dma_addr_lo := w\<rparr>) = dev_core s"
  "dev_core (s\<lparr>dma_addr_hi := w\<rparr>) = dev_core s" "dev_core (s\<lparr>dma_dev := w\<rparr>) = dev_core s"
  "dev_core (s\<lparr>dma_len := w\<rparr>) = dev_core s" "dev_core (s\<lparr>rsc_addr_lo := w\<rparr>) = dev_core s"
  "dev_core (s\<lparr>rsc_addr_hi := w\<rparr>) = dev_core s" "dev_core (s\<lparr>rsc_len := w\<rparr>) = dev_core s"
  "dev_core (s\<lparr>irq_mask := w\<rparr>) = dev_core s" "dev_core (s\<lparr>irq_status := w\<rparr>) = dev_core s"
  "dev_core (s\<lparr>err_inject_arg := w\<rparr>) = dev_core s" "dev_core (s\<lparr>host := h\<rparr>) = dev_core s"
  "dev_core (s\<lparr>msix_on := b\<rparr>) = dev_core s" "dev_core (s\<lparr>clock := t\<rparr>) = dev_core s"
  "dev_core (s\<lparr>dma_timer := d\<rparr>) = dev_core s" "dev_core (s\<lparr>vq_timer := d\<rparr>) = dev_core s"
  "dev_core (velocitor_dma_start s w) = dev_core s" "dev_core (velocitor_doorbell s w) = dev_core s"
  by (simp_all add: dev_core_def frames)
    (simp_all add: velocitor_dma_start_def velocitor_doorbell_def velocitor_vq_arm_def Let_def split: option.split)

lemmas core_ok = dev_core_upd [THEN dev_ok_core]

lemma reset_write_ok: "dev_ok s \<Longrightarrow> dev_ok (velocitor_reset_write s v)"
  using reset_write_keeps [of s v] heap_ok_cong [of "velocitor_reset_write s v" s]
    window_ok_cong [of "velocitor_reset_write s v" s]
  by (simp add: dev_ok_def frames)

lemma err_inject_ok: "dev_ok s \<Longrightarrow> dev_ok (err_inject_write s v)"
  using err_inject_keeps [of s v] heap_ok_cong [of "err_inject_write s v" s]
    window_ok_cong [of "err_inject_write s v" s]
  by (simp add: dev_ok_def frames)

lemma vq_write_mem: "mem_bounded s \<Longrightarrow> fw_ok s \<Longrightarrow> mem_bounded (velocitor_vq_write s a v)"
  by (rule mem_bounded_store [of _ s])
    (use fw_ok_cong [of "velocitor_vq_write s a v" s] in \<open>simp_all add: frames fw_okD\<close>)

lemma vq_write_dev_ok: "dev_ok s \<Longrightarrow> dev_ok (velocitor_vq_write s a v)"
  using vq_write_mem [of s a v] vq_write_ok [of s a v] heap_ok_cong [of "velocitor_vq_write s a v" s]
    fw_ok_cong [of "velocitor_vq_write s a v" s] window_ok_cong [of "velocitor_vq_write s a v" s]
  by (simp add: dev_ok_def frames)

lemma rsc_publish_ok: "dev_ok s \<Longrightarrow> dev_ok (velocitor_rsc_publish B s v)"
  by (rule dev_ok_rest [OF rsc_publish_rest])

lemma bar0_write_ok: "dev_ok s \<Longrightarrow> dev_ok (velocitor_bar0_write B s addr val sz)"
  by (simp add: velocitor_bar0_write_def Let_def core_ok reset_write_ok err_inject_ok vq_write_dev_ok
      rsc_publish_ok window_write_base_dev_ok cnt_snap_write_def cnt_reset_write_def
      dev_ok_core [OF dev_core_upd(1)])

lemma bar2_target_bound: "window_ok s \<Longrightarrow> bar2_target s a = Some i \<Longrightarrow> i < VEL_MEM_SIZE"
  by (auto simp: bar2_target_def window_ok_def split: if_splits)

lemma bar2_write_ok: "dev_ok s \<Longrightarrow> dev_ok (bar2_write s a b)"
proof -
  assume ok: "dev_ok s"
  have "mem_bounded (s\<lparr>mem := (mem s)(i := b)\<rparr>)" if "bar2_target s a = Some i" for i
    using bar2_target_bound [OF _ that] ok by (auto simp: dev_ok_def mem_bounded_def)
  with ok show ?thesis
    by (auto simp: bar2_write_def frames intro: dev_ok_mem split: option.split)
qed

lemma dev_step_ok:
  assumes "bus_fills B" and "dev_ok s" and "dev_step B s l t"
  shows "dev_ok t"
  using assms(3)
proof cases
  case boot_timer
  have "dev_ok (s\<lparr>boot_timer := None\<rparr>)"
    using assms(2) by (simp add: dev_ok_def queues_ok_def heap_ok_def fw_ok_def ring_ok_def window_ok_def mem_bounded_def)
  then show ?thesis unfolding boot_timer by (rule boot_done_ok)
next
  case vq_timer
  then show ?thesis using vq_service_ok [OF assms(1)] core_ok(18) [OF assms(2)] by blast
next
  case reset
  then show ?thesis using assms(2) reset_ok [of s] by (simp add: dev_ok_def queues_ok_def)
qed (use assms in \<open>simp_all add: bar0_read_ok bar0_write_ok bar2_write_ok core_ok dma_run_ok migrate_ok\<close>)

section \<open>Runs of the device\<close>

interpretation device: safe_machine "dev_step B" "\<lambda>_. True" "\<lambda>s. bus_fills B \<and> dev_ok s"
  for B :: "'h pci_bus"
  by unfold_locales (auto intro: dev_step_ok)

text \<open>Within one firmware session: no boot completes and the device is not reset.\<close>

fun in_session :: "'h label \<Rightarrow> bool" where
  "in_session Boot_Timer = False"
| "in_session Reset = False"
| "in_session _ = True"

definition session_le :: "'h velocitor_state \<Rightarrow> 'h velocitor_state \<Rightarrow> bool" where
  "session_le s t \<longleftrightarrow> generation t = generation s \<and> heap_older s t"

lemma session_le_trans: "session_le s t \<Longrightarrow> session_le t u \<Longrightarrow> session_le s u"
  by (auto simp: session_le_def intro: older_trans)

lemma session_le_heap: "heap_of t = heap_of s \<Longrightarrow> generation t = generation s \<Longrightarrow> session_le s t"
  using heap_older_cong [of t s s] by (simp add: session_le_def)

lemma fw_refuse_generation: "generation (fw_refuse s i) = generation s"
  by (simp add: fw_refuse_def)

lemma fw_verify_generation: "generation (velocitor_fw_verify s) = generation s"
  by (cases s rule: fw_verify_cases) (simp_all add: fw_refuse_generation)

lemma trace_generation: "generation (velocitor_trace s l e q m) = generation s"
  using trace_frame(3) [of s l e q m] by (simp add: firmware_of_def)

definition heap_gen :: "'h velocitor_state \<Rightarrow> _" where
  "heap_gen s = (heap_of s, generation s)"

lemma session_le_heap_gen: "heap_gen t = heap_gen s \<Longrightarrow> session_le s t"
  by (simp add: heap_gen_def session_le_heap)

lemma heap_gen_firmware:
  "heap_of t = heap_of s \<Longrightarrow> firmware_of t = firmware_of s \<Longrightarrow> heap_gen t = heap_gen s"
  by (simp add: heap_gen_def firmware_of_def)

lemma heap_gen_ops:
  "heap_gen (velocitor_vq_write s a v) = heap_gen s" "heap_gen (velocitor_window_write_base s v) = heap_gen s"
  "heap_gen (velocitor_dma_start s v) = heap_gen s" "heap_gen (velocitor_rsc_publish B s v) = heap_gen s"
  "heap_gen (velocitor_doorbell s v) = heap_gen s" "heap_gen (cnt_snap_write s x) = heap_gen s"
  "heap_gen (cnt_reset_write s x) = heap_gen s" "heap_gen (velocitor_window_promote s) = heap_gen s"
  "heap_gen (velocitor_dma_run B s) = heap_gen s"
  by (rule heap_gen_firmware; simp add: frames cnt_snap_write_def cnt_reset_write_def)+

lemma heap_gen_firmware_ops:
  "heap_gen (velocitor_reset_write s v) = heap_gen s" "heap_gen (err_inject_write s v) = heap_gen s"
  by (simp_all add: heap_gen_def frames)
    (simp_all add: velocitor_reset_write_def err_inject_write_def Let_def fw_verify_generation
      trace_generation velocitor_vq_purge_def)

lemma heap_gen_upd:
  "heap_gen (s\<lparr>scratch := w\<rparr>) = heap_gen s" "heap_gen (s\<lparr>dma_addr_lo := w\<rparr>) = heap_gen s"
  "heap_gen (s\<lparr>dma_addr_hi := w\<rparr>) = heap_gen s" "heap_gen (s\<lparr>dma_dev := w\<rparr>) = heap_gen s"
  "heap_gen (s\<lparr>dma_len := w\<rparr>) = heap_gen s" "heap_gen (s\<lparr>rsc_addr_lo := w\<rparr>) = heap_gen s"
  "heap_gen (s\<lparr>rsc_addr_hi := w\<rparr>) = heap_gen s" "heap_gen (s\<lparr>rsc_len := w\<rparr>) = heap_gen s"
  "heap_gen (s\<lparr>irq_mask := w\<rparr>) = heap_gen s" "heap_gen (s\<lparr>irq_status := w\<rparr>) = heap_gen s"
  "heap_gen (s\<lparr>err_inject_arg := w\<rparr>) = heap_gen s" "heap_gen (s\<lparr>host := h\<rparr>) = heap_gen s"
  "heap_gen (s\<lparr>msix_on := b\<rparr>) = heap_gen s" "heap_gen (s\<lparr>clock := t\<rparr>) = heap_gen s"
  "heap_gen (s\<lparr>dma_timer := d\<rparr>) = heap_gen s" "heap_gen (s\<lparr>vq_timer := d\<rparr>) = heap_gen s"
  "heap_gen (s\<lparr>mem := m\<rparr>) = heap_gen s"
  by (simp_all add: heap_gen_def frames)

lemma bar0_write_heap_gen: "heap_gen (velocitor_bar0_write B s addr val sz) = heap_gen s"
  by (simp add: velocitor_bar0_write_def Let_def heap_gen_ops heap_gen_firmware_ops heap_gen_upd)

lemma session_step:
  assumes "bus_fills B" and "dev_ok s" and "in_session l" and "dev_step B s l t"
  shows "session_le s t"
  using assms(4)
proof cases
  case (bar0_read addr sz)
  then show ?thesis using bar0_read_state [of s addr sz]
    by (auto intro: session_le_heap_gen simp: heap_gen_ops)
next
  case vq_timer
  have "svc_inv (s\<lparr>vq_timer := None\<rparr>) t"
    using vq_service_inv [OF assms(1) vq_timer(3)] assms(2) heap_ok_cong [of "s\<lparr>vq_timer := None\<rparr>" s]
    by (simp add: dev_ok_def frames)
  moreover have "session_le s (s\<lparr>vq_timer := None\<rparr>)" by (simp add: session_le_heap_gen heap_gen_upd)
  ultimately show ?thesis
    by (auto simp: svc_inv_def svc_rest_def firmware_of_def session_le_def intro: older_trans)
next
  case migrate
  then show ?thesis
    by (simp add: session_le_heap heap_of_def velocitor_migrate_def velocitor_vmstate_load_def)
qed (use assms(3) in \<open>auto intro!: session_le_heap_gen
    simp: bar0_write_heap_gen heap_gen_ops heap_gen_upd bar2_write_def split: option.split\<close>)

interpretation session: ordered_machine "dev_step B" in_session "\<lambda>s. bus_fills B \<and> dev_ok s" session_le
  for B :: "'h pci_bus"
  by unfold_locales (auto intro: dev_step_ok session_step session_le_trans, simp_all add: session_le_def)

section \<open>The window follows WIN_BASE\<close>

definition window_synced :: "'h velocitor_state \<Rightarrow> bool" where
  "window_synced s \<longleftrightarrow> window_off s = ucast (win_base s)"

fun not_migrated :: "'h label \<Rightarrow> bool" where
  "not_migrated Migrate = False"
| "not_migrated _ = True"

lemma synced_window: "window_of t = window_of s \<Longrightarrow> window_synced s \<Longrightarrow> window_synced t"
  by (simp add: window_synced_def window_of_def)

lemma promote_synced: "window_synced s \<Longrightarrow> window_synced (velocitor_window_promote s)"
  by (simp add: window_synced_def velocitor_window_promote_def Let_def cnt_add_def)

lemma write_base_synced: "window_synced s \<Longrightarrow> window_synced (velocitor_window_write_base s b)"
  by (simp add: window_synced_def velocitor_window_write_base_def cnt_add_def)

lemma bar0_write_window:
  "addr \<noteq> VEL_REG_WIN_BASE \<Longrightarrow> window_of (velocitor_bar0_write B s addr val sz) = window_of s"
  by (simp add: velocitor_bar0_write_def Let_def cnt_snap_write_def cnt_reset_write_def frames)

lemma bar0_write_base:
  "velocitor_bar0_write B s VEL_REG_WIN_BASE val sz =
     (if sz = 4 then velocitor_window_write_base s (ucast val) else s)"
  by (simp add: velocitor_bar0_write_def Let_def velocitor_access_ok_def)

lemma reset_window: "window_synced (velocitor_reset s)"
  by (simp add: window_synced_def velocitor_reset_def Let_def velocitor_mem_fill_pattern_def)

lemma synced_step:
  assumes "bus_fills B" and "dev_ok s" and "window_synced s" and "not_migrated l" and "dev_step B s l t"
  shows "window_synced t"
  using assms(5)
proof cases
  case (bar0_read addr sz)
  then show ?thesis using bar0_read_state [of s addr sz] assms(3) promote_synced by metis
next
  case (bar0_write addr val sz)
  then show ?thesis
    using bar0_write_window [of addr B s val sz] bar0_write_base [of B s val sz] assms(3)
      write_base_synced synced_window
    by (cases "addr = VEL_REG_WIN_BASE") auto
next
  case vq_timer
  have "svc_inv (s\<lparr>vq_timer := None\<rparr>) t"
    using vq_service_inv [OF assms(1) vq_timer(3)] assms(2) heap_ok_cong [of "s\<lparr>vq_timer := None\<rparr>" s]
    by (simp add: dev_ok_def frames)
  then have "window_of t = window_of s" by (simp add: svc_inv_def svc_rest_def frames)
  then show ?thesis using assms(3) by (rule synced_window)
qed (use assms(3,4) reset_window in \<open>auto intro: synced_window [of _ s]
    simp: frames bar2_write_def split: option.split\<close>)

interpretation windowed: safe_machine "dev_step B" not_migrated "\<lambda>s. bus_fills B \<and> dev_ok s \<and> window_synced s"
  for B :: "'h pci_bus"
  by unfold_locales (auto intro: dev_step_ok synced_step)

lemma reach_dev_ok: "bus_fills B \<Longrightarrow> dev_reach B allowed s \<Longrightarrow> dev_ok s"
  using device.run_good [where B = B] power_on_ok by (fastforce simp: dev_reach_def list_all_iff)

lemma reach_synced: "bus_fills B \<Longrightarrow> dev_reach B not_migrated s \<Longrightarrow> window_synced s"
  using windowed.run_good [where B = B] power_on_ok reset_window
  by (fastforce simp: dev_reach_def velocitor_power_on_def)

section \<open>The window between its commits\<close>

text \<open>
  The accesses and events that commit no base: anything but a read of WIN_BASE, a reset of the
  device and a migration. Of those, the ones that do not write WIN_BASE either leave the pending base too.
\<close>

fun no_commit :: "'h label \<Rightarrow> bool" where
  "no_commit (Read a sz) \<longleftrightarrow> a \<noteq> VEL_REG_WIN_BASE"
| "no_commit Reset \<longleftrightarrow> False"
| "no_commit Migrate \<longleftrightarrow> False"
| "no_commit _ \<longleftrightarrow> True"

fun no_seek :: "'h label \<Rightarrow> bool" where
  "no_seek (Write a v sz) \<longleftrightarrow> a \<noteq> VEL_REG_WIN_BASE"
| "no_seek l \<longleftrightarrow> no_commit l"

definition same_view :: "'h velocitor_state \<Rightarrow> 'h velocitor_state \<Rightarrow> bool" where
  "same_view s t \<longleftrightarrow> win_base t = win_base s \<and> window_off t = window_off s"

definition same_window :: "'h velocitor_state \<Rightarrow> 'h velocitor_state \<Rightarrow> bool" where
  "same_window s t \<longleftrightarrow> window_of t = window_of s"

lemma same_view_window: "window_of t = window_of s \<Longrightarrow> same_view s t"
  by (simp add: same_view_def window_of_def)

lemma write_base_view: "same_view s (velocitor_window_write_base s b)"
  by (simp add: same_view_def velocitor_window_write_base_def cnt_add_def)

lemma no_seek_step:
  assumes "bus_fills B" and "dev_ok s" and "no_seek l" and "dev_step B s l t"
  shows "window_of t = window_of s"
  using assms(4)
proof cases
  case (bar0_read addr sz)
  then show ?thesis using bar0_read_state [of s addr sz] assms(3) by auto
next
  case (bar0_write addr val sz)
  then show ?thesis using bar0_write_window [of addr B s val sz] assms(3) by simp
next
  case vq_timer
  have "svc_inv (s\<lparr>vq_timer := None\<rparr>) t"
    using vq_service_inv [OF assms(1) vq_timer(3)] assms(2) heap_ok_cong [of "s\<lparr>vq_timer := None\<rparr>" s]
    by (simp add: dev_ok_def frames)
  then show ?thesis by (simp add: svc_inv_def svc_rest_def frames)
qed (use assms(3) in \<open>auto simp: frames bar2_write_def split: option.split\<close>)

lemma no_commit_step:
  assumes "bus_fills B" and "dev_ok s" and "no_commit l" and "dev_step B s l t"
  shows "same_view s t"
proof (cases "\<exists>v sz. l = Write VEL_REG_WIN_BASE v sz")
  case True
  then obtain v sz where l: "l = Write VEL_REG_WIN_BASE v sz" by blast
  have "t = velocitor_bar0_write B s VEL_REG_WIN_BASE v sz" using assms(4) unfolding l dev_step_simps .
  then show ?thesis by (simp only: bar0_write_base) (simp add: write_base_view, simp add: same_view_def)
next
  case False
  then have "no_seek l" using assms(3) by (cases l) auto
  then show ?thesis using no_seek_step [OF assms(1,2) _ assms(4)] by (intro same_view_window) simp
qed

interpretation unseeking: ordered_machine "dev_step B" no_seek "\<lambda>s. bus_fills B \<and> dev_ok s" same_window
  for B :: "'h pci_bus"
  by unfold_locales (auto intro: dev_step_ok simp: same_window_def no_seek_step)

interpretation uncommitting: ordered_machine "dev_step B" no_commit "\<lambda>s. bus_fills B \<and> dev_ok s" same_view
  for B :: "'h pci_bus"
  by unfold_locales (auto intro: dev_step_ok no_commit_step, auto simp: same_view_def)

section \<open>Properties\<close>

text \<open>C1. Every state the device can reach, whatever the host writes, in whatever order the accesses and
  the timers come, is well formed: the selected queue exists; an enabled queue has between 1 and 256
  descriptors and an MSI-X vector of the device; the live blocks lie in device memory and never
  meet; FW_STATUS is one of its four values and the trace ring, when announced, lies in the fixed
  aperture; the window shows a part of device memory; and no byte beyond device memory was written.\<close>

theorem reachable_well_formed:
  assumes "bus_fills B" and "dev_reach B (\<lambda>_. True) s"
  shows "vq_select s < VEL_VQ_COUNT
     \<and> (\<forall>q. q_enable (vq s q) = 0 \<or> 0 < q_num (vq s q) \<and> q_num (vq s q) \<le> VEL_VRING_NUM
          \<and> q_msix_vector (vq s q) < VEL_MSIX_VECTORS)
     \<and> (\<forall>h b. heap_lookup s h = Some b \<longrightarrow> VEL_NODE0_BASE \<le> unat (a_offset b)
          \<and> unat (a_offset b) + unat (a_size b) \<le> VEL_MEM_SIZE)
     \<and> (\<forall>h k b c. heap_lookup s h = Some b \<and> heap_lookup s k = Some c \<and> h \<noteq> k \<longrightarrow> apart b c)
     \<and> fw_status s \<le> VEL_FW_STATUS_CRASHED
     \<and> (trace_da s = 0 \<or> unat (trace_da s) + VEL_TRACE_SIZE \<le> VEL_APERTURE_SIZE)
     \<and> unat (window_off s) + VEL_WINDOW_SIZE \<le> VEL_MEM_SIZE
     \<and> (\<forall>i \<ge> VEL_MEM_SIZE. mem s i = 0)"
proof -
  have ok: "dev_ok s" using reach_dev_ok [OF assms] .
  have q: "q_enable (vq s q) = 0 \<or> 0 < q_num (vq s q) \<and> q_num (vq s q) \<le> VEL_VRING_NUM
      \<and> q_msix_vector (vq s q) < VEL_MSIX_VECTORS" for q
    using ok by (auto simp: dev_ok_def queues_ok_def queue_ok_def)
  have b: "VEL_NODE0_BASE \<le> unat (a_offset b) \<and> unat (a_offset b) + unat (a_size b) \<le> VEL_MEM_SIZE"
    if "heap_lookup s h = Some b" for h b
    using ok live_block_range [OF _ that] by (simp add: dev_ok_def)
  have "apart b c" if "heap_lookup s h = Some b" "heap_lookup s k = Some c" "h \<noteq> k" for h k b c
    using ok heap_lookup_apart [OF _ that] by (simp add: dev_ok_def)
  then show ?thesis using ok q b
    by (auto simp: dev_ok_def queues_ok_def fw_ok_def ring_ok_def window_ok_def mem_bounded_def)
qed

definition quiet_bus :: "unit pci_bus" where
  "quiet_bus = \<lparr>pci_dma_read = \<lambda>_ _ n. (replicate n 0, True), pci_dma_write = \<lambda>_ _ _. ((), True)\<rparr>"

lemma quiet_bus_fills: "bus_fills quiet_bus"
  by (simp add: bus_fills_def quiet_bus_def)

lemma dev_reachI: "run (dev_step B) (velocitor_power_on h) ls s \<Longrightarrow> list_all allowed ls \<Longrightarrow> dev_reach B allowed s"
  by (auto simp: dev_reach_def)

lemma power_on_reach: "dev_reach B allowed (velocitor_power_on h)"
  by (rule dev_reachI [of _ h "[]"]) (simp_all)

theorem reachable_well_formed_witness:
  "vq_select (velocitor_power_on ()) < VEL_VQ_COUNT \<and> mem (velocitor_power_on ()) VEL_MEM_SIZE = 0
     \<and> unat (window_off (velocitor_power_on ())) + VEL_WINDOW_SIZE \<le> VEL_MEM_SIZE"
  using reachable_well_formed [OF quiet_bus_fills power_on_reach [of _ _ "()"]] by blast

text \<open>C13. Handles are stable within a firmware session: along any run of the device in which no boot
  completes and the device is not reset, GENERATION stays, and every handle issued before the run
  names after it either nothing or exactly the memory it named before; so a handle that was freed,
  or never live, stays dead however the host interleaves its accesses, and no handle is ever reused.\<close>

theorem session_handles_stable:
  assumes "bus_fills B" and "dev_ok s" and "run (dev_step B) s ls t"
    and "list_all in_session ls" and "0 < h" and "h < next_handle s"
  shows "generation t = generation s
     \<and> (heap_lookup t h = None
        \<or> map_option block_extent (heap_lookup t h) = map_option block_extent (heap_lookup s h))"
proof -
  have "session_le s t" using session.run_le [OF assms(3) _ assms(4)] assms(1,2) by blast
  then show ?thesis using assms(5,6)
    by (auto simp: session_le_def older_def heap_issued_def)
qed

text \<open>A powered-on device that has allocated one block.\<close>

definition one_block_device :: "unit velocitor_state" where
  "one_block_device = fst (velocitor_alloc_block (velocitor_power_on ())
     \<lparr>areq_size = 100, areq_dtype = 0, areq_node = 0\<rparr>)"

lemma alloc_block_dev_ok:
  assumes "dev_ok s"
  shows "dev_ok (fst (velocitor_alloc_block s req))"
proof -
  obtain t r where t: "velocitor_alloc_block s req = (t, r)" by fastforce
  have r: "queues_of t = queues_of s" "firmware_of t = firmware_of s" "window_of t = window_of s"
    "store_of t = store_of s" using alloc_block_rest [OF t] by (simp_all add: ctrl_rest_def)
  have "fw_ok t" using assms fw_ok_cong [OF r(2)] by (simp add: dev_ok_def)
  moreover have "mem_bounded t"
    by (rule mem_bounded_store [OF r(4)]) (use assms \<open>fw_ok t\<close> in \<open>simp_all add: dev_ok_def fw_okD\<close>)
  ultimately show ?thesis
    using assms t alloc_block_heap_ok [OF _ t] queues_ok_cong [OF r(1)] window_ok_cong [OF r(3)]
    by (simp add: dev_ok_def)
qed

lemma one_block_device_issued: "next_handle one_block_device = 2"
  by (simp add: one_block_device_def velocitor_power_on_def velocitor_reset_def Let_def
      velocitor_alloc_block_def velocitor_alloc_pick_node_def ROUND_UP_256 velocitor_node_free_def
      velocitor_node_end_def velocitor_node_base_def velocitor_mem_fill_pattern_def
      velocitor_alloc_reset_def)

theorem session_handles_stable_witness:
  "generation (fst (velocitor_bar0_read one_block_device VEL_REG_WIN_BASE 4)) = generation one_block_device"
proof -
  have "dev_ok one_block_device"
    unfolding one_block_device_def by (intro alloc_block_dev_ok power_on_ok)
  from session_handles_stable [OF quiet_bus_fills this, of "[Read VEL_REG_WIN_BASE 4]" _ 1]
  show ?thesis by (simp add: dev_step_simps one_block_device_issued word_less_nat_alt del: VEL_REG_WIN_BASE_def)
qed

text \<open>C14. WIN_BASE moves when it is read back, and only then. On a device that was not migrated and has no
  WIN_IGNORE fault injected, writing a legal base leaves the window where it was, through any accesses
  and events, until WIN_BASE is accessed again or the device is reset or migrated; the read of it that
  follows returns the base written; and from then on, until WIN_BASE is read again or the device is
  reset or migrated (a mere write of another base does not matter), byte \<open>i\<close> of the window is device
  byte base + \<open>i\<close>, which exists.\<close>

theorem window_readback_commits:
  assumes "bus_fills B" and "dev_reach B not_migrated s" and "win_legal v" and "i < VEL_WINDOW_SIZE"
    and "err_inject s AND VEL_ERR_INJECT_WIN_IGNORE = 0"
    and "w = velocitor_bar0_write B s VEL_REG_WIN_BASE (ucast v) 4"
    and "run (dev_step B) w ls u" and "list_all no_seek ls"
    and "velocitor_bar0_read u VEL_REG_WIN_BASE 4 = (r, x)"
    and "run (dev_step B) r ms t" and "list_all no_commit ms"
  shows "bar2_target u (VEL_BAR2_WINDOW_OFF + i) = Some (unat (win_base s) + i)
     \<and> x = ucast v \<and> bar2_target t (VEL_BAR2_WINDOW_OFF + i) = Some (unat v + i)
     \<and> unat v + i < VEL_MEM_SIZE"
proof -
  have "(ucast (ucast v :: u64) :: u32) = v" by transfer simp
  then have w: "w = s\<lparr>win_pending := v\<rparr>"
    using assms(3,5) unfolding assms(6) bar0_write_base
    by (auto simp: velocitor_window_write_base_def win_legal_def)
  have ok: "dev_ok w" using reach_dev_ok [OF assms(1,2)] dev_step_ok [OF assms(1) _ bar0_write, of s] assms(6) by simp
  have u: "window_of u = window_of w" "dev_ok u"
    using unseeking.run_le [OF assms(7) _ assms(8)] unseeking.run_good [OF assms(7) _ assms(8)] ok assms(1)
    by (simp_all add: same_window_def)
  have sync: "window_off s = ucast (win_base s)"
    using reach_synced [OF assms(1,2)] by (simp add: window_synced_def)
  have base: "win_base u = win_base s" "win_pending u = v" "window_off u = ucast (win_base s)"
    using u(1) w sync by (simp_all add: window_of_def)
  have r: "r = velocitor_window_promote u" "x = ucast (win_base r)"
    using assms(9) by (auto simp: velocitor_bar0_read_def velocitor_access_ok_def Let_def)
  have rv: "window_off r = ucast v" "win_base r = v"
    using base by (simp_all add: r(1) velocitor_window_promote_def Let_def cnt_add_def)
  have "dev_ok r" using window_promote_ok u(2) promote_dev_ok r(1) by simp
  then have "same_view r t" using uncommitting.run_le [OF assms(10) _ assms(11)] assms(1) by simp
  moreover have "unat v \<le> 0xF000000" using assms(3) by (simp add: win_legal_def word_le_nat_alt)
  ultimately show ?thesis using base rv r(2) assms(4) by (simp add: bar2_target_def same_view_def)
qed

text \<open>C16. Reads of BAR0 have no effect but the commit of WIN_BASE, and malformed accesses have none at all: an
  access that is not four aligned bytes reads all ones and writes nothing; any other read returns
  with the state unchanged unless it reads WIN_BASE.\<close>

theorem bar0_accesses_contained:
  "(sz \<noteq> 4 \<or> addr AND 3 \<noteq> 0 \<longrightarrow>
      velocitor_bar0_read s addr sz = (s, - 1) \<and> velocitor_bar0_write B s addr val sz = s)
   \<and> (addr \<noteq> VEL_REG_WIN_BASE \<longrightarrow> fst (velocitor_bar0_read s addr sz) = s)"
proof -
  have "fst (velocitor_bar0_read s addr sz) = s" if "addr \<noteq> VEL_REG_WIN_BASE"
    using bar0_read_state [of s addr sz] that by blast
  then show ?thesis
    by (simp add: velocitor_bar0_read_def velocitor_bar0_write_def velocitor_access_ok_def Let_def)
qed

theorem bar0_accesses_contained_witness:
  "velocitor_bar0_read (velocitor_new ()) 6 4 = (velocitor_new (), - 1)
   \<and> velocitor_bar0_write quiet_bus (velocitor_new ()) 0xC 7 2 = velocitor_new ()
   \<and> fst (velocitor_bar0_read (velocitor_new ()) 0xC 4) = velocitor_new ()"
  using bar0_accesses_contained [of 4 6 "velocitor_new ()" quiet_bus 0]
    bar0_accesses_contained [of 2 "0xC" "velocitor_new ()" quiet_bus 7]
    bar0_accesses_contained [of 4 "0xC" "velocitor_new ()" quiet_bus 0]
  by simp

theorem window_readback_commits_witness:
  "\<exists>r t. velocitor_bar0_read (velocitor_bar0_write quiet_bus (velocitor_power_on ()) 0x24 0x3000000 4) 0x24 4
       = (r, 0x3000000) \<and> t = velocitor_bar0_write quiet_bus r 0x24 0x4000000 4
     \<and> bar2_target t 0x1000005 = Some 0x3000005"
proof -
  let ?w = "velocitor_bar0_write quiet_bus (velocitor_power_on ()) VEL_REG_WIN_BASE (ucast (0x3000000 :: u32)) 4"
  obtain r x where r: "velocitor_bar0_read ?w VEL_REG_WIN_BASE 4 = (r, x)" by fastforce
  let ?t = "velocitor_bar0_write quiet_bus r VEL_REG_WIN_BASE 0x4000000 4"
  have e: "err_inject (velocitor_power_on ()) = 0"
    by (simp add: velocitor_power_on_def velocitor_reset_def Let_def)
  have t: "run (dev_step quiet_bus) r [Write VEL_REG_WIN_BASE 0x4000000 4] ?t"
    unfolding run_simps dev_step_simps by blast
  have "x = ucast (0x3000000 :: u32) \<and> bar2_target ?t (VEL_BAR2_WINDOW_OFF + 5) = Some (unat (0x3000000 :: u32) + 5)"
    using window_readback_commits [OF quiet_bus_fills power_on_reach _ _ _ refl run_nil _ r t, of 5] e
    by (simp add: win_legal_def)
  with r show ?thesis by simp
qed

section \<open>Migration\<close>

text \<open>Steps that neither write RESET or ERR_INJECT nor reset the device.\<close>

fun no_lifecycle :: "'h label \<Rightarrow> bool" where
  "no_lifecycle (Write a v sz) \<longleftrightarrow> a \<noteq> VEL_REG_RESET \<and> a \<noteq> VEL_REG_ERR_INJECT"
| "no_lifecycle Reset \<longleftrightarrow> False"
| "no_lifecycle _ \<longleftrightarrow> True"

definition timer_lost :: "'h pci_bus \<Rightarrow> 'h velocitor_state \<Rightarrow> bool" where
  "timer_lost B s \<longleftrightarrow> bus_fills B \<and> dev_ok s \<and> boot_timer s = None"

definition same_firmware :: "'h velocitor_state \<Rightarrow> 'h velocitor_state \<Rightarrow> bool" where
  "same_firmware s t \<longleftrightarrow> fw_status t = fw_status s \<and> generation t = generation s
     \<and> boot_timer t = boot_timer s"

lemma same_firmware_frame: "firmware_of t = firmware_of s \<Longrightarrow> same_firmware s t"
  by (simp add: same_firmware_def firmware_of_def)

lemma bar0_write_firmware:
  "addr \<noteq> VEL_REG_RESET \<Longrightarrow> addr \<noteq> VEL_REG_ERR_INJECT \<Longrightarrow>
     firmware_of (velocitor_bar0_write B s addr val sz) = firmware_of s"
  by (simp add: velocitor_bar0_write_def Let_def cnt_snap_write_def cnt_reset_write_def frames)

lemma power_on_timers: "boot_timer (velocitor_power_on h) = None" "window_off (velocitor_power_on h) = 0"
  by (simp_all add: velocitor_power_on_def velocitor_reset_def Let_def velocitor_mem_fill_pattern_def
      velocitor_alloc_reset_def)

lemma lost_step:
  assumes "timer_lost B s" and "no_lifecycle l" and "dev_step B s l t"
  shows "same_firmware s t"
  using assms(3)
proof cases
  case (bar0_read addr sz)
  then show ?thesis using bar0_read_state [of s addr sz]
    by (auto intro: same_firmware_frame simp: frames)
next
  case (bar0_write addr val sz)
  then show ?thesis using assms(2) bar0_write_firmware [of addr B s val sz]
    by (intro same_firmware_frame) simp
next
  case boot_timer
  then show ?thesis using assms(1) by (simp add: timer_lost_def due_def)
next
  case vq_timer
  have "svc_inv (s\<lparr>vq_timer := None\<rparr>) t"
    using vq_service_inv [OF _ vq_timer(3)] assms(1) heap_ok_cong [of "s\<lparr>vq_timer := None\<rparr>" s]
    by (simp add: timer_lost_def dev_ok_def frames)
  then show ?thesis by (intro same_firmware_frame) (simp add: svc_inv_def svc_rest_def frames)
next
  case migrate
  then show ?thesis using assms(1)
    by (simp add: same_firmware_def velocitor_migrate_def velocitor_vmstate_load_def power_on_timers timer_lost_def)
qed (use assms(2) in \<open>auto intro: same_firmware_frame simp: frames bar2_write_def split: option.split\<close>)

interpretation lost: ordered_machine "dev_step B" no_lifecycle "timer_lost B" same_firmware
  for B :: "'h pci_bus"
proof unfold_locales
  show "timer_lost B t" if "timer_lost B s" "no_lifecycle l" "dev_step B s l t" for s l t
    using lost_step [OF that] that dev_step_ok [of B s l t] by (simp add: timer_lost_def same_firmware_def)
qed (auto intro: lost_step, auto simp: same_firmware_def)

text \<open>C15. A migration in the middle of a boot loses the boot: the destination keeps FW_STATUS = verified,
  and no run of it that neither writes RESET or ERR_INJECT nor resets the device ever reaches
  running, however long; and its window shows device memory from 0 although WIN_BASE still reads
  the migrated base.\<close>

theorem migrated_boot_never_completes:
  assumes "bus_fills B" and "dev_ok s" and "fw_status s = VEL_FW_STATUS_VERIFIED"
    and "run (dev_step B) (velocitor_migrate s) ls t" and "list_all no_lifecycle ls"
  shows "fw_status t = VEL_FW_STATUS_VERIFIED \<and> generation t = generation s
     \<and> bar2_target (velocitor_migrate s) VEL_BAR2_WINDOW_OFF = Some 0
     \<and> win_base (velocitor_migrate s) = win_base s"
proof -
  have m: "fw_status (velocitor_migrate s) = fw_status s" "generation (velocitor_migrate s) = generation s"
    "boot_timer (velocitor_migrate s) = None" "win_base (velocitor_migrate s) = win_base s"
    "window_off (velocitor_migrate s) = 0"
    by (simp_all add: velocitor_migrate_def velocitor_vmstate_load_def power_on_timers)
  have "timer_lost B (velocitor_migrate s)"
    using assms(1) migrate_ok [OF assms(2)] m(3) by (simp add: timer_lost_def)
  from lost.run_le [OF assms(4) this assms(5)] show ?thesis
    using m assms(3) by (simp add: same_firmware_def bar2_target_def)
qed

lemma verified_dev_ok: "dev_ok s \<Longrightarrow> dev_ok (s\<lparr>fw_status := VEL_FW_STATUS_VERIFIED, win_base := 0x1000000\<rparr>)"
  by (simp add: dev_ok_def queues_ok_def heap_ok_def fw_ok_def ring_ok_def window_ok_def mem_bounded_def
      win_legal_def)

theorem migrated_boot_never_completes_witness:
  "fw_status (fst (velocitor_bar0_read (velocitor_migrate
      ((velocitor_power_on ())\<lparr>fw_status := VEL_FW_STATUS_VERIFIED, win_base := 0x1000000\<rparr>)) 0x20 4))
    = VEL_FW_STATUS_VERIFIED"
  using migrated_boot_never_completes [OF quiet_bus_fills verified_dev_ok [OF power_on_ok [of "()"]],
      of "[Read 0x20 4]"]
  by (simp add: dev_step_simps)

section \<open>Counters and the power-on pattern\<close>

text \<open>The steps that leave the snapshot of the counters alone whatever else happens.\<close>

fun observing :: "'h label \<Rightarrow> bool" where
  "observing (Write a v sz) \<longleftrightarrow> False"
| "observing Reset \<longleftrightarrow> False"
| "observing Boot_Timer \<longleftrightarrow> False"
| "observing Vq_Timer \<longleftrightarrow> False"
| "observing _ \<longleftrightarrow> True"

definition same_snap :: "'h velocitor_state \<Rightarrow> 'h velocitor_state \<Rightarrow> bool" where
  "same_snap s t \<longleftrightarrow> cnt_snap t = cnt_snap s"

lemma trace_snap: "cnt_snap (velocitor_trace s l e q m) = cnt_snap s"
  using trace_upd [of s l e q m] by auto

lemma dma_run_snap: "cnt_snap (velocitor_dma_run B s) = cnt_snap s"
proof -
  have fail: "cnt_snap (velocitor_dma_fail t c i) = cnt_snap t" for c i and t :: "'a velocitor_state"
    by (simp add: velocitor_dma_fail_def velocitor_error_set_def velocitor_error_qualify_def trace_snap)
  have c: "cnt_snap (cnt_add r k t) = cnt_snap t" for r k and t :: "'a velocitor_state"
    by (simp add: cnt_add_def)
  have "cnt_snap (fst (velocitor_dma_transfer B s a)) = cnt_snap s" for a
    by (simp add: velocitor_dma_transfer_def Let_def c split: prod.split)
  then show ?thesis by (simp add: velocitor_dma_run_def Let_def fail c case_prod_beta)
qed

lemma observing_step:
  assumes "observing l" and "dev_step B s l t"
  shows "same_snap s t"
  using assms(2)
proof cases
  case (bar0_read addr sz)
  have "cnt_snap (velocitor_window_promote s) = cnt_snap s"
    by (simp add: velocitor_window_promote_def Let_def cnt_add_def)
  then show ?thesis using bar0_read bar0_read_state [of s addr sz] by (auto simp: same_snap_def)
qed (use assms(1) in \<open>auto simp: same_snap_def dma_run_snap bar2_write_def velocitor_migrate_def
    velocitor_vmstate_load_def split: option.split\<close>)

interpretation snapshot: ordered_machine "dev_step B" observing "\<lambda>_. True" same_snap
  for B :: "'h pci_bus"
  by unfold_locales (auto intro: observing_step, auto simp: same_snap_def)

text \<open>The counters are read as one consistent set: after CNT_SNAP is written, however many reads,
  memory accesses, bring-up transfers and ticks come in between, every counter register answers the
  value that counter had at the moment of the write.\<close>

theorem counter_snapshot_consistent:
  assumes "run (dev_step B) (velocitor_bar0_write B s VEL_REG_CNT_SNAP 1 4) ls t"
    and "list_all observing ls" and "VEL_CNT_FIRST \<le> addr" and "addr \<le> VEL_CNT_LAST" and "addr AND 3 = 0"
  shows "velocitor_bar0_read t addr 4 = (t, ucast (cnt s (VEL_CNT_INDEX addr)))"
proof -
  have "cnt_snap t = cnt_snap (velocitor_bar0_write B s VEL_REG_CNT_SNAP 1 4)"
    using snapshot.run_le [OF assms(1) TrueI assms(2)] by (simp add: same_snap_def)
  also have "\<dots> = cnt s"
    by (simp add: velocitor_bar0_write_def velocitor_access_ok_def cnt_snap_write_def)
  finally show ?thesis using assms(3-5) by (simp add: velocitor_bar0_read_def velocitor_access_ok_def)
qed

theorem counter_snapshot_consistent_witness:
  "snd (velocitor_bar0_read (velocitor_bar0_write quiet_bus
      ((velocitor_new ())\<lparr>cnt := \<lambda>_. 7\<rparr>) VEL_REG_CNT_SNAP 1 4) 0xB8 4) = 7"
  using counter_snapshot_consistent [where B = quiet_bus and s = "(velocitor_new ())\<lparr>cnt := \<lambda>_. 7\<rparr>"
      and ls = "[]" and addr = "0xB8" and
      t = "velocitor_bar0_write quiet_bus ((velocitor_new ())\<lparr>cnt := \<lambda>_. 7\<rparr>) VEL_REG_CNT_SNAP 1 4"]
  by (simp add: run_nil)

lemma fill_fold_in:
  "k < n \<Longrightarrow> mem_load (fold (\<lambda>k m. mem_store m (4 * k) (put_le 4 (word_of_nat (4 * k) :: u32))) [0..<n] m)
     (4 * k) 4 = put_le 4 (word_of_nat (4 * k) :: u32)"
proof (induction n)
  case (Suc n)
  then show ?case by (cases "k = n") (simp_all add: mem_load_store_other)
qed simp

text \<open>C17. A reset device is the device of the specification: its memory holds at every aligned address that
  address, RESET reads back asserted, no firmware runs, no queue is enabled, nothing is scheduled, the
  scratch probe reads back all ones and WIN_BASE is 0.\<close>

theorem reset_state:
  assumes "k < VEL_MEM_SIZE div 4"
  shows "mem_load (mem (velocitor_reset s)) (4 * k) 4 = put_le 4 (word_of_nat (4 * k) :: u32)
     \<and> velocitor_bar0_read (velocitor_reset s) VEL_REG_RESET 4 = (velocitor_reset s, 1)
     \<and> velocitor_bar0_read (velocitor_reset s) VEL_REG_FW_STATUS 4 = (velocitor_reset s, VEL_FW_STATUS_RESET)
     \<and> velocitor_bar0_read (velocitor_reset s) VEL_REG_SCRATCH 4 = (velocitor_reset s, 0xFFFFFFFF)
     \<and> velocitor_bar0_read (velocitor_reset s) VEL_REG_WIN_BASE 4 = (velocitor_reset s, 0)
     \<and> (\<forall>q < VEL_VQ_COUNT. q_enable (vq (velocitor_reset s) q) = 0)
     \<and> boot_timer (velocitor_reset s) = None \<and> dma_timer (velocitor_reset s) = None
     \<and> vq_timer (velocitor_reset s) = None"
proof -
  define m where "m = mem (velocitor_mem_fill_pattern s)"
  have f: "mem (velocitor_reset s) = m" "reset (velocitor_reset s) = 1" "fw_status (velocitor_reset s) = 0"
    "scratch (velocitor_reset s) = 0" "win_base (velocitor_reset s) = 0"
    "win_pending (velocitor_reset s) = 0" "boot_timer (velocitor_reset s) = None"
    "dma_timer (velocitor_reset s) = None" "vq_timer (velocitor_reset s) = None"
    "\<forall>q < 4. q_enable (vq (velocitor_reset s) q) = 0"
    by (simp_all add: m_def velocitor_reset_def Let_def velocitor_mem_fill_pattern_def
        velocitor_alloc_reset_def no_queue_def)
  have "mem_load m (4 * k) 4 = put_le 4 (word_of_nat (4 * k) :: u32)"
    unfolding m_def velocitor_mem_fill_pattern_def mem_upd by (rule fill_fold_in [OF assms])
  moreover have "(ucast (- 1 :: u32) :: u64) = 0xFFFFFFFF" by code_simp
  ultimately show ?thesis
    by (simp add: f velocitor_bar0_read_def velocitor_access_ok_def bar0_field_def
        velocitor_window_promote_def)
qed

theorem reset_state_witness:
  "mem_load (mem (velocitor_reset (velocitor_new ()))) (4 * 3) 4 = [12, 0, 0, 0]"
proof -
  have "mem_load (mem (velocitor_reset (velocitor_new ()))) (4 * 3) 4 = put_le 4 (word_of_nat (4 * 3) :: u32)"
    using reset_state [of 3 "velocitor_new ()"] by simp
  then show ?thesis by (simp add: put_le_def)
qed

end
