(* ===== verification/Drv_Handles.thy ===== *)
theory Drv_Handles
  imports Vel_Alloc Vel_Run
begin

text \<open>
  \<open>handles.c\<close>: the driver's table of live device allocations. The xarray is a list of index and
  entry pairs, each operation is atomic under its lock. The model counts the objects that
  \<open>kzalloc\<close> made and \<open>kfree\<close> did not yet return, so that a leak or a double free is visible.
\<close>

record velocitor_handle =
  vh_handle :: u32
  vh_generation :: u32
  vh_size :: u64
  vh_node :: u32
  vh_dev_offset :: u64
  vh_refcount :: nat
  vh_created :: u64

record velocitor_handles =
  h_entries :: "(u32 \<times> velocitor_handle) list"
  h_generation :: u32
  h_objects :: nat

section \<open>Operations\<close>

text \<open>\<open>kref_put\<close>: the last reference frees the entry, which is then \<open>None\<close>.\<close>

definition velocitor_handles_free :: "velocitor_handle \<Rightarrow> nat \<Rightarrow> velocitor_handle option \<times> nat" where
  "velocitor_handles_free entry objects = (None, objects - 1)"

definition velocitor_handles_release ::
  "velocitor_handle option \<Rightarrow> nat \<Rightarrow> velocitor_handle option \<times> nat" where
  "velocitor_handles_release entry objects =
     (case entry of
        None \<Rightarrow> (None, objects)
      | Some e \<Rightarrow>
          if vh_refcount e = 1 then velocitor_handles_free e objects
          else (Some (e\<lparr>vh_refcount := vh_refcount e - 1\<rparr>), objects))"

fun erase_each :: "(u32 \<times> velocitor_handle) list \<Rightarrow> velocitor_handles \<Rightarrow> velocitor_handles" where
  "erase_each [] t = t"
| "erase_each ((index, entry) # rest) t =
     (let t = t\<lparr>h_entries := filter (\<lambda>p. fst p \<noteq> index) (h_entries t)\<rparr>
      in erase_each rest (t\<lparr>h_objects := snd (velocitor_handles_release (Some entry) (h_objects t))\<rparr>))"

definition velocitor_handles_destroy_entries :: "velocitor_handles \<Rightarrow> velocitor_handles" where
  "velocitor_handles_destroy_entries t = erase_each (h_entries t) t"

definition velocitor_handles_initialize :: velocitor_handles where
  "velocitor_handles_initialize = \<lparr>h_entries = [], h_generation = 0, h_objects = 0\<rparr>"

definition velocitor_handles_regenerate :: "u32 \<Rightarrow> velocitor_handles \<Rightarrow> velocitor_handles" where
  "velocitor_handles_regenerate gen t =
     (if h_generation t \<noteq> gen then (erase_each (h_entries t) t)\<lparr>h_generation := gen\<rparr> else t)"

text \<open>
  \<open>mem_ok\<close> says whether \<open>kzalloc\<close> succeeded, \<open>xa_err\<close> is 0 or what \<open>__xa_insert\<close> answers when it
  cannot get a node; an index in use is \<open>-EBUSY\<close>.
\<close>

definition xa_insert ::
  "u32 \<Rightarrow> velocitor_handle \<Rightarrow> int \<Rightarrow> (u32 \<times> velocitor_handle) list \<Rightarrow> (u32 \<times> velocitor_handle) list \<times> int"
where
  "xa_insert index entry xa_err es =
     (if map_of es index \<noteq> None then (es, - EBUSY)
      else if xa_err \<noteq> 0 then (es, xa_err)
      else ((index, entry) # es, 0))"

definition velocitor_handles_insert ::
  "bool \<Rightarrow> int \<Rightarrow> u64 \<Rightarrow> u64 \<Rightarrow> alloc_resp \<Rightarrow> velocitor_handles \<Rightarrow> velocitor_handles \<times> int" where
  "velocitor_handles_insert mem_ok xa_err jiffies sz resp t =
     (if \<not> mem_ok then (t, - ENOMEM)
      else
        let t = t\<lparr>h_objects := h_objects t + 1\<rparr>;
            entry = \<lparr>vh_handle = aresp_handle resp, vh_generation = aresp_generation resp, vh_size = sz,
                     vh_node = aresp_node resp, vh_dev_offset = aresp_dev_offset resp, vh_refcount = 1,
                     vh_created = jiffies\<rparr>
        in if aresp_generation resp \<noteq> h_generation t then (t\<lparr>h_objects := h_objects t - 1\<rparr>, - ESTALE)
           else case xa_insert (vh_handle entry) entry xa_err (h_entries t) of
             (es, err) \<Rightarrow>
               if err \<noteq> 0 then (t\<lparr>h_objects := h_objects t - 1\<rparr>, err)
               else (t\<lparr>h_entries := es\<rparr>, 0))"

definition velocitor_handles_erase ::
  "u32 \<Rightarrow> u32 \<Rightarrow> velocitor_handles \<Rightarrow> velocitor_handles \<times> int" where
  "velocitor_handles_erase gen handle t =
     (if gen \<noteq> h_generation t then (t, - ESTALE)
      else
        let it = map_of (h_entries t) handle;
            t = t\<lparr>h_entries := filter (\<lambda>p. fst p \<noteq> handle) (h_entries t)\<rparr>
        in case it of
             None \<Rightarrow> (t, - EINVAL)
           | Some e \<Rightarrow> (t\<lparr>h_objects := snd (velocitor_handles_release (Some e) (h_objects t))\<rparr>, 0))"

section \<open>The invariant\<close>

definition entry_good :: "u32 \<Rightarrow> u32 \<times> velocitor_handle \<Rightarrow> bool" where
  "entry_good gen p \<longleftrightarrow> vh_handle (snd p) = fst p \<and> vh_generation (snd p) = gen \<and> vh_refcount (snd p) = 1"

definition table_good :: "velocitor_handles \<Rightarrow> bool" where
  "table_good t \<longleftrightarrow> distinct (map fst (h_entries t)) \<and> list_all (entry_good (h_generation t)) (h_entries t)
     \<and> h_objects t = length (h_entries t)"

lemma table_good_entry:
  "table_good t \<Longrightarrow> map_of (h_entries t) h = Some e \<Longrightarrow>
     vh_handle e = h \<and> vh_generation e = h_generation t \<and> vh_refcount e = 1"
  by (auto simp: table_good_def list_all_iff entry_good_def dest!: map_of_SomeD)

lemma filter_key_fresh: "k \<notin> fst ` set es \<Longrightarrow> filter (\<lambda>p. fst p \<noteq> k) es = es"
  by (rule filter_True) auto

lemma length_filter_key:
  "distinct (map fst es) \<Longrightarrow> map_of es k = Some e \<Longrightarrow> length (filter (\<lambda>p. fst p \<noteq> k) es) = length es - 1"
proof (induction es)
  case (Cons p es)
  show ?case
  proof (cases "fst p = k")
    case True
    then have "filter (\<lambda>p. fst p \<noteq> k) es = es"
      using Cons.prems(1) by (auto intro: filter_key_fresh)
    with True show ?thesis by (simp add: case_prod_beta)
  next
    case False
    then have "map_of es k = Some e" using Cons.prems(2) by (cases p) simp
    moreover from this have "es \<noteq> []" by auto
    ultimately show ?thesis using Cons False by (simp add: case_prod_beta)
  qed
qed simp

lemma filter_key_absent: "map_of es k = None \<Longrightarrow> filter (\<lambda>p. fst p \<noteq> k) es = es"
  by (induction es) (auto split: if_splits)

lemma distinct_filter_key: "distinct (map fst es) \<Longrightarrow> distinct (map fst (filter P es))"
  by (simp add: distinct_map_filter)

lemma map_of_filter_key: "map_of (filter (\<lambda>p. fst p \<noteq> k) es) = (map_of es)(k := None)"
  by (induction es) (auto simp: fun_eq_iff)

lemma erase_each_entries:
  "h_entries (erase_each es t) = filter (\<lambda>p. fst p \<notin> fst ` set es) (h_entries t)"
proof (induction es t rule: erase_each.induct)
  case (2 index entry rest t)
  then show ?case by (simp add: Let_def)
qed simp

lemma regenerate_entries:
  "h_entries (velocitor_handles_regenerate g t) = (if h_generation t = g then h_entries t else [])"
  by (auto simp: velocitor_handles_regenerate_def erase_each_entries filter_empty_conv)

lemma erase_each_all:
  assumes "table_good t"
  shows "erase_each (h_entries t) t = t\<lparr>h_entries := [], h_objects := 0\<rparr>"
proof -
  have "erase_each es t = t\<lparr>h_entries := [], h_objects := 0\<rparr>"
    if "es = h_entries t" "distinct (map fst es)" "list_all (\<lambda>p. vh_refcount (snd p) = 1) es" "h_objects t = length es"
    for es and t :: velocitor_handles
    using that
  proof (induction es arbitrary: t)
    case (Cons p es)
    obtain i e where p: "p = (i, e)" by fastforce
    have "filter (\<lambda>p. fst p \<noteq> i) es = es" using Cons.prems(2) p by (intro filter_key_fresh) simp
    moreover have "h_entries t = (i, e) # es" using Cons.prems(1) p by simp
    moreover have "h_objects t = Suc (length es)" using Cons.prems(4) by simp
    moreover have "vh_refcount e = 1" using Cons.prems(3) p by simp
    ultimately show ?case
      using Cons.IH [of "t\<lparr>h_entries := es, h_objects := length es\<rparr>"] Cons.prems p
      by (simp add: velocitor_handles_release_def velocitor_handles_free_def)
  qed simp
  with assms show ?thesis by (simp add: table_good_def list_all_iff entry_good_def)
qed

lemma initialize_good: "table_good velocitor_handles_initialize"
  by (simp add: table_good_def velocitor_handles_initialize_def)

lemma regenerate_good: "table_good t \<Longrightarrow> table_good (velocitor_handles_regenerate gen t)"
  by (simp add: velocitor_handles_regenerate_def erase_each_all) (simp add: table_good_def)

lemma insert_good: "table_good t \<Longrightarrow> velocitor_handles_insert m x j n resp t = (u, err) \<Longrightarrow> table_good u"
  by (auto simp: velocitor_handles_insert_def xa_insert_def Let_def table_good_def entry_good_def map_of_eq_None_iff
      split: if_splits)

lemma erase_good:
  assumes "table_good t" and "velocitor_handles_erase gen handle t = (u, err)"
  shows "table_good u"
proof (cases "gen = h_generation t \<and> map_of (h_entries t) handle \<noteq> None")
  case True
  then obtain e where e: "map_of (h_entries t) handle = Some e" by auto
  then have "vh_refcount e = 1" using assms(1) table_good_entry by blast
  then show ?thesis using assms e True
    by (auto simp: velocitor_handles_erase_def Let_def velocitor_handles_release_def velocitor_handles_free_def
        table_good_def length_filter_key distinct_filter_key list_all_iff)
next
  case False
  then show ?thesis using assms
    by (auto simp: velocitor_handles_erase_def Let_def filter_key_absent table_good_def split: if_splits option.splits)
qed


section \<open>The table over a run\<close>

datatype handle_op =
    Insert bool int u64 u64 alloc_resp
  | Erase u32 u32
  | Regenerate u32

fun handle_step :: "velocitor_handles \<Rightarrow> handle_op \<Rightarrow> velocitor_handles \<Rightarrow> bool" where
  "handle_step t (Insert m x j n resp) u \<longleftrightarrow> u = fst (velocitor_handles_insert m x j n resp t)"
| "handle_step t (Erase gen h) u \<longleftrightarrow> u = fst (velocitor_handles_erase gen h t)"
| "handle_step t (Regenerate gen) u \<longleftrightarrow> u = velocitor_handles_regenerate gen t"

interpretation handles: safe_machine handle_step "\<lambda>_. True" table_good
proof (unfold_locales, goal_cases)
  case (1 t l u)
  then show ?case
    by (cases l) (auto intro: regenerate_good insert_good [OF _ prod.collapse [symmetric]]
        erase_good [OF _ prod.collapse [symmetric]])
qed

text \<open>C34. The handle table neither leaks nor mixes sessions: whatever sequence of insertions, erasures and
  regenerations it goes through, with allocation failures anywhere, every entry is filed under its own
  number, belongs to the generation the table is at and holds exactly the reference of the table, and
  the entry objects alive are exactly those in the table; so destroying the table leaves none.\<close>

theorem handle_table_sound:
  assumes "run handle_step velocitor_handles_initialize ops t"
  shows "table_good t \<and> velocitor_handles_destroy_entries t = t\<lparr>h_entries := [], h_objects := 0\<rparr>"
proof -
  have "table_good t" using handles.run_good [OF assms initialize_good] by (simp add: list_all_iff)
  then show ?thesis by (simp add: velocitor_handles_destroy_entries_def erase_each_all)
qed

theorem handle_table_sound_witness:
  "\<exists>t. run handle_step velocitor_handles_initialize [Regenerate 1, Insert True 0 0 256 (alloc_resp.make 7 0 1 0 0),
     Insert True (- ENOMEM) 0 256 (alloc_resp.make 8 0 1 0 0), Insert True 0 0 256 (alloc_resp.make 9 0 2 0 0)] t
     \<and> h_objects t = 1 \<and> table_good t"
proof -
  let ?ops = "[Regenerate 1, Insert True 0 0 256 (alloc_resp.make 7 0 1 0 0),
     Insert True (- ENOMEM) 0 256 (alloc_resp.make 8 0 1 0 0), Insert True 0 0 256 (alloc_resp.make 9 0 2 0 0)]"
  obtain t where r: "run handle_step velocitor_handles_initialize ?ops t" and "h_objects t = 1"
    by (simp add: velocitor_handles_initialize_def velocitor_handles_regenerate_def velocitor_handles_insert_def
        xa_insert_def Let_def alloc_resp.make_def)
  with handle_table_sound [OF r] show ?thesis by blast
qed

text \<open>A handle is freed at most once per session, and never across sessions: an erasure succeeds
  exactly when it names the table's generation and a handle in the table; after a success the handle
  is gone and the same erasure is refused as unknown; with any other generation the table is
  unchanged and the answer is \<open>-ESTALE\<close>; after a regeneration to a new generation the handles of
  the old one are all refused.\<close>

theorem handle_erased_once:
  assumes "table_good t" and "velocitor_handles_erase gen h t = (u, err)"
  shows "(err = 0 \<longleftrightarrow> gen = h_generation t \<and> map_of (h_entries t) h \<noteq> None)
     \<and> map_of (h_entries u) = (if gen = h_generation t then (map_of (h_entries t))(h := None) else map_of (h_entries t))
     \<and> (err = 0 \<longrightarrow> snd (velocitor_handles_erase gen h u) = - EINVAL)
     \<and> (gen \<noteq> h_generation t \<longrightarrow> u = t \<and> err = - ESTALE)
     \<and> (gen' \<noteq> h_generation t \<longrightarrow>
          snd (velocitor_handles_erase (h_generation t) h (velocitor_handles_regenerate gen' t)) = - ESTALE)"
proof -
  have stale: "snd (velocitor_handles_erase (h_generation t) h (velocitor_handles_regenerate gen' t)) = - ESTALE"
    if "gen' \<noteq> h_generation t"
    using that by (simp add: velocitor_handles_erase_def velocitor_handles_regenerate_def)
  show ?thesis
  proof (cases "gen = h_generation t")
    case False
    then have "u = t" "err = - ESTALE" using assms(2) by (simp_all add: velocitor_handles_erase_def)
    then show ?thesis using False stale by simp
  next
    case True
    have u: "map_of (h_entries u) = (map_of (h_entries t))(h := None)" "h_generation u = h_generation t"
      "err = (if map_of (h_entries t) h = None then - EINVAL else 0)"
      using assms(2) True
      by (auto simp: velocitor_handles_erase_def Let_def map_of_filter_key split: option.splits)
    then have "snd (velocitor_handles_erase gen h u) = - EINVAL"
      using True by (simp add: velocitor_handles_erase_def Let_def)
    then show ?thesis using u True stale by simp
  qed
qed

theorem handle_erased_once_witness:
  "snd (velocitor_handles_erase 0 7 (fst (velocitor_handles_erase 0 7
      (fst (velocitor_handles_insert True 0 0 256 (alloc_resp.make 7 0 0 0 0) velocitor_handles_initialize))))) = - EINVAL"
proof -
  define t where "t = fst (velocitor_handles_insert True 0 0 256 (alloc_resp.make 7 0 0 0 0) velocitor_handles_initialize)"
  have g: "table_good t" unfolding t_def using insert_good [OF initialize_good prod.collapse [symmetric]] .
  have e: "h_generation t = 0" "map_of (h_entries t) 7 \<noteq> None"
    by (simp_all add: t_def velocitor_handles_insert_def velocitor_handles_initialize_def xa_insert_def Let_def
        alloc_resp.make_def)
  note c = handle_erased_once [OF g prod.collapse [symmetric], of 0 7]
  have "snd (velocitor_handles_erase 0 7 t) = 0" using c [THEN conjunct1] e by simp
  then show ?thesis unfolding t_def [symmetric] using c [THEN conjunct2, THEN conjunct2, THEN conjunct1] by blast
qed

end
