(* ===== verification/Drv_Mmio.thy ===== *)
theory Drv_Mmio
  imports Vel_Machine Drv_Handles
begin

text \<open>
  The driver's side of the register contract: the accessors over BAR0 and BAR2, and the small
  modules that only read and write registers (\<open>lifecycle.c\<close>, \<open>identity.c\<close>, \<open>error.c\<close>,
  \<open>counters.c\<close>, \<open>irq.c\<close>, \<open>debugfs.c\<close>). They are composed with the device model itself:
  the device state is the state the register accesses act on.
\<close>

section \<open>Accessors\<close>

definition readl :: "'h velocitor_state \<Rightarrow> u64 \<Rightarrow> 'h velocitor_state \<times> u32" where
  "readl s off = (case velocitor_bar0_read s off 4 of (t, v) \<Rightarrow> (t, ucast v))"

definition writel :: "'h pci_bus \<Rightarrow> u32 \<Rightarrow> u64 \<Rightarrow> 'h velocitor_state \<Rightarrow> 'h velocitor_state" where
  "writel B v off s = velocitor_bar0_write B s off (ucast v) 4"

text \<open>
  \<open>memcpy_fromio\<close> and \<open>readl\<close> on BAR2; a byte outside both aliases reads as all ones, as a
  PCI access nobody answers does.
\<close>

definition bar2_byte :: "'h velocitor_state \<Rightarrow> nat \<Rightarrow> u8" where
  "bar2_byte s a = (case bar2_read s a of Some b \<Rightarrow> b | None \<Rightarrow> 0xFF)"

definition memcpy_fromio :: "'h velocitor_state \<Rightarrow> nat \<Rightarrow> nat \<Rightarrow> bytes" where
  "memcpy_fromio s a n = map (bar2_byte s) [a ..< a + n]"

definition bar2_readl :: "'h velocitor_state \<Rightarrow> nat \<Rightarrow> u32" where
  "bar2_readl s a = get_le 0 4 (memcpy_fromio s a 4)"

fun bar2_writes :: "'h velocitor_state \<Rightarrow> nat \<Rightarrow> bytes \<Rightarrow> 'h velocitor_state" where
  "bar2_writes s a [] = s"
| "bar2_writes s a (b # bs) = bar2_writes (bar2_write s a b) (Suc a) bs"

definition bar2_writel :: "'h velocitor_state \<Rightarrow> u32 \<Rightarrow> nat \<Rightarrow> 'h velocitor_state" where
  "bar2_writel s v a = bar2_writes s a (put_le 4 v)"

text \<open>
  The kernel's \<open>readl_poll_timeout\<close>, with \<open>env\<close> what the machine does while the driver sleeps: it reads
  once more than it sleeps, so \<open>n\<close> sleeps are \<open>n + 1\<close> reads.
\<close>

fun readl_poll ::
  "('h velocitor_state \<Rightarrow> 'h velocitor_state) \<Rightarrow> u64 \<Rightarrow> (u32 \<Rightarrow> bool) \<Rightarrow> nat \<Rightarrow> 'h velocitor_state \<Rightarrow>
     'h velocitor_state \<times> u32 \<times> bool" where
  "readl_poll env reg cond 0 s = (case readl s reg of (s, v) \<Rightarrow> (s, v, cond v))"
| "readl_poll env reg cond (Suc n) s =
     (case readl s reg of (s, v) \<Rightarrow> if cond v then (s, v, True) else readl_poll env reg cond n (env s))"

lemma poll_second:
  assumes "readl s reg = (s, v)" and "\<not> cond v" and "readl (env s) reg = (env s, w)" and "cond w" and "0 < n"
  shows "readl_poll env reg cond n s = (env s, w, True)"
proof -
  obtain m where "n = Suc m" using assms(5) by (cases n) auto
  then show ?thesis using assms(1-4) by (cases m) simp_all
qed

section \<open>State of the driver\<close>

record velocitor_identity =
  id_minor :: u16
  id_major :: u16
  id_nodes :: u16
  id_engines :: u16
  id_mem_size :: u32
  id_caps :: u32

record velocitor_vring =
  vr_index :: nat
  vr_vector :: nat
  vr_notifyid :: u32
  vr_dma :: u64

text \<open>
  The fields of \<open>struct velocitor_dev\<close> the modelled modules use: \<open>dma.mem.dma\<close>, \<open>window.base\<close>,
  \<open>vring.vqs\<close>, \<open>dtrace.da\<close>, \<open>handles\<close>, \<open>rproc.generation\<close> and \<open>rproc.rsc.dma\<close>. The mutexes serialise whole
  operations, which are atomic here.
\<close>

record velocitor_dev =
  identity :: velocitor_identity
  pool_dma :: u64
  window_base :: u64
  vqs :: "nat \<Rightarrow> velocitor_vring"
  dtrace_da :: u32
  handles :: velocitor_handles
  rproc_generation :: u32
  rsc_dma :: u64

text \<open>What \<open>devm_kzalloc\<close> and \<open>velocitor_vring_initialize\<close> leave, for the concrete runs.\<close>

definition drv_zero :: velocitor_dev where
  "drv_zero = \<lparr>identity = \<lparr>id_minor = 0, id_major = 0, id_nodes = 0, id_engines = 0, id_mem_size = 0, id_caps = 0\<rparr>,
     pool_dma = 0, window_base = 0, vqs = (\<lambda>i. \<lparr>vr_index = i, vr_vector = i + 1, vr_notifyid = - 1, vr_dma = 0\<rparr>),
     dtrace_da = 0, handles = velocitor_handles_initialize, rproc_generation = 0, rsc_dma = 0\<rparr>"

section \<open>Probe: BAR0 and the identity\<close>

text \<open>The probe of \<open>initialize_bar0\<close>; false is \<open>-ENODEV\<close>.\<close>

definition probe_scratch ::
  "'h pci_bus \<Rightarrow> u32 \<Rightarrow> 'h velocitor_state \<Rightarrow> 'h velocitor_state \<times> bool" where
  "probe_scratch B v s =
     (let s = writel B v VEL_REG_SCRATCH s in
      case readl s VEL_REG_SCRATCH of (s, res) \<Rightarrow> (s, NOT v = res))"

definition initialize_bar0 :: "'h pci_bus \<Rightarrow> 'h velocitor_state \<Rightarrow> 'h velocitor_state \<times> int" where
  "initialize_bar0 B s =
     (case readl s VEL_REG_MAGIC of (s, magic) \<Rightarrow>
        if magic \<noteq> VEL_MAGIC then (s, - ENODEV)
        else case probe_scratch B 0x42000042 s of
          (s, False) \<Rightarrow> (s, - ENODEV)
        | (s, True) \<Rightarrow>
            (case probe_scratch B 0x12345678 s of
               (s, False) \<Rightarrow> (s, - ENODEV)
             | (s, True) \<Rightarrow> (s, 0)))"

definition velocitor_identity_initialize ::
  "'h velocitor_state \<Rightarrow> 'h velocitor_state \<times> velocitor_identity" where
  "velocitor_identity_initialize s =
     (let (s, version) = readl s VEL_REG_VERSION;
          (s, topology) = readl s VEL_REG_TOPOLOGY;
          (s, memory) = readl s VEL_REG_MEM_SIZE;
          (s, caps) = readl s VEL_REG_CAPS
      in (s, \<lparr>id_minor = ucast version, id_major = ucast (drop_bit 16 version),
              id_nodes = ucast (drop_bit 16 topology), id_engines = ucast topology,
              id_mem_size = memory, id_caps = caps\<rparr>))"

section \<open>The qualified error and the error interrupt\<close>

record velocitor_error =
  ve_code :: u32
  ve_info :: u64
  ve_notifyid :: u32
  ve_handle :: u32
  ve_generation :: u32
  ve_dropped :: u32

definition velocitor_error_read :: "'h velocitor_state \<Rightarrow> 'h velocitor_state \<times> velocitor_error" where
  "velocitor_error_read s =
     (let (s, code) = readl s VEL_REG_ERR_CODE;
          (s, lo) = readl s VEL_REG_ERR_INFO_LO;
          (s, hi) = readl s VEL_REG_ERR_INFO_HI;
          (s, notifyid) = readl s VEL_REG_ERR_NOTIFYID;
          (s, handle) = readl s VEL_REG_ERR_HANDLE;
          (s, gen) = readl s VEL_REG_ERR_GENERATION;
          (s, dropped) = readl s VEL_REG_ERR_DROPPED
      in (s, \<lparr>ve_code = code, ve_info = ucast lo OR push_bit 32 (ucast hi), ve_notifyid = notifyid,
              ve_handle = handle, ve_generation = gen, ve_dropped = dropped\<rparr>))"

text \<open>What the handler traces; that it reports a crash to remoteproc is its last step, outside.\<close>

definition irq_error_event ::
  "'h pci_bus \<Rightarrow> 'h velocitor_state \<Rightarrow> 'h velocitor_state \<times> velocitor_error" where
  "irq_error_event B s =
     (case velocitor_error_read s of (s, e) \<Rightarrow>
        (writel B (push_bit VEL_IRQ_VEC_ERROR 1) VEL_REG_IRQ_ACK s, e))"

definition irq_config_event :: "'h pci_bus \<Rightarrow> 'h velocitor_state \<Rightarrow> 'h velocitor_state \<times> u32" where
  "irq_config_event B s =
     (case readl s VEL_REG_FW_STATUS of (s, status) \<Rightarrow>
        (writel B (push_bit VEL_IRQ_VEC_CONFIG 1) VEL_REG_IRQ_ACK s, status))"

definition velocitor_debugfs_inject_error ::
  "'h pci_bus \<Rightarrow> u64 \<Rightarrow> 'h velocitor_state \<Rightarrow> 'h velocitor_state \<times> int" where
  "velocitor_debugfs_inject_error B cmd s =
     (if cmd > 255 then (s, - EINVAL) else (writel B (ucast cmd) VEL_REG_ERR_INJECT s, 0))"

section \<open>Counters\<close>

text \<open>The twenty fields of \<open>struct counters\<close> (\<open>uapi/velocitor.h\<close>) in order, by their registers.\<close>

definition counter_regs :: "u64 list" where
  "counter_regs =
     [VEL_REG_CNT_DB_RX, VEL_REG_CNT_NOTIFY_TX, VEL_REG_CNT_NOTIFY_COALESCED, VEL_REG_CNT_NOTIFY_DROPPED,
      VEL_REG_CNT_DESC, VEL_REG_CNT_GEMM, VEL_REG_CNT_DMA_RD, VEL_REG_CNT_DMA_WR,
      VEL_REG_CNT_BYTES_RD_LO, VEL_REG_CNT_BYTES_RD_HI, VEL_REG_CNT_BYTES_WR_LO, VEL_REG_CNT_BYTES_WR_HI,
      VEL_REG_CNT_WIN_MOVE, VEL_REG_CNT_FAR_ACCESS, VEL_REG_CNT_ERR_DESC, VEL_REG_CNT_ERR_RANGE,
      VEL_REG_CNT_STALL_E0, VEL_REG_CNT_STALL_E1, VEL_REG_CNT_CYCLES_E0, VEL_REG_CNT_CYCLES_E1]"

fun read_regs :: "u64 list \<Rightarrow> 'h velocitor_state \<Rightarrow> 'h velocitor_state \<times> u32 list" where
  "read_regs [] s = (s, [])"
| "read_regs (r # rs) s =
     (case readl s r of (s, v) \<Rightarrow> case read_regs rs s of (s, vs) \<Rightarrow> (s, v # vs))"

definition velocitor_counters_read ::
  "'h pci_bus \<Rightarrow> 'h velocitor_state \<Rightarrow> 'h velocitor_state \<times> u32 list" where
  "velocitor_counters_read B s = read_regs counter_regs (writel B 1 VEL_REG_CNT_SNAP s)"

definition velocitor_counters_reset :: "'h pci_bus \<Rightarrow> 'h velocitor_state \<Rightarrow> 'h velocitor_state" where
  "velocitor_counters_reset B s = writel B 1 VEL_REG_CNT_RESET s"

section \<open>What a register access does\<close>

lemma ucast_u64_u32 [simp]: "(ucast (ucast (v :: u32) :: u64) :: u32) = v"
  by transfer simp

lemma readl_field:
  assumes "bar0_field s off = Some v" and "off AND 3 = 0" and "off < VEL_BLK_VQ_BASE"
    and "off < VEL_CNT_FIRST \<or> VEL_CNT_LAST < off" and "off \<noteq> VEL_REG_WIN_BASE"
  shows "readl s off = (s, v)"
  using assms by (auto simp: readl_def velocitor_bar0_read_def velocitor_access_ok_def not_le)

lemma readl_regs:
  "readl s VEL_REG_MAGIC = (s, VEL_MAGIC)" "readl s VEL_REG_VERSION = (s, VEL_VERSION)"
  "readl s VEL_REG_CAPS = (s, VEL_CAPS_VALUE)" "readl s VEL_REG_SCRATCH = (s, NOT (scratch s))"
  "readl s VEL_REG_MEM_SIZE = (s, VEL_MEM_SIZE)" "readl s VEL_REG_TOPOLOGY = (s, VEL_TOPOLOGY)"
  "readl s VEL_REG_FW_STATUS = (s, fw_status s)" "readl s VEL_REG_GENERATION = (s, generation s)"
  "readl s VEL_REG_FW_ABI = (s, fw_abi s)" "readl s VEL_REG_DBG_DMA_STATUS = (s, dma_status s)"
  "readl s VEL_REG_ERR_CODE = (s, err_code s)" "readl s VEL_REG_ERR_INFO_LO = (s, err_info_lo s)"
  "readl s VEL_REG_ERR_INFO_HI = (s, err_info_hi s)" "readl s VEL_REG_ERR_NOTIFYID = (s, err_notifyid s)"
  "readl s VEL_REG_ERR_HANDLE = (s, err_handle s)" "readl s VEL_REG_ERR_GENERATION = (s, err_generation s)"
  "readl s VEL_REG_ERR_DROPPED = (s, err_dropped s)"
  by (rule readl_field; simp add: bar0_field_def)+

lemma readl_win_base:
  "readl s VEL_REG_WIN_BASE = (velocitor_window_promote s, win_base (velocitor_window_promote s))"
  by (simp add: readl_def velocitor_bar0_read_def velocitor_access_ok_def Let_def)

lemma readl_counter:
  assumes "VEL_CNT_FIRST \<le> off" and "off \<le> VEL_CNT_LAST" and "off AND 3 = 0"
  shows "readl s off = (s, cnt_snap s (VEL_CNT_INDEX off))"
  using assms by (simp add: readl_def velocitor_bar0_read_def velocitor_access_ok_def)

lemma writel_regs:
  "writel B v VEL_REG_SCRATCH s = s\<lparr>scratch := v\<rparr>"
  "writel B v VEL_REG_WIN_BASE s = velocitor_window_write_base s v"
  "writel B v VEL_REG_RESET s = velocitor_reset_write s v"
  "writel B v VEL_REG_DBG_DMA_ADDR_LO s = s\<lparr>dma_addr_lo := v\<rparr>"
  "writel B v VEL_REG_DBG_DMA_ADDR_HI s = s\<lparr>dma_addr_hi := v\<rparr>"
  "writel B v VEL_REG_DBG_DMA_DEV s = s\<lparr>dma_dev := v\<rparr>"
  "writel B v VEL_REG_DBG_DMA_LEN s = s\<lparr>dma_len := v\<rparr>"
  "writel B v VEL_REG_DBG_DMA_CTL s = velocitor_dma_start s v"
  "writel B v VEL_REG_RSC_ADDR_LO s = s\<lparr>rsc_addr_lo := v\<rparr>"
  "writel B v VEL_REG_RSC_ADDR_HI s = s\<lparr>rsc_addr_hi := v\<rparr>"
  "writel B v VEL_REG_RSC_LEN s = s\<lparr>rsc_len := v\<rparr>"
  "writel B v VEL_REG_RSC_VALID s = velocitor_rsc_publish B s v"
  "writel B v VEL_REG_IRQ_ACK s = s\<lparr>irq_status := irq_status s AND NOT (v AND VEL_IRQ_LATCHED)\<rparr>"
  "writel B v VEL_REG_DOORBELL s = velocitor_doorbell s v"
  "writel B v VEL_REG_ERR_INJECT s = err_inject_write s v"
  by (simp_all add: writel_def velocitor_bar0_write_def velocitor_access_ok_def Let_def)

lemma writel_snap: "writel B 1 VEL_REG_CNT_SNAP s = s\<lparr>cnt_snap := cnt s\<rparr>"
  by (simp add: writel_def velocitor_bar0_write_def velocitor_access_ok_def Let_def cnt_snap_write_def)

lemma writel_vq:
  assumes "VEL_BLK_VQ_BASE \<le> off" and "off \<le> VEL_BLK_VQ_END" and "off AND 3 = 0"
  shows "writel B v off s = velocitor_vq_write s off v"
proof -
  have "\<not> off \<le> VEL_CNT_LAST" using assms(1) by (simp add: word_le_nat_alt)
  with assms show ?thesis
    by (simp add: writel_def velocitor_bar0_write_def velocitor_access_ok_def Let_def)
qed

lemmas mmio_simps = readl_regs writel_regs writel_snap

section \<open>Properties\<close>

text \<open>Probing identifies the device in whatever state it is found: the magic and both scratch patterns
  check out, so \<open>initialize_bar0\<close> succeeds and leaves only SCRATCH changed; and the identity read
  afterwards is the one the contract fixes: version, two nodes and two engines, 256 MiB, the three
  capabilities.\<close>

theorem probe_identifies:
  "initialize_bar0 B s = (s\<lparr>scratch := 0x12345678\<rparr>, 0)
   \<and> velocitor_identity_initialize s = (s, \<lparr>id_minor = ucast (VEL_VERSION :: u32),
        id_major = ucast (drop_bit 16 (VEL_VERSION :: u32)), id_nodes = VEL_NODES, id_engines = VEL_ENGINES,
        id_mem_size = VEL_MEM_SIZE, id_caps = 7\<rparr>)"
proof -
  have "VEL_CAPS_VALUE = 7" by (simp add: VEL_CAPS_VALUE_def)
  then show ?thesis
    by (simp add: initialize_bar0_def probe_scratch_def velocitor_identity_initialize_def mmio_simps Let_def
        del: VEL_REG_MAGIC_def VEL_REG_SCRATCH_def VEL_REG_VERSION_def VEL_REG_TOPOLOGY_def
        VEL_REG_MEM_SIZE_def VEL_REG_CAPS_def)
qed

lemma read_regs_counters:
  assumes "list_all (\<lambda>r. VEL_CNT_FIRST \<le> r \<and> r \<le> VEL_CNT_LAST \<and> r AND 3 = 0) rs"
  shows "read_regs rs s = (s, map (\<lambda>r. cnt_snap s (VEL_CNT_INDEX r)) rs)"
  using assms by (induction rs) (simp_all add: readl_counter)

text \<open>The driver's counters are one consistent set: \<open>velocitor_counters_read\<close> returns, field by
  field, the twenty counters as the device held them at one moment, and changes nothing but the
  snapshot.\<close>

theorem counters_read_snapshot:
  "velocitor_counters_read B s = (s\<lparr>cnt_snap := cnt s\<rparr>, map (cnt s) [0 ..< VEL_CNT_COUNT])"
proof -
  have "map (\<lambda>r. cnt s (VEL_CNT_INDEX r)) counter_regs = map (cnt s) [0 ..< VEL_CNT_COUNT]"
    by (simp add: counter_regs_def VEL_CNT_INDEX_def upt_rec) (simp add: eval_nat_numeral)
  moreover have "list_all (\<lambda>r. VEL_CNT_FIRST \<le> r \<and> r \<le> VEL_CNT_LAST \<and> r AND 3 = 0) counter_regs"
    by (simp add: counter_regs_def)
  ultimately show ?thesis
    by (simp add: velocitor_counters_read_def writel_snap read_regs_counters del: VEL_REG_CNT_SNAP_def)
qed

lemma addr64_split: "ucast (ucast (i :: u64) :: u32) OR push_bit 32 (ucast (ucast (drop_bit 32 i) :: u32)) = i"
  by (rule bit_word_eqI) (auto simp: bit_simps)

text \<open>The error interrupt reports the first error: when no error was latched, an error that was
  qualified and raised is what the handler reads, field by field, even when a second one followed,
  which is only counted as dropped; and the acknowledgement releases the latch for the next.\<close>

theorem error_event_reports_first:
  assumes "irq_status s AND irq_bit VEL_IRQ_VEC_ERROR = 0"
    and "u = velocitor_raise (velocitor_error_qualify s c i n h) VEL_IRQ_VEC_ERROR"
    and "irq_error_event B (velocitor_error_qualify u c' i' n' h') = (t, e)"
  shows "e = \<lparr>ve_code = c, ve_info = i, ve_notifyid = n, ve_handle = h, ve_generation = generation s,
              ve_dropped = err_dropped s + 1\<rparr>
     \<and> irq_status t AND irq_bit VEL_IRQ_VEC_ERROR = 0"
proof -
  have latched: "irq_status u AND irq_bit VEL_IRQ_VEC_ERROR \<noteq> 0"
    unfolding assms(2) by (rule raise_error_latched)
  have e: "e = snd (velocitor_error_read (u\<lparr>err_dropped := err_dropped u + 1\<rparr>))"
    and t: "irq_status t = irq_status u AND NOT (irq_bit VEL_IRQ_VEC_ERROR AND VEL_IRQ_LATCHED)"
    using assms(3) latched
    by (auto simp: irq_error_event_def velocitor_error_qualify_def velocitor_error_read_def mmio_simps
        irq_bit_def Let_def simp del: VEL_REG_IRQ_ACK_def VEL_REG_ERR_CODE_def VEL_REG_ERR_INFO_LO_def
        VEL_REG_ERR_INFO_HI_def VEL_REG_ERR_NOTIFYID_def VEL_REG_ERR_HANDLE_def
        VEL_REG_ERR_GENERATION_def VEL_REG_ERR_DROPPED_def)
  have f: "err_code u = c" "err_info_lo u = ucast i" "err_info_hi u = ucast (drop_bit 32 i)"
    "err_notifyid u = n" "err_handle u = h" "err_generation u = generation s" "err_dropped u = err_dropped s"
    using assms(1) by (simp_all add: assms(2) velocitor_error_qualify_def)
  have "e = \<lparr>ve_code = c, ve_info = i, ve_notifyid = n, ve_handle = h, ve_generation = generation s,
      ve_dropped = err_dropped s + 1\<rparr>"
    using f addr64_split [of i]
    by (simp add: e velocitor_error_read_def readl_regs Let_def del: VEL_REG_ERR_CODE_def VEL_REG_ERR_INFO_LO_def
        VEL_REG_ERR_INFO_HI_def VEL_REG_ERR_NOTIFYID_def VEL_REG_ERR_HANDLE_def
        VEL_REG_ERR_GENERATION_def VEL_REG_ERR_DROPPED_def)
  moreover have "irq_status t AND irq_bit VEL_IRQ_VEC_ERROR = 0"
    unfolding t by (simp add: irq_bit_def and.assoc)
  ultimately show ?thesis by simp
qed

theorem error_event_reports_first_witness:
  "snd (irq_error_event quiet_bus (velocitor_error_qualify (velocitor_raise
      (velocitor_error_qualify (velocitor_new ()) 1 0x100000002 7 9) VEL_IRQ_VEC_ERROR) 2 0 0 0))
    = \<lparr>ve_code = 1, ve_info = 0x100000002, ve_notifyid = 7, ve_handle = 9, ve_generation = 0, ve_dropped = 1\<rparr>"
  using error_event_reports_first [of "velocitor_new ()" _ 1 "0x100000002" 7 9 quiet_bus 2 0 0 0,
      OF _ refl prod.collapse [symmetric]]
  by (simp add: velocitor_new_def)

end
