(* ===== verification/Drv_Window.thy ===== *)
theory Drv_Window
  imports Drv_Mmio
begin

text \<open>
  \<open>window.c\<close>: reading device memory through the sliding window. The C code's \<open>size_t\<close>
  arithmetic is done on naturals once the range check has passed, which bounds every value by the
  device memory. The result of a read is the errno and the bytes put in the caller's buffer.
\<close>

definition velocitor_window_seek ::
  "'h pci_bus \<Rightarrow> velocitor_dev \<Rightarrow> 'h velocitor_state \<Rightarrow> u32 \<Rightarrow> velocitor_dev \<times> 'h velocitor_state \<times> bool"
where
  "velocitor_window_seek B d s off =
     (let s = writel B off VEL_REG_WIN_BASE s in
      case readl s VEL_REG_WIN_BASE of (s, position) \<Rightarrow>
        (d\<lparr>window_base := ucast position\<rparr>, s, off = position))"

definition ALIGN_DOWN :: "nat \<Rightarrow> nat \<Rightarrow> nat" where
  "ALIGN_DOWN x a = x div a * a"

text \<open>The \<open>while\<close> loop: \<open>off\<close> is \<open>window\<close>, \<open>got\<close> the bytes stored so far (\<open>done\<close> of them).\<close>

function window_read_rest ::
  "'h pci_bus \<Rightarrow> velocitor_dev \<Rightarrow> 'h velocitor_state \<Rightarrow> nat \<Rightarrow> nat \<Rightarrow> bytes \<Rightarrow>
     velocitor_dev \<times> 'h velocitor_state \<times> int \<times> bytes" where
  "window_read_rest B d s off sz got =
     (if length got < sz then
        let off = off + VEL_WINDOW_SIZE in
        case velocitor_window_seek B d s (word_of_nat off) of
          (d, s, False) \<Rightarrow> (d, s, - EIO, got)
        | (d, s, True) \<Rightarrow>
            let todo = min (sz - length got) VEL_WINDOW_SIZE
            in window_read_rest B d s off sz (got @ memcpy_fromio s VEL_BAR2_WINDOW_OFF todo)
      else (d, s, 0, got))"
  by pat_completeness auto
termination
  by (relation "measure (\<lambda>(B, d, s, off, sz, got). sz - length got)") (auto simp: memcpy_fromio_def)

declare window_read_rest.simps [simp del]

definition velocitor_window_read ::
  "'h pci_bus \<Rightarrow> velocitor_dev \<Rightarrow> 'h velocitor_state \<Rightarrow> u64 \<Rightarrow> u64 \<Rightarrow>
     velocitor_dev \<times> 'h velocitor_state \<times> int \<times> bytes" where
  "velocitor_window_read B d s offset sz =
     (if offset + sz < offset \<or> offset + sz > VEL_MEM_SIZE then (d, s, - EINVAL, [])
      else
        let off = ALIGN_DOWN (unat offset) VEL_WINDOW_SIZE in
        case velocitor_window_seek B d s (word_of_nat off) of
          (d, s, False) \<Rightarrow> (d, s, - EIO, [])
        | (d, s, True) \<Rightarrow>
            let n = min (unat sz) (VEL_WINDOW_SIZE + off - unat offset)
            in window_read_rest B d s off (unat sz)
                 (memcpy_fromio s (VEL_BAR2_WINDOW_OFF + (unat offset - off)) n))"

definition PAGE_SIZE :: nat where [simp]: "PAGE_SIZE = 4096"

text \<open>
  The debugfs file \<open>mem\<close>: \<open>page\<close> says whether \<open>kmalloc\<close> found a page and \<open>copied\<close> whether
  \<open>copy_to_user\<close> copied everything. The result is the return value, the bytes given to the reader
  and the new file offset.
\<close>

definition velocitor_window_debugfs_read ::
  "'h pci_bus \<Rightarrow> velocitor_dev \<Rightarrow> 'h velocitor_state \<Rightarrow> bool \<Rightarrow> bool \<Rightarrow> nat \<Rightarrow> nat \<Rightarrow>
     velocitor_dev \<times> 'h velocitor_state \<times> int \<times> bytes \<times> nat" where
  "velocitor_window_debugfs_read B d s page copied n offset =
     (if VEL_MEM_SIZE \<le> offset then (d, s, 0, [], offset)
      else if \<not> page then (d, s, - ENOMEM, [], offset)
      else
        let n = min (min n (VEL_MEM_SIZE - offset)) PAGE_SIZE in
        case velocitor_window_read B d s (word_of_nat offset) (word_of_nat n) of
          (d, s, res, bs) \<Rightarrow>
            if res = 0 then
              (if copied then (d, s, int n, bs, offset + n) else (d, s, - EFAULT, [], offset))
            else (d, s, if res < 0 then res else int n, [], offset))"

section \<open>The read-back commits, or says so\<close>

definition no_ignore :: "'h velocitor_state \<Rightarrow> bool" where
  "no_ignore s \<longleftrightarrow> err_inject s AND VEL_ERR_INJECT_WIN_IGNORE = 0"

lemma seek_commits:
  assumes "window_synced s" and "no_ignore s" and "win_legal w"
  obtains t where "velocitor_window_seek B d s w = (d\<lparr>window_base := ucast w\<rparr>, t, True)"
    and "window_synced t" and "no_ignore t" and "win_base t = w" and "mem t = mem s"
proof -
  let ?u = "s\<lparr>win_pending := w\<rparr>"
  have w: "velocitor_window_write_base s w = ?u"
    using assms(2,3) by (auto simp: velocitor_window_write_base_def win_legal_def no_ignore_def)
  have "window_synced ?u" using assms(1) by (simp add: window_synced_def)
  then have "window_synced (velocitor_window_promote ?u)" by (rule promote_synced)
  moreover have "no_ignore (velocitor_window_promote ?u)" "win_base (velocitor_window_promote ?u) = w"
    "mem (velocitor_window_promote ?u) = mem s"
    using assms(2) by (simp_all add: no_ignore_def velocitor_window_promote_def Let_def cnt_add_def)
  ultimately show thesis
    by (intro that [of "velocitor_window_promote ?u"]) (simp_all add: velocitor_window_seek_def writel_regs(2) readl_win_base w
        del: VEL_REG_WIN_BASE_def)
qed

lemma window_bytes:
  assumes "window_synced s" and "i + n \<le> VEL_WINDOW_SIZE"
  shows "memcpy_fromio s (VEL_BAR2_WINDOW_OFF + i) n = mem_load (mem s) (unat (win_base s) + i) n"
proof (rule nth_equalityI)
  fix k assume k: "k < length (memcpy_fromio s (VEL_BAR2_WINDOW_OFF + i) n)"
  then have "bar2_target s (VEL_BAR2_WINDOW_OFF + i + k) = Some (unat (win_base s) + (i + k))"
    using assms by (simp add: bar2_target_def window_synced_def memcpy_fromio_def)
  then show "memcpy_fromio s (VEL_BAR2_WINDOW_OFF + i) n ! k
      = mem_load (mem s) (unat (win_base s) + i) n ! k"
    using k by (simp add: memcpy_fromio_def mem_load_def bar2_byte_def bar2_read_def add.assoc)
qed (simp add: memcpy_fromio_def mem_load_def)

lemma aligned_legal: "k * VEL_WINDOW_SIZE < VEL_MEM_SIZE \<Longrightarrow> win_legal (word_of_nat (k * VEL_WINDOW_SIZE))
     \<and> unat (word_of_nat (k * VEL_WINDOW_SIZE) :: u32) = k * VEL_WINDOW_SIZE"
proof -
  assume "k * VEL_WINDOW_SIZE < VEL_MEM_SIZE"
  then have k: "k < 16" by simp
  then have "k = 0 \<or> k = 1 \<or> k = 2 \<or> k = 3 \<or> k = 4 \<or> k = 5 \<or> k = 6 \<or> k = 7 \<or> k = 8 \<or> k = 9
      \<or> k = 10 \<or> k = 11 \<or> k = 12 \<or> k = 13 \<or> k = 14 \<or> k = 15"
    by presburger
  then show ?thesis by (elim disjE) (simp_all add: win_legal_def)
qed

lemma window_read_rest_correct:
  assumes "window_synced s" and "no_ignore s" and "mem s = m" and "got = mem_load m offset (length got)"
    and "length got < sz \<longrightarrow> offset + length got = (k + 1) * VEL_WINDOW_SIZE" and "length got \<le> sz"
    and "offset + sz \<le> VEL_MEM_SIZE"
  shows "\<exists>d' t. window_read_rest B d s (k * VEL_WINDOW_SIZE) sz got = (d', t, 0, mem_load m offset sz)
     \<and> window_synced t \<and> mem t = m"
  using assms
proof (induction "sz - length got" arbitrary: d s k got rule: less_induct)
  case less
  show ?case
  proof (cases "length got < sz")
    case False
    with less.prems show ?thesis by (simp add: window_read_rest.simps)
  next
    case True
    then have at: "offset + length got = (k + 1) * VEL_WINDOW_SIZE" using less.prems(5) by blast
    let ?w = "word_of_nat ((k + 1) * VEL_WINDOW_SIZE) :: u32"
    have w: "win_legal ?w" "unat ?w = (k + 1) * VEL_WINDOW_SIZE"
      using aligned_legal [of "k + 1"] at True less.prems(7) by auto
    obtain t where t: "velocitor_window_seek B d s ?w = (d\<lparr>window_base := ucast ?w\<rparr>, t, True)"
      "window_synced t" "no_ignore t" "win_base t = ?w" "mem t = mem s"
      using seek_commits [OF less.prems(1,2) w(1)] .
    let ?n = "min (sz - length got) VEL_WINDOW_SIZE"
    let ?got = "got @ memcpy_fromio t VEL_BAR2_WINDOW_OFF ?n"
    have bytes: "memcpy_fromio t VEL_BAR2_WINDOW_OFF ?n = mem_load m (offset + length got) ?n"
      using window_bytes [OF t(2), of 0 ?n] at w(2) t(4,5) less.prems(3) by simp
    have len: "length ?got = length got + ?n" by (simp add: memcpy_fromio_def)
    have "window_read_rest B d s (k * VEL_WINDOW_SIZE) sz got
        = window_read_rest B (d\<lparr>window_base := ucast ?w\<rparr>) t ((k + 1) * VEL_WINDOW_SIZE) sz ?got"
      using True t(1) by (subst window_read_rest.simps) (simp add: Let_def add.commute)
    moreover have "\<exists>d' u. window_read_rest B (d\<lparr>window_base := ucast ?w\<rparr>) t ((k + 1) * VEL_WINDOW_SIZE) sz ?got
        = (d', u, 0, mem_load m offset sz) \<and> window_synced u \<and> mem u = m"
    proof (rule less.hyps)
      show "sz - length ?got < sz - length got" using True len by simp
      show "?got = mem_load m offset (length ?got)"
        using bytes len less.prems(4) mem_load_split [of m offset "length got" ?n] by metis
      show "length ?got < sz \<longrightarrow> offset + length ?got = (k + 1 + 1) * VEL_WINDOW_SIZE"
        using at len by auto
    qed (use t less.prems len in auto)
    ultimately show ?thesis by simp
  qed
qed

section \<open>Properties\<close>



text \<open>A window move the device did not make is never read through: when the device swallows the write
  of WIN_BASE (the injected fault) and the window is not already where it has to be, the read
  returns EIO with no byte delivered, and the fault is spent; a range outside device memory, also
  when offset plus size overflows, is refused with EINVAL without touching the device.\<close>

theorem window_read_refuses:
  assumes "win_pending s = win_base s"
  shows "(err_inject s AND VEL_ERR_INJECT_WIN_IGNORE \<noteq> 0
        \<and> unat (win_base s) \<noteq> ALIGN_DOWN (unat offset) VEL_WINDOW_SIZE
        \<and> unat offset + unat sz \<le> VEL_MEM_SIZE
      \<longrightarrow> (\<exists>d' t. velocitor_window_read B d s offset sz = (d', t, - EIO, []) \<and> no_ignore t))
    \<and> (unat offset + unat sz > VEL_MEM_SIZE \<longrightarrow> velocitor_window_read B d s offset sz = (d, s, - EINVAL, []))"
proof -
  let ?off = "ALIGN_DOWN (unat offset) VEL_WINDOW_SIZE"
  let ?t = "s\<lparr>err_inject := err_inject s AND NOT VEL_ERR_INJECT_WIN_IGNORE\<rparr>"
  have small: "unat (word_of_nat ?off :: u32) = ?off" if "unat offset + unat sz \<le> VEL_MEM_SIZE"
  proof -
    have "?off \<le> unat offset" by (simp add: ALIGN_DOWN_def)
    then show ?thesis using that by (simp add: unat_of_nat)
  qed
  have seek: "velocitor_window_seek B d s (word_of_nat ?off) = (d\<lparr>window_base := ucast (win_base s)\<rparr>, ?t, False)"
    if "err_inject s AND VEL_ERR_INJECT_WIN_IGNORE \<noteq> 0" "unat (win_base s) \<noteq> ?off"
      "unat offset + unat sz \<le> VEL_MEM_SIZE"
    using that small assms
    by (auto simp: velocitor_window_seek_def writel_regs(2) readl_win_base velocitor_window_write_base_def
        velocitor_window_promote_def simp del: VEL_REG_WIN_BASE_def)
  have "no_ignore ?t" by (simp add: no_ignore_def and.assoc)
  moreover have "\<not> (offset + sz < offset \<or> offset + sz > VEL_MEM_SIZE)"
    if "unat offset + unat sz \<le> VEL_MEM_SIZE"
    using copy_in_range [of offset sz VEL_MEM_SIZE] that by simp
  moreover have "offset + sz < offset \<or> offset + sz > VEL_MEM_SIZE"
    if "unat offset + unat sz > VEL_MEM_SIZE"
  proof (rule ccontr)
    assume "\<not> (offset + sz < offset \<or> offset + sz > VEL_MEM_SIZE)"
    then have "\<not> offset + sz < offset" "offset + sz \<le> VEL_MEM_SIZE" by (simp_all only: de_Morgan_disj not_less)
    from range_ok [OF this] that show False by simp
  qed
  ultimately show ?thesis
    using seek by (auto simp: velocitor_window_read_def Let_def)
qed

theorem window_read_refuses_witness:
  "velocitor_window_read quiet_bus drv_zero (velocitor_power_on ()) 0xFFFFFFF 2 = (drv_zero, velocitor_power_on (), - EINVAL, [])
   \<and> (\<exists>d' t. velocitor_window_read quiet_bus drv_zero ((velocitor_power_on ())\<lparr>err_inject := VEL_ERR_INJECT_WIN_IGNORE\<rparr>)
        0x3000000 2 = (d', t, - EIO, []))"
proof -
  have w: "win_pending (velocitor_power_on ()) = 0" "win_base (velocitor_power_on ()) = 0"
    by (simp_all add: velocitor_power_on_def velocitor_reset_def Let_def velocitor_mem_fill_pattern_def)
  show ?thesis
    using window_read_refuses [of "velocitor_power_on ()" "0xFFFFFFF" 2 quiet_bus drv_zero]
      window_read_refuses [of "(velocitor_power_on ())\<lparr>err_inject := VEL_ERR_INJECT_WIN_IGNORE\<rparr>" "0x3000000" 2 quiet_bus drv_zero]
    by (auto simp: w ALIGN_DOWN_def)
qed

end
