(* ===== verification/Drv_Dma.thy ===== *)
theory Drv_Dma
  imports Drv_Mmio
begin

text \<open>
  \<open>dma.c\<close>: the bring-up transfer. The driver writes the registers, starts the engine and polls the
  status; what the machine does between two polls is a parameter.
\<close>

text \<open>1 s of polling every 20 us.\<close>

definition DMA_POLLS :: nat where "DMA_POLLS = 1000000 div 20"

definition dma_finished :: "u32 \<Rightarrow> bool" where
  "dma_finished status \<longleftrightarrow> status = VEL_DMA_STATUS_DONE \<or> status = VEL_DMA_STATUS_ERROR"

text \<open>The errno and, when the caller asks for it, the error code.\<close>

definition velocitor_dma_dbg ::
  "'h pci_bus \<Rightarrow> ('h velocitor_state \<Rightarrow> 'h velocitor_state) \<Rightarrow> velocitor_dev \<Rightarrow> 'h velocitor_state \<Rightarrow>
     u32 \<Rightarrow> u32 \<Rightarrow> u32 \<Rightarrow> u32 \<Rightarrow> 'h velocitor_state \<times> int \<times> u32 option" where
  "velocitor_dma_dbg B env d s dir offset pool_offset len =
     (if pool_offset + len < pool_offset \<or> pool_offset + len > VEL_HOST_POOL_SIZE then (s, - EINVAL, None)
      else
        let target = pool_dma d + ucast pool_offset;
            s = writel B (ucast target) VEL_REG_DBG_DMA_ADDR_LO s;
            s = writel B (ucast (drop_bit 32 target)) VEL_REG_DBG_DMA_ADDR_HI s;
            s = writel B offset VEL_REG_DBG_DMA_DEV s;
            s = writel B len VEL_REG_DBG_DMA_LEN s;
            s = writel B dir VEL_REG_DBG_DMA_CTL s
        in case readl_poll env VEL_REG_DBG_DMA_STATUS dma_finished DMA_POLLS s of
             (s, status, ok) \<Rightarrow>
               let res = (if ok then 0 else - ETIMEDOUT) in
               if status = VEL_DMA_STATUS_ERROR
               then (case readl s VEL_REG_ERR_CODE of (s, code) \<Rightarrow> (s, - EIO, Some code))
               else (s, res, Some 0))"

definition velocitor_dma_dbg_write where
  "velocitor_dma_dbg_write B env d s offset pool_offset len =
     velocitor_dma_dbg B env d s VEL_DBG_DMA_H2D offset pool_offset len"

definition velocitor_dma_dbg_read where
  "velocitor_dma_dbg_read B env d s offset pool_offset len =
     velocitor_dma_dbg B env d s VEL_DBG_DMA_D2H offset pool_offset len"

section \<open>One transfer\<close>

text \<open>The time between two polls, in which the transfer's timer expires.\<close>

definition dma_env :: "'h pci_bus \<Rightarrow> ('h velocitor_state \<Rightarrow> 'h velocitor_state) \<Rightarrow> bool" where
  "dma_env B env \<longleftrightarrow> (\<forall>s. dma_timer s \<noteq> None \<longrightarrow> env s = velocitor_dma_run B (s\<lparr>dma_timer := None\<rparr>))"

text \<open>The device once the registers are written and the engine started.\<close>

definition dma_armed :: "u64 \<Rightarrow> u32 \<Rightarrow> u32 \<Rightarrow> u32 \<Rightarrow> 'h velocitor_state \<Rightarrow> 'h velocitor_state" where
  "dma_armed target offset len dir s =
     s\<lparr>dma_addr_lo := ucast target, dma_addr_hi := ucast (drop_bit 32 target), dma_dev := offset,
       dma_len := len, dma_ctl := dir, err_code := VEL_ERR_NONE, dma_status := VEL_DMA_STATUS_BUSY,
       dma_timer := Some (clock s + VEL_DMA_LATENCY_NS)\<rparr>"

lemma dma_run_finished: "dma_finished (dma_status (velocitor_dma_run B s))"
proof -
  have f: "dma_finished (dma_status (velocitor_dma_fail t c i))" for t :: "'a velocitor_state" and c i
    by (simp add: dma_finished_def velocitor_dma_fail_def)
  have c: "dma_status (cnt_add r k t) = dma_status t" for t :: "'a velocitor_state" and r k
    by (simp add: cnt_add_def)
  show ?thesis by (simp add: velocitor_dma_run_def Let_def f c case_prod_beta) (simp add: dma_finished_def)
qed

lemma dma_dbg_runs:
  assumes "dma_env B env" and "dir = VEL_DBG_DMA_H2D \<or> dir = VEL_DBG_DMA_D2H"
    and "unat pool_offset + unat len \<le> VEL_HOST_POOL_SIZE"
    and "u = velocitor_dma_run B ((dma_armed (pool_dma d + ucast pool_offset) offset len dir s)\<lparr>dma_timer := None\<rparr>)"
  shows "velocitor_dma_dbg B env d s dir offset pool_offset len =
     (if dma_status u = VEL_DMA_STATUS_ERROR then (u, - EIO, Some (err_code u)) else (u, 0, Some 0))"
proof -
  let ?s = "dma_armed (pool_dma d + ucast pool_offset) offset len dir s"
  have w: "writel B dir VEL_REG_DBG_DMA_CTL (writel B len VEL_REG_DBG_DMA_LEN (writel B offset VEL_REG_DBG_DMA_DEV
      (writel B (ucast (drop_bit 32 (pool_dma d + ucast pool_offset))) VEL_REG_DBG_DMA_ADDR_HI
        (writel B (ucast (pool_dma d + ucast pool_offset)) VEL_REG_DBG_DMA_ADDR_LO s)))) = ?s"
    using assms(2) unfolding writel_regs by (auto simp: velocitor_dma_start_def dma_armed_def)
  have busy: "dma_status ?s = VEL_DMA_STATUS_BUSY" "dma_timer ?s \<noteq> None" by (simp_all add: dma_armed_def)
  have u: "env ?s = u" using assms(1,4) busy(2) by (simp add: dma_env_def)
  have poll: "readl_poll env VEL_REG_DBG_DMA_STATUS dma_finished DMA_POLLS ?s = (u, dma_status u, True)"
    unfolding u [symmetric]
  proof (rule poll_second)
    show "dma_finished (dma_status (env ?s))" using dma_run_finished assms(4) u by metis
  qed (use busy(1) in \<open>simp_all only: readl_regs\<close>, simp_all add: dma_finished_def DMA_POLLS_def)
  have "\<not> (pool_offset + len < pool_offset \<or> pool_offset + len > VEL_HOST_POOL_SIZE)"
  proof -
    have "unat (pool_offset + len) = unat pool_offset + unat len"
      using assms(3) by (simp add: unat_word_ariths)
    then show ?thesis using assms(3) by (auto simp: word_less_nat_alt)
  qed
  then show ?thesis
    unfolding velocitor_dma_dbg_def Let_def w poll
    by (simp add: readl_regs del: VEL_REG_ERR_CODE_def)
qed

section \<open>Properties\<close>

lemma target_split: "addr64 (ucast (drop_bit 32 t)) (ucast t) = t"
  using addr64_split [of t] by (simp add: addr64_def or.commute)

text \<open>C28. A bring-up transfer moves what the driver asked for: for a range of the pool, a range of device
  memory and a target the device can address, once the transfer has run the driver returns success
  with error code 0, and memory holds at \<open>offset\<close> exactly the bytes the host gave (H2D), or the host
  received exactly the device's bytes (D2H).\<close>

theorem dma_dbg_moves:
  assumes "dma_env B env" and "unat pool_offset + unat len \<le> VEL_HOST_POOL_SIZE"
    and "unat offset + unat len \<le> VEL_MEM_SIZE"
    and "target = pool_dma d + ucast pool_offset" and "target < 2 ^ VEL_DMA_BITS"
    and "pci_dma_read B (host s) target (unat len) = (bs, True)"
    and "pci_dma_write B (host s) target (mem_load (mem s) (unat offset) (unat len)) = (h, True)"
  shows "(\<exists>t. velocitor_dma_dbg_write B env d s offset pool_offset len = (t, 0, Some 0)
        \<and> mem t = mem_store (mem s) (unat offset) bs \<and> host t = host s)
     \<and> (\<exists>t. velocitor_dma_dbg_read B env d s offset pool_offset len = (t, 0, Some 0)
        \<and> mem t = mem s \<and> host t = h)"
proof -
  let ?s = "\<lambda>dir. (dma_armed target offset len dir s)\<lparr>dma_timer := None\<rparr>"
  have a: "addr64 (dma_addr_hi (?s dir)) (dma_addr_lo (?s dir)) = target" for dir
    using target_split [of target] by (simp add: dma_armed_def)
  have r: "\<not> ucast (dma_dev (?s dir)) + ucast (dma_len (?s dir)) > (VEL_MEM_SIZE :: u64)" for dir
    using u64_sum_bound [of VEL_MEM_SIZE offset len] assms(3) by (simp add: dma_armed_def)
  have run: "velocitor_dma_run B (?s dir) = (case velocitor_dma_transfer B (?s dir) target of (t, ok) \<Rightarrow>
      if \<not> ok then velocitor_dma_fail t VEL_ERR_DMA_WIDTH target else t\<lparr>dma_status := VEL_DMA_STATUS_DONE\<rparr>)" for dir
    using a [of dir] r [of dir] assms(5) by (simp add: velocitor_dma_run_def Let_def)
  have H: "dma_status (velocitor_dma_run B (?s VEL_DBG_DMA_H2D)) = VEL_DMA_STATUS_DONE
     \<and> mem (velocitor_dma_run B (?s VEL_DBG_DMA_H2D)) = mem_store (mem s) (unat offset) bs
     \<and> host (velocitor_dma_run B (?s VEL_DBG_DMA_H2D)) = host s"
    unfolding run using assms(6) by (simp add: velocitor_dma_transfer_def dma_armed_def Let_def)
  have D: "dma_status (velocitor_dma_run B (?s VEL_DBG_DMA_D2H)) = VEL_DMA_STATUS_DONE
     \<and> mem (velocitor_dma_run B (?s VEL_DBG_DMA_D2H)) = mem s \<and> host (velocitor_dma_run B (?s VEL_DBG_DMA_D2H)) = h"
    unfolding run using assms(7) by (simp add: velocitor_dma_transfer_def dma_armed_def Let_def)
  show ?thesis
    using H D dma_dbg_runs [OF assms(1) disjI1 [OF refl] assms(2) refl, where d = d and offset = offset and s = s]
      dma_dbg_runs [OF assms(1) disjI2 [OF refl] assms(2) refl, where d = d and offset = offset and s = s]
    unfolding velocitor_dma_dbg_write_def velocitor_dma_dbg_read_def assms(4) by simp
qed

theorem dma_dbg_moves_witness:
  "\<exists>t. velocitor_dma_dbg_write quiet_bus (\<lambda>s. velocitor_dma_run quiet_bus (s\<lparr>dma_timer := None\<rparr>))
     drv_zero (velocitor_new ()) 0x100 0x200 2 = (t, 0, Some 0) \<and> mem t = mem_store (\<lambda>_. 0) 0x100 [0, 0]"
proof -
  let ?env = "\<lambda>s. velocitor_dma_run quiet_bus (s\<lparr>dma_timer := None\<rparr>)"
  have e: "dma_env quiet_bus ?env" by (simp add: dma_env_def)
  have rd: "pci_dma_read quiet_bus (host (velocitor_new ())) 0x200 (unat (2 :: u32)) = ([0, 0], True)"
  proof -
    have "unat (2 :: u32) = Suc (Suc 0)" by simp
    then show ?thesis by (simp only: quiet_bus_def pci_bus.simps replicate.simps)
  qed
  have wr: "pci_dma_write quiet_bus (host (velocitor_new ())) 0x200 bs = ((), True)" for bs
    by (simp add: quiet_bus_def)
  have b: "unat (0x200 :: u32) + unat (2 :: u32) \<le> VEL_HOST_POOL_SIZE" "unat (0x100 :: u32) + unat (2 :: u32) \<le> VEL_MEM_SIZE"
    "(0x200 :: u64) = pool_dma drv_zero + ucast (0x200 :: u32)" "(0x200 :: u64) < 2 ^ VEL_DMA_BITS"
    by (simp_all add: drv_zero_def)
  have m: "mem (velocitor_new ()) = (\<lambda>_. 0)" "unat (0x100 :: u32) = 0x100"
    by (simp_all add: velocitor_new_def)
  have "\<exists>t. velocitor_dma_dbg_write quiet_bus ?env drv_zero (velocitor_new ()) 0x100 0x200 2 = (t, 0, Some 0)
      \<and> mem t = mem_store (mem (velocitor_new ())) (unat (0x100 :: u32)) [0, 0] \<and> host t = host (velocitor_new ())"
    by (rule conjunct1 [OF dma_dbg_moves]) (rule e b rd wr)+
  then show ?thesis unfolding m by blast
qed

text \<open>The driver can be told a transfer failed without being told why: while an earlier error is still
  latched, a transfer whose device range is out of bounds fails with EIO and error code 0, because
  starting it cleared ERR_CODE and the block keeps only the first error until it is acknowledged.\<close>

theorem dma_error_code_lost:
  assumes "dma_env B env" and "unat pool_offset + unat len \<le> VEL_HOST_POOL_SIZE"
    and "unat offset + unat len > VEL_MEM_SIZE" and "pool_dma d + ucast pool_offset < 2 ^ VEL_DMA_BITS"
    and "irq_status s AND irq_bit VEL_IRQ_VEC_ERROR \<noteq> 0"
  shows "\<exists>t. velocitor_dma_dbg_write B env d s offset pool_offset len = (t, - EIO, Some VEL_ERR_NONE)
     \<and> err_dropped t = err_dropped s + 1"
proof -
  let ?s = "(dma_armed (pool_dma d + ucast pool_offset) offset len VEL_DBG_DMA_H2D s)\<lparr>dma_timer := None\<rparr>"
  have a: "addr64 (dma_addr_hi ?s) (dma_addr_lo ?s) = pool_dma d + ucast pool_offset"
    using target_split by (simp add: dma_armed_def)
  have r: "ucast (dma_dev ?s) + ucast (dma_len ?s) > (VEL_MEM_SIZE :: u64)"
    using u64_sum_bound [of VEL_MEM_SIZE offset len] assms(3) by (simp add: dma_armed_def)
  have "dma_status (velocitor_dma_run B ?s) = VEL_DMA_STATUS_ERROR \<and> err_code (velocitor_dma_run B ?s) = 0
      \<and> err_dropped (velocitor_dma_run B ?s) = err_dropped s + 1"
    using a r assms(4,5)
    by (simp add: velocitor_dma_run_def Let_def velocitor_dma_fail_def velocitor_error_set_def
        velocitor_error_qualify_def cnt_add_def) (simp add: dma_armed_def)
  then show ?thesis
    using dma_dbg_runs [OF assms(1) disjI1 [OF refl] assms(2) refl, where d = d and offset = offset and s = s]
    unfolding velocitor_dma_dbg_write_def by simp
qed

theorem dma_error_code_lost_witness:
  "\<exists>t. velocitor_dma_dbg_write quiet_bus (\<lambda>s. velocitor_dma_run quiet_bus (s\<lparr>dma_timer := None\<rparr>))
     drv_zero ((velocitor_new ())\<lparr>irq_status := 32\<rparr>) 0xFFFFFFFF 0 2 = (t, - EIO, Some 0)"
proof -
  have "dma_env quiet_bus (\<lambda>s. velocitor_dma_run quiet_bus (s\<lparr>dma_timer := None\<rparr>))"
    by (simp add: dma_env_def)
  from dma_error_code_lost [OF this, of 0 2 "0xFFFFFFFF" drv_zero "(velocitor_new ())\<lparr>irq_status := 32\<rparr>"]
  show ?thesis by (auto simp: drv_zero_def irq_bit_def)
qed

section \<open>The debugfs command\<close>

text \<open>\<open>sscanf\<close> is what the format yields, if all four conversions succeed; \<open>copy_ok\<close> the answer of \<open>copy_from_user\<close>.\<close>

definition velocitor_dma_debugfs_ctrl_write ::
  "(bytes \<Rightarrow> (string \<times> u32 \<times> u32 \<times> u32) option) \<Rightarrow> bool \<Rightarrow> 'h pci_bus \<Rightarrow> ('h velocitor_state \<Rightarrow> 'h velocitor_state) \<Rightarrow>
     velocitor_dev \<Rightarrow> bytes \<Rightarrow> 'h velocitor_state \<Rightarrow> 'h velocitor_state \<times> int" where
  "velocitor_dma_debugfs_ctrl_write sscanf copy_ok B env d line s =
     (if length line = 0 \<or> length line \<ge> 64 then (s, - EINVAL)
      else if \<not> copy_ok then (s, - EFAULT)
      else case sscanf line of
        None \<Rightarrow> (s, - EINVAL)
      | Some (dir, offset, pool_offset, n) \<Rightarrow>
          if dir = ''h2d'' then
            (case velocitor_dma_dbg_write B env d s offset pool_offset n of
               (s, res, code) \<Rightarrow> (s, if res \<noteq> 0 then res else int (length line)))
          else if dir = ''d2h'' then
            (case velocitor_dma_dbg_read B env d s offset pool_offset n of
               (s, res, code) \<Rightarrow> (s, if res \<noteq> 0 then res else int (length line)))
          else (s, - EINVAL))"

lemma dma_dbg_result: "fst (snd (velocitor_dma_dbg B env d s dir off pool n)) \<in> {0, - EINVAL, - EIO, - ETIMEDOUT}"
  by (simp add: velocitor_dma_dbg_def Let_def split: prod.split)

text \<open>A command is taken whole or refused with an errno, never cut short; one that does not parse leaves the
  device alone.\<close>

lemma dma_ctrl_write_whole:
  "snd (velocitor_dma_debugfs_ctrl_write sscanf copy_ok B env d line s) < 0
     \<or> snd (velocitor_dma_debugfs_ctrl_write sscanf copy_ok B env d line s) = int (length line)"
  "sscanf line = None \<Longrightarrow> fst (velocitor_dma_debugfs_ctrl_write sscanf copy_ok B env d line s) = s"
proof -
  show "snd (velocitor_dma_debugfs_ctrl_write sscanf copy_ok B env d line s) < 0
     \<or> snd (velocitor_dma_debugfs_ctrl_write sscanf copy_ok B env d line s) = int (length line)"
  proof (cases "sscanf line")
    case None
    then show ?thesis by (simp add: velocitor_dma_debugfs_ctrl_write_def)
  next
    case (Some c)
    obtain dir off pool n where c: "c = (dir, off, pool, n)" by (cases c) auto
    obtain s1 r1 c1 where w: "velocitor_dma_dbg_write B env d s off pool n = (s1, r1, c1)" by (metis prod_cases3)
    obtain s2 r2 c2 where r: "velocitor_dma_dbg_read B env d s off pool n = (s2, r2, c2)" by (metis prod_cases3)
    have "r1 \<le> 0" using dma_dbg_result [of B env d s VEL_DBG_DMA_H2D off pool n] w by (auto simp: velocitor_dma_dbg_write_def)
    moreover have "r2 \<le> 0" using dma_dbg_result [of B env d s VEL_DBG_DMA_D2H off pool n] r by (auto simp: velocitor_dma_dbg_read_def)
    ultimately show ?thesis by (simp add: velocitor_dma_debugfs_ctrl_write_def Some c w r)
  qed
  show "sscanf line = None \<Longrightarrow> fst (velocitor_dma_debugfs_ctrl_write sscanf copy_ok B env d line s) = s"
    by (simp add: velocitor_dma_debugfs_ctrl_write_def)
qed

end
