(* ===== verification/Fw_Image.thy ===== *)
theory Fw_Image
  imports Vel_Firmware
begin

text \<open>
  \<open>firmware/mkfw.c\<close>: the firmware image generator. The image is the static array \<open>img\<close> of 8192
  zero bytes, written byte by byte; offsets are \<open>unsigned int\<close> and stay far below the wrap, so they
  are natural numbers here. \<open>main\<close> is split where its comments split it; writing the file is not
  modelled, the image and \<open>img_len\<close> are what \<open>fwrite\<close> is given.
\<close>

section \<open>Constants\<close>

definition ET_EXEC :: u16 where [simp]: "ET_EXEC = 2"
definition EM_NONE :: u16 where [simp]: "EM_NONE = 0"
definition EV_CURRENT :: u32 where [simp]: "EV_CURRENT = 1"
definition ELFCLASS32 :: u8 where [simp]: "ELFCLASS32 = 1"
definition ELFDATA2LSB :: u8 where [simp]: "ELFDATA2LSB = 1"
definition PT_LOAD :: u32 where [simp]: "PT_LOAD = 1"
definition PF_R :: u32 where [simp]: "PF_R = 4"
definition PF_W :: u32 where [simp]: "PF_W = 2"
definition SHT_PROGBITS :: u32 where [simp]: "SHT_PROGBITS = 1"
definition SHT_STRTAB :: u32 where [simp]: "SHT_STRTAB = 3"
definition SHF_ALLOC :: u32 where [simp]: "SHF_ALLOC = 2"
definition EHDR_SIZE :: nat where [simp]: "EHDR_SIZE = 52"
definition PHDR_SIZE :: nat where [simp]: "PHDR_SIZE = 32"
definition SHDR_SIZE :: nat where [simp]: "SHDR_SIZE = 40"
definition RSC_CARVEOUT :: u32 where [simp]: "RSC_CARVEOUT = 0"
definition RSC_VDEV :: u32 where [simp]: "RSC_VDEV = 3"
definition FW_RSC_ADDR_ANY :: u32 where [simp]: "FW_RSC_ADDR_ANY = 0xFFFFFFFF"
definition VIRTIO_ID_RPMSG :: u32 where [simp]: "VIRTIO_ID_RPMSG = 7"
definition VIRTIO_RPMSG_F_NS :: nat where [simp]: "VIRTIO_RPMSG_F_NS = 0"
definition FW_TRACE_DA :: u32 where [simp]: "FW_TRACE_DA = 0x10000"
definition PAYLOAD_OFF :: nat where [simp]: "PAYLOAD_OFF = 128"
definition IMG_SIZE :: nat where [simp]: "IMG_SIZE = 8192"

section \<open>Emitting\<close>

definition put16 :: "nat \<Rightarrow> u16 \<Rightarrow> store \<Rightarrow> store" where
  "put16 off v img = mem_store img off [ucast (v AND 0xff), ucast (drop_bit 8 v)]"

definition put32 :: "nat \<Rightarrow> u32 \<Rightarrow> store \<Rightarrow> store" where
  "put32 off v img = mem_store img off
     [ucast (v AND 0xff), ucast (drop_bit 8 v AND 0xff), ucast (drop_bit 16 v AND 0xff), ucast (drop_bit 24 v)]"

definition put8 :: "nat \<Rightarrow> u8 \<Rightarrow> store \<Rightarrow> store" where
  "put8 off v img = img(off := v)"

definition emit_vring :: "nat \<Rightarrow> store \<Rightarrow> store \<times> nat" where
  "emit_vring off img =
     (let img = put32 (off + 0) FW_RSC_ADDR_ANY img;
          img = put32 (off + 4) VEL_VRING_ALIGN img;
          img = put32 (off + 8) VEL_VRING_NUM img;
          img = put32 (off + 12) 0 img;
          img = put32 (off + 16) 0 img
      in (img, off + 20))"

definition emit_vdev :: "nat \<Rightarrow> u32 \<Rightarrow> u32 \<Rightarrow> store \<Rightarrow> store \<times> nat" where
  "emit_vdev off vid dfeatures img =
     (let img = put32 (off + 0) RSC_VDEV img;
          img = put32 (off + 4) vid img;
          img = put32 (off + 8) 0 img;
          img = put32 (off + 12) dfeatures img;
          img = put32 (off + 16) 0 img;
          img = put32 (off + 20) 0 img;
          img = put8 (off + 24) 0 img;
          img = put8 (off + 25) 2 img;
          img = put8 (off + 26) 0 img;
          img = put8 (off + 27) 0 img;
          (img, off) = emit_vring (off + 28) img
      in emit_vring off img)"

definition emit_heap :: "nat \<Rightarrow> store \<Rightarrow> store \<times> nat" where
  "emit_heap off img =
     (let img = put32 (off + 0) RSC_CARVEOUT img;
          img = put32 (off + 4) VEL_APERTURE_SIZE img;
          img = put32 (off + 8) 0 img;
          img = put32 (off + 12) (VEL_MEM_SIZE - VEL_APERTURE_SIZE) img;
          img = put32 (off + 16) 0 img;
          img = put32 (off + 20) 0 img;
          img = mem_store img (off + 24) (replicate 32 0);
          img = mem_store img (off + 24) (str ''heap'')
      in (img, off + 24 + 32))"

section \<open>The parts of the image\<close>

text \<open>The firmware header at device address 0.\<close>

definition emit_payload_header :: "store \<Rightarrow> store" where
  "emit_payload_header img =
     (let img = put32 (PAYLOAD_OFF + VEL_FW_HDR_OFF_MAGIC) VEL_FW_MAGIC img;
          img = put32 (PAYLOAD_OFF + VEL_FW_HDR_OFF_ABI) VEL_FW_ABI img;
          img = put32 (PAYLOAD_OFF + VEL_FW_HDR_OFF_TRACE_DA) FW_TRACE_DA img
      in put32 (PAYLOAD_OFF + VEL_FW_HDR_OFF_TRACE_LEN) VEL_TRACE_SIZE img)"

text \<open>The resource table at \<open>rsc_off\<close>, and where it ends.\<close>

definition emit_rsc_table :: "nat \<Rightarrow> store \<Rightarrow> store \<times> nat" where
  "emit_rsc_table rsc_off img =
     (let e1 = rsc_off + 16 + 3 * 4;
          (img, e2) = emit_heap e1 img;
          (img, e3) = emit_vdev e2 VIRTIO_ID_RPMSG (push_bit VIRTIO_RPMSG_F_NS 1) img;
          (img, rsc_end) = emit_vdev e3 VEL_VIRTIO_ID 0 img;
          img = put32 (rsc_off + 0) 1 img;
          img = put32 (rsc_off + 4) 3 img;
          img = put32 (rsc_off + 8) 0 img;
          img = put32 (rsc_off + 12) 0 img;
          img = put32 (rsc_off + 16) (of_nat (e1 - rsc_off)) img;
          img = put32 (rsc_off + 20) (of_nat (e2 - rsc_off)) img;
          img = put32 (rsc_off + 24) (of_nat (e3 - rsc_off)) img
      in (img, rsc_end))"

text \<open>The section name table at \<open>shstrtab_off\<close>.\<close>

definition emit_shstrtab :: "nat \<Rightarrow> store \<Rightarrow> store" where
  "emit_shstrtab shstrtab_off img =
     (let img = put8 shstrtab_off 0 img;
          img = mem_store img (shstrtab_off + 1) (str ''.shstrtab'' @ [0])
      in mem_store img (shstrtab_off + 11) (str ''.resource_table'' @ [0]))"

definition SHSTRTAB_LEN :: nat where [simp]: "SHSTRTAB_LEN = 27"

text \<open>The three section headers at \<open>shoff\<close>.\<close>

definition emit_sections :: "nat \<Rightarrow> nat \<Rightarrow> nat \<Rightarrow> nat \<Rightarrow> nat \<Rightarrow> store \<Rightarrow> store" where
  "emit_sections shoff rsc_da rsc_off rsc_end shstrtab_off img =
     (let img = mem_store img shoff (replicate SHDR_SIZE 0);
          img = put32 (shoff + SHDR_SIZE + 0) 11 img;
          img = put32 (shoff + SHDR_SIZE + 4) SHT_PROGBITS img;
          img = put32 (shoff + SHDR_SIZE + 8) SHF_ALLOC img;
          img = put32 (shoff + SHDR_SIZE + 12) (of_nat rsc_da) img;
          img = put32 (shoff + SHDR_SIZE + 16) (of_nat rsc_off) img;
          img = put32 (shoff + SHDR_SIZE + 20) (of_nat (rsc_end - rsc_off)) img;
          img = put32 (shoff + SHDR_SIZE + 24) 0 img;
          img = put32 (shoff + SHDR_SIZE + 28) 0 img;
          img = put32 (shoff + SHDR_SIZE + 32) 4 img;
          img = put32 (shoff + SHDR_SIZE + 36) 0 img;
          img = put32 (shoff + 2 * SHDR_SIZE + 0) 1 img;
          img = put32 (shoff + 2 * SHDR_SIZE + 4) SHT_STRTAB img;
          img = put32 (shoff + 2 * SHDR_SIZE + 8) 0 img;
          img = put32 (shoff + 2 * SHDR_SIZE + 12) 0 img;
          img = put32 (shoff + 2 * SHDR_SIZE + 16) (of_nat shstrtab_off) img;
          img = put32 (shoff + 2 * SHDR_SIZE + 20) (of_nat SHSTRTAB_LEN) img;
          img = put32 (shoff + 2 * SHDR_SIZE + 24) 0 img;
          img = put32 (shoff + 2 * SHDR_SIZE + 28) 0 img;
          img = put32 (shoff + 2 * SHDR_SIZE + 32) 1 img
      in put32 (shoff + 2 * SHDR_SIZE + 36) 0 img)"

text \<open>The ELF header and the single loadable segment.\<close>

definition emit_ehdr :: "nat \<Rightarrow> store \<Rightarrow> store" where
  "emit_ehdr shoff img =
     (let img = put8 0 0x7f img;
          img = mem_store img 1 (str ''ELF'');
          img = put8 4 ELFCLASS32 img;
          img = put8 5 ELFDATA2LSB img;
          img = put8 6 (ucast EV_CURRENT) img;
          img = put16 16 ET_EXEC img;
          img = put16 18 EM_NONE img;
          img = put32 20 EV_CURRENT img;
          img = put32 24 0 img;
          img = put32 28 (of_nat EHDR_SIZE) img;
          img = put32 32 (of_nat shoff) img;
          img = put32 36 0 img;
          img = put16 40 (of_nat EHDR_SIZE) img;
          img = put16 42 (of_nat PHDR_SIZE) img;
          img = put16 44 1 img;
          img = put16 46 (of_nat SHDR_SIZE) img;
          img = put16 48 3 img
      in put16 50 2 img)"

definition emit_phdr :: "nat \<Rightarrow> store \<Rightarrow> store" where
  "emit_phdr payload_len img =
     (let img = put32 (EHDR_SIZE + 0) PT_LOAD img;
          img = put32 (EHDR_SIZE + 4) (of_nat PAYLOAD_OFF) img;
          img = put32 (EHDR_SIZE + 8) VEL_FW_HDR_DA img;
          img = put32 (EHDR_SIZE + 12) VEL_FW_HDR_DA img;
          img = put32 (EHDR_SIZE + 16) (of_nat payload_len) img;
          img = put32 (EHDR_SIZE + 20) (FW_TRACE_DA + VEL_TRACE_SIZE) img;
          img = put32 (EHDR_SIZE + 24) (PF_R OR PF_W) img
      in put32 (EHDR_SIZE + 28) 4096 img)"

text \<open>\<open>main\<close>: the image and \<open>img_len\<close>.\<close>

definition mkfw :: "store \<times> nat" where
  "mkfw =
     (let img = (\<lambda>_. 0);
          img = emit_payload_header img;
          rsc_off = PAYLOAD_OFF + VEL_FW_HDR_SIZE;
          rsc_da = VEL_FW_HDR_DA + VEL_FW_HDR_SIZE;
          (img, rsc_end) = emit_rsc_table rsc_off img;
          payload_len = rsc_end - PAYLOAD_OFF;
          shstrtab_off = rsc_end;
          img = emit_shstrtab shstrtab_off img;
          shoff = (shstrtab_off + SHSTRTAB_LEN + 3) div 4 * 4;
          img = emit_sections shoff rsc_da rsc_off rsc_end shstrtab_off img;
          img_len = shoff + 3 * SHDR_SIZE;
          img = emit_ehdr shoff img;
          img = emit_phdr payload_len img
      in (img, img_len))"

section \<open>Reading the image back\<close>

definition img_word :: "store \<Rightarrow> nat \<Rightarrow> u32" where
  "img_word img off = get_le 0 4 (mem_load img off 4)"

lemma byte_of: "(ucast (drop_bit n (v :: u32)) :: u8) = word_of_nat (unat v div 2 ^ n)"
proof -
  have "(word_of_nat (unat (drop_bit n v)) :: u8) = ucast (drop_bit n v)"
    by (rule of_nat_unat)
  then show ?thesis by (simp only: unat_drop_bit_eq drop_bit_eq_div [where 'a = nat])
qed
lemma byte_mask: "(ucast ((w :: u32) AND 0xff) :: u8) = ucast w"
proof -
  have "(0xff :: u32) = mask 8" by (simp add: mask_eq_exp_minus_1)
  then show ?thesis by (simp only: take_bit_eq_mask [symmetric]) (rule bit_word_eqI; simp add: bit_simps)
qed
lemma byte_of_00: "(ucast (v :: u32) :: u8) = word_of_nat (unat v)"
  using byte_of [of 0 v] by simp
lemma put32_bytes: "(ucast (v AND 0xff) :: u8) = word_of_nat (unat (v::u32))"
    "(ucast (drop_bit 8 v AND 0xff) :: u8) = word_of_nat (unat v div 256)"
    "(ucast (drop_bit 16 v AND 0xff) :: u8) = word_of_nat (unat v div 256 div 256)"
    "(ucast (drop_bit 24 v) :: u8) = word_of_nat (unat v div 256 div 256 div 256)"
  using byte_of [of 0 v] byte_of [of 8 v] byte_of [of 16 v] byte_of [of 24 v]
    div_mult2_eq [of "unat v" 256 256] div_mult2_eq [of "unat v" 65536 256]
  by (simp_all only: byte_mask) simp_all

lemma put32_le: "put32 off v img = mem_store img off (put_le 4 v)"
proof -
  have "put_le 4 v = [word_of_nat (unat v), word_of_nat (unat v div 256), word_of_nat (unat v div 256 div 256),
      word_of_nat (unat v div 256 div 256 div 256)]"
    by (simp add: put_le_def)
  then show ?thesis by (simp only: put32_def put32_bytes [of v])
qed

lemma put8_le: "put8 off v img = mem_store img off [v]"
  by (auto simp: put8_def mem_store_def fun_eq_iff)

lemma img_out: "off' + n \<le> off \<or> off + length bs \<le> off' \<Longrightarrow>
    mem_load (mem_store m off bs) off' n = mem_load m off' n"
  by (rule mem_load_store_other)

lemmas emits = emit_vring_def emit_vdev_def emit_heap_def emit_payload_header_def emit_rsc_table_def
  emit_shstrtab_def emit_sections_def emit_ehdr_def emit_phdr_def

lemma mkfw_len: "snd mkfw = 512"
  by (simp add: mkfw_def emits Let_def)

lemmas mkfw_simps = mkfw_def emits Let_def put32_le put8_le put16_def img_word_def img_out str_def

lemma mkfw_header:
  "img_word (fst mkfw) 128 = VEL_FW_MAGIC" "img_word (fst mkfw) 132 = VEL_FW_ABI"
  "img_word (fst mkfw) 136 = FW_TRACE_DA" "img_word (fst mkfw) 140 = VEL_TRACE_SIZE"
  by (simp_all add: mkfw_simps)

lemma mkfw_segment:
  "img_word (fst mkfw) 28 = 52" "img_word (fst mkfw) 52 = PT_LOAD" "img_word (fst mkfw) 56 = 128"
  "img_word (fst mkfw) 64 = 0" "img_word (fst mkfw) 68 = 236" "img_word (fst mkfw) 72 = 0x20000"
  by (simp_all add: mkfw_simps)

lemma mkfw_table:
  "img_word (fst mkfw) 144 = 1" "img_word (fst mkfw) 148 = 3"
  "img_word (fst mkfw) 160 = 28" "img_word (fst mkfw) 164 = 84" "img_word (fst mkfw) 168 = 152"
  "img_word (fst mkfw) 172 = RSC_CARVEOUT" "img_word (fst mkfw) 228 = RSC_VDEV" "img_word (fst mkfw) 296 = RSC_VDEV"
  by (simp_all add: mkfw_simps)

section \<open>Properties\<close>

text \<open>What \<open>rproc_elf_load_segments\<close> documents for the one \<open>PT_LOAD\<close> entry: \<open>p_filesz\<close> bytes of the
  file at \<open>p_paddr\<close>, then zeroes up to \<open>p_memsz\<close>.\<close>

definition segment_loaded :: "store \<Rightarrow> store \<Rightarrow> bool" where
  "segment_loaded img m =
     (let ph = unat (img_word img 28);
          off = unat (img_word img (ph + 4));
          pa = unat (img_word img (ph + 12));
          filesz = unat (img_word img (ph + 16));
          memsz = unat (img_word img (ph + 20))
      in mem_load m pa filesz = mem_load img off filesz
         \<and> mem_load m (pa + filesz) (memsz - filesz) = replicate (memsz - filesz) 0)"

lemma loaded_words:
  assumes "segment_loaded (fst mkfw) m" and "a + 4 \<le> 236"
  shows "get_le 0 4 (mem_load m a 4) = img_word (fst mkfw) (128 + a)"
proof -
  have "mem_load m 0 236 = mem_load (fst mkfw) 128 236"
    using assms(1) by (simp add: segment_loaded_def Let_def mkfw_segment)
  then have "take 4 (drop a (mem_load m 0 236)) = take 4 (drop a (mem_load (fst mkfw) 128 236))" by simp
  then show ?thesis using assms(2) by (simp add: mem_load_sub img_word_def)
qed

text \<open>C32. The firmware the generator writes is one the device boots: once its segment is loaded into device
  memory, releasing RESET verifies it, takes the trace ring at the address the header names, raises no
  error and schedules the boot.\<close>

theorem mkfw_boots:
  assumes "segment_loaded (fst mkfw) (mem s)"
  shows "velocitor_reset_write s 0 = s\<lparr>reset := 0, fw_status := VEL_FW_STATUS_VERIFIED, fw_abi := VEL_FW_ABI,
     trace_da := FW_TRACE_DA, trace_len := VEL_TRACE_SIZE, trace_epoch := clock s,
     boot_timer := Some (clock s + VEL_FW_BOOT_LATENCY_NS)\<rparr>"
proof -
  show ?thesis
    using loaded_words [OF assms, of 0] loaded_words [OF assms, of 4] loaded_words [OF assms, of 8]
      loaded_words [OF assms, of 12]
    by (simp add: velocitor_reset_write_def velocitor_fw_verify_def velocitor_mem_read32_def Let_def mkfw_header)
qed

definition loaded_image :: store where
  "loaded_image = (\<lambda>i. if i < 236 then fst mkfw (128 + i) else 0)"

lemma loaded_image: "segment_loaded (fst mkfw) loaded_image"
proof -
  have "mem_load loaded_image 0 236 = mem_load (fst mkfw) 128 236"
    by (rule nth_equalityI) (simp_all add: loaded_image_def)
  moreover have "mem_load loaded_image 236 (0x20000 - 236) = replicate (0x20000 - 236) 0"
    by (rule nth_equalityI) (simp_all add: loaded_image_def)
  ultimately show ?thesis by (simp add: segment_loaded_def Let_def mkfw_segment)
qed

theorem mkfw_boots_witness:
  "fw_status (velocitor_reset_write ((velocitor_new ())\<lparr>mem := loaded_image\<rparr>) 0) = VEL_FW_STATUS_VERIFIED
   \<and> trace_da (velocitor_reset_write ((velocitor_new ())\<lparr>mem := loaded_image\<rparr>) 0) = 0x10000"
  using mkfw_boots [of "(velocitor_new ())\<lparr>mem := loaded_image\<rparr>"] by (simp add: loaded_image)

definition fw_image :: store where
  "fw_image = fst mkfw"

text \<open>What the headers of the image say: its ident, one loadable segment and three sections; headers and
  segment lie inside the \<open>img_len\<close> bytes written, which fit the generator's array; the segment fits the
  aperture \<open>da_to_va\<close> covers; section 1 carries the name the core looks for, lies inside the segment, and
  its device address is where loading the segment puts it.\<close>

lemma mkfw_headers:
  "mem_load fw_image 0 7 = [0x7f, 0x45, 0x4c, 0x46, ELFCLASS32, ELFDATA2LSB, 1]
     \<and> img_word fw_image 52 = 1 \<and> get_le 0 2 (mem_load fw_image 44 2) = (1 :: u16) \<and> get_le 0 2 (mem_load fw_image 48 2) = (3 :: u16)
     \<and> get_le 0 2 (mem_load fw_image 50 2) = (2 :: u16)
     \<and> unat (img_word fw_image 28) + PHDR_SIZE \<le> unat (img_word fw_image 56)
     \<and> unat (img_word fw_image 56) + unat (img_word fw_image 68) \<le> unat (img_word fw_image 488)
     \<and> unat (img_word fw_image 488) + unat (img_word fw_image 492) \<le> unat (img_word fw_image 32)
     \<and> unat (img_word fw_image 32) + 3 * SHDR_SIZE = snd mkfw \<and> snd mkfw \<le> IMG_SIZE
     \<and> img_word fw_image 68 \<le> img_word fw_image 72
     \<and> unat (img_word fw_image 64) + unat (img_word fw_image 72) \<le> VEL_APERTURE_SIZE
     \<and> mem_load fw_image (unat (img_word fw_image 488) + unat (img_word fw_image 432)) 16 = str ''.resource_table'' @ [0]
     \<and> unat (img_word fw_image 448) + unat (img_word fw_image 452) = unat (img_word fw_image 56) + unat (img_word fw_image 68)
     \<and> img_word fw_image 444 - img_word fw_image 64 = img_word fw_image 448 - img_word fw_image 56"
proof -
  have "mem_load fw_image 0 7 = [0x7f, 0x45, 0x4c, 0x46, ELFCLASS32, ELFDATA2LSB, 1]"
    unfolding fw_image_def
    by (simp add: mkfw_def emits Let_def put32_le put8_le put16_def str_def) (simp add: mem_load_def mem_store_def upt_rec)
  moreover have "get_le 0 2 (mem_load fw_image 44 2) = (1 :: u16)" "get_le 0 2 (mem_load fw_image 48 2) = (3 :: u16)"
    "get_le 0 2 (mem_load fw_image 50 2) = (2 :: u16)"
    unfolding fw_image_def by (simp_all add: mkfw_simps get_le_def)
  moreover have f: "img_word fw_image 52 = 1" "img_word fw_image 32 = 392" "img_word fw_image 432 = 11" "img_word fw_image 444 = 16" "img_word fw_image 448 = 144"
   "img_word fw_image 452 = 220" "img_word fw_image 488 = 364" "img_word fw_image 492 = 27"
   unfolding fw_image_def by (simp_all add: mkfw_simps)
  moreover have "mem_load fw_image 375 16 = str ''.resource_table'' @ [0]"
    unfolding fw_image_def by (simp add: mkfw_simps)
  moreover note mkfw_segment [folded fw_image_def] mkfw_len
  ultimately show ?thesis by simp
qed
end
