(* ===== verification/Drv_Rsc.thy ===== *)
theory Drv_Rsc
  imports Drv_Mmio Fw_Image
begin

text \<open>
  \<open>velocitor_rproc_walk_rsc_table\<close> of \<open>remoteproc.c\<close>: how the driver learns the notifyid of each of its
  four rings, and that the device, which walks the published copy of the same table by itself
  (\<open>Vel_Rsc\<close>), learns the same ones.
\<close>

definition VEL_VRINGS_COUNT :: nat where [simp]: "VEL_VRINGS_COUNT = 4"

section \<open>The driver's walk\<close>

text \<open>
  The table is \<open>cached_table\<close>, the byte image the remoteproc core keeps. The loops run over the
  entries and over the vrings of one vdev, \<open>n\<close> iterations left; \<open>None\<close> is \<open>-EINVAL\<close> returned from
  inside.
\<close>

fun walk_vrings ::
  "bytes \<Rightarrow> nat \<Rightarrow> nat \<Rightarrow> nat \<Rightarrow> nat \<Rightarrow> (nat \<Rightarrow> velocitor_vring) \<Rightarrow> (nat \<Rightarrow> velocitor_vring) \<times> nat option"
where
  "walk_vrings tbl vdev 0 j vring_index rings = (rings, Some vring_index)"
| "walk_vrings tbl vdev (Suc n) j vring_index rings =
     (if vring_index \<ge> VEL_VRINGS_COUNT then (rings, None)
      else walk_vrings tbl vdev n (Suc j) (Suc vring_index)
             (rings(vring_index := (rings vring_index)\<lparr>vr_notifyid := get_le (vdev + 24 + 20 * j + 12) 4 tbl\<rparr>)))"

fun walk_entries ::
  "bytes \<Rightarrow> nat \<Rightarrow> nat \<Rightarrow> nat \<Rightarrow> (nat \<Rightarrow> velocitor_vring) \<Rightarrow> (nat \<Rightarrow> velocitor_vring) \<times> nat option"
where
  "walk_entries tbl 0 i vring_index rings = (rings, Some vring_index)"
| "walk_entries tbl (Suc n) i vring_index rings =
     (let header = unat (get_le (16 + 4 * i) 4 tbl :: u32) in
      if get_le header 4 tbl \<noteq> (3 :: u32) then walk_entries tbl n (Suc i) vring_index rings
      else
        let vdev = header + 4;
            num_of_vrings = unat (get_le (vdev + 21) 1 tbl :: u8)
        in case walk_vrings tbl vdev num_of_vrings 0 vring_index rings of
             (rings, None) \<Rightarrow> (rings, None)
           | (rings, Some vring_index) \<Rightarrow> walk_entries tbl n (Suc i) vring_index rings)"

definition velocitor_rproc_walk_rsc_table ::
  "bytes option \<Rightarrow> (nat \<Rightarrow> velocitor_vring) \<Rightarrow> (nat \<Rightarrow> velocitor_vring) \<times> int" where
  "velocitor_rproc_walk_rsc_table cached_table rings =
     (case cached_table of
        None \<Rightarrow> (rings, - EIO)
      | Some tbl \<Rightarrow>
          (case walk_entries tbl (unat (get_le 4 4 tbl :: u32)) 0 0 rings of
             (rings, None) \<Rightarrow> (rings, - EINVAL)
           | (rings, Some vring_index) \<Rightarrow> (rings, if vring_index = VEL_VRINGS_COUNT then 0 else - EINVAL)))"

section \<open>A published table\<close>

text \<open>
  What \<open>rproc_handle_resources\<close> has checked of a table it accepted: no entry, and no vring of a vdev,
  reaches past the end.
\<close>

definition entry_ok :: "bytes \<Rightarrow> nat \<Rightarrow> bool" where
  "entry_ok tbl i \<longleftrightarrow>
     (let header = unat (get_le (16 + 4 * i) 4 tbl :: u32) in
      header + 4 \<le> length tbl \<and>
      (get_le header 4 tbl = (3 :: u32) \<longrightarrow>
         header + 28 + 20 * unat (get_le (header + 25) 1 tbl :: u8) \<le> length tbl))"

definition table_ok :: "bytes \<Rightarrow> bool" where
  "table_ok tbl \<longleftrightarrow> 16 + 4 * unat (get_le 4 4 tbl :: u32) \<le> length tbl
     \<and> (\<forall>i < unat (get_le 4 4 tbl :: u32). entry_ok tbl i)"

definition published :: "'h pci_bus \<Rightarrow> bytes \<Rightarrow> 'h velocitor_state \<Rightarrow> bool" where
  "published B tbl s \<longleftrightarrow>
     (let base = addr64 (rsc_addr_hi s) (rsc_addr_lo s) in
      unat (rsc_len s) = length tbl \<and> unat base + length tbl \<le> 2 ^ VEL_DMA_BITS
      \<and> (\<forall>off. off + 4 \<le> length tbl \<longrightarrow>
           pci_dma_read B (host s) (base + word_of_nat off) 4 = (take 4 (drop off tbl), True)))"

lemma published_len: "published B tbl s \<Longrightarrow> length tbl < 2 ^ 32"
  using unat_bound [of "rsc_len s"] by (simp add: published_def Let_def)

lemma published_cong:
  assumes "published B tbl s" and "rsc_addr_hi t = rsc_addr_hi s" and "rsc_addr_lo t = rsc_addr_lo s"
    and "rsc_len t = rsc_len s" and "host t = host s"
  shows "published B tbl t"
  using assms by (simp add: published_def)

lemma published_vq [simp]: "published B tbl s \<Longrightarrow> published B tbl (set_vq q f s)"
  by (rule published_cong) simp_all

lemma in_table: "published B tbl s \<Longrightarrow> velocitor_rsc_in_table s off \<longleftrightarrow> unat off + 4 \<le> length tbl"
proof -
  assume "published B tbl s"
  then have l: "unat (rsc_len s) = length tbl" by (simp add: published_def Let_def)
  have "unat off < 2 ^ 32" using unat_bound [of off] by simp
  then have "unat ((ucast off :: u64) + 4) = unat off + 4" by (simp add: unat_word_ariths)
  then show ?thesis using l by (simp add: velocitor_rsc_in_table_def word_le_nat_alt)
qed

lemma read_table:
  assumes "published B tbl s" and "unat off + 4 \<le> length tbl"
  shows "velocitor_rsc_read32 B s off = (s, Some (get_le (unat off) 4 tbl))"
proof -
  let ?base = "addr64 (rsc_addr_hi s) (rsc_addr_lo s)"
  have b: "unat ?base + length tbl \<le> 2 ^ 42" and
    r: "\<And>i. i + 4 \<le> length tbl \<Longrightarrow> pci_dma_read B (host s) (?base + word_of_nat i) 4 = (take 4 (drop i tbl), True)"
    using assms by (simp_all add: published_def Let_def)
  have "unat (?base + ucast off) = unat ?base + unat off"
    using b assms(2) by (simp add: unat_word_ariths)
  then have "?base + ucast off < 2 ^ 42" using b assms(2) by (simp add: word_less_nat_alt)
  moreover have "pci_dma_read B (host s) (?base + ucast off) 4 = (take 4 (drop (unat off) tbl), True)"
    using r [OF assms(2)] by simp
  moreover have "\<not> (ucast off :: u64) + 4 > ucast (rsc_len s)"
    using in_table [OF assms(1), of off] assms(2) by (simp add: velocitor_rsc_in_table_def)
  ultimately show ?thesis
    by (simp add: velocitor_rsc_read32_def Let_def get_le_def not_le)
qed

section \<open>Both walks agree\<close>

definition agree :: "nat \<Rightarrow> (nat \<Rightarrow> velocitor_vring) \<Rightarrow> 'h velocitor_state \<Rightarrow> bool" where
  "agree k rings s \<longleftrightarrow> (\<forall>i < k. q_notifyid (vq s i) = vr_notifyid (rings i))"

lemma unat_u32_of_nat: "n < 2 ^ 32 \<Longrightarrow> unat (word_of_nat n :: u32) = n"
  by (simp add: unat_of_nat take_bit_nat_eq_self)

lemma agree_step:
  "agree q rings s \<Longrightarrow> agree (Suc q) (rings(q := (rings q)\<lparr>vr_notifyid := v\<rparr>))
     (set_vq q (q_vdev_off_update (\<lambda>_. w) \<circ> q_notifyid_update (\<lambda>_. v)) s)"
  by (auto simp: agree_def less_Suc_eq set_vq_def)

lemma vrings_agree:
  assumes "walk_vrings tbl body n j q rings = (rings', Some q')"
    and "published B tbl s" and "body + 24 + 20 * (j + n) \<le> length tbl" and "agree q rings s"
  shows "\<exists>t. rsc_scan_vrings B (word_of_nat body) n (word_of_nat j) q s = (t, q', False)
     \<and> published B tbl t \<and> agree q' rings' t \<and> rsc_valid t = rsc_valid s"
  using assms
proof (induction n arbitrary: j q rings s)
  case 0
  then show ?case by simp
next
  case (Suc n)
  let ?off = "word_of_nat body + VEL_VDEV_OFF_VRING + word_of_nat j * VEL_VDEV_VRING_STRIDE + VEL_VDEV_VRING_NOTIFYID :: u32"
  have len: "length tbl < 2 ^ 32" using Suc.prems(2) by (rule published_len)
  have "?off = word_of_nat (body + 24 + 20 * j + 12)" by (simp add: mult.commute)
  moreover have "body + 24 + 20 * j + 12 < length tbl" using Suc.prems(3) by simp
  then have "body + 24 + 20 * j + 12 < 2 ^ 32" using len by (rule less_trans)
  ultimately have off: "unat ?off = body + 24 + 20 * j + 12" by (simp only: unat_u32_of_nat)
  have q: "q < 4" and nx: "walk_vrings tbl body n (Suc j) (Suc q)
      (rings(q := (rings q)\<lparr>vr_notifyid := get_le (body + 24 + 20 * j + 12) 4 tbl\<rparr>)) = (rings', Some q')"
    using Suc.prems(1) by (simp_all split: if_splits)
  have inb: "unat ?off + 4 \<le> length tbl" using Suc.prems(3) off by (simp add: algebra_simps)
  have w: "word_of_nat j + 1 = (word_of_nat (Suc j) :: u32)" by (simp add: add.commute)
  let ?t = "set_vq q (q_vdev_off_update (\<lambda>_. word_of_nat body) \<circ> q_notifyid_update (\<lambda>_. get_le (unat ?off) 4 tbl)) s"
  have "\<exists>t. rsc_scan_vrings B (word_of_nat body) n (word_of_nat (Suc j)) (Suc q) ?t = (t, q', False)
     \<and> published B tbl t \<and> agree q' rings' t \<and> rsc_valid t = rsc_valid ?t"
  proof (rule Suc.IH [OF nx])
    show "published B tbl ?t" using Suc.prems(2) by simp
    show "body + 24 + 20 * (Suc j + n) \<le> length tbl" using Suc.prems(3) by (simp add: algebra_simps)
    show "agree (Suc q) (rings(q := (rings q)\<lparr>vr_notifyid := get_le (body + 24 + 20 * j + 12) 4 tbl\<rparr>)) ?t"
      unfolding off using Suc.prems(4) by (rule agree_step)
  qed
  moreover have "rsc_scan_vrings B (word_of_nat body) (Suc n) (word_of_nat j) q s
      = rsc_scan_vrings B (word_of_nat body) n (word_of_nat j + 1) (Suc q) ?t"
    using q inb in_table [OF Suc.prems(2), of ?off] read_table [OF Suc.prems(2) inb]
    by (simp add: Let_def del: VEL_VDEV_OFF_VRING_def VEL_VDEV_VRING_STRIDE_def VEL_VDEV_VRING_NOTIFYID_def)
  ultimately show ?case unfolding w by simp
qed


lemma vring_count:
  assumes "off + 4 \<le> length tbl"
  shows "unat (drop_bit 8 (get_le off 4 tbl :: u32) AND 0xFF) = unat (get_le (off + 1) 1 tbl :: u8)"
proof -
  obtain b0 b1 b2 b3 rest where d: "drop off tbl = b0 # b1 # b2 # b3 # rest"
  proof -
    have "length (drop off tbl) = Suc (Suc (Suc (Suc (length tbl - off - 4))))" using assms by simp
    then show thesis using that unfolding length_Suc_conv by blast
  qed
  let ?n = "unat b0 + 256 * (unat b1 + 256 * (unat b2 + 256 * unat b3))"
  have b: "unat b0 < 256" "unat b1 < 256" "unat b2 < 256" "unat b3 < 256" by (rule unat_u8)+
  then have n: "?n < 2 ^ 32" by simp
  have g: "(get_le off 4 tbl :: u32) = word_of_nat ?n" 
  proof -
    have "of_le (take 4 (b0 # b1 # b2 # b3 # rest)) = ?n" by simp
    then show ?thesis unfolding get_le_def d by (rule arg_cong)
  qed
  have "(0xFF :: u32) = mask 8" by (simp add: mask_eq_exp_minus_1)
  then have "unat (drop_bit 8 (get_le off 4 tbl :: u32) AND 0xFF) = take_bit 8 (drop_bit 8 (unat (get_le off 4 tbl :: u32)))"
    by (simp only: take_bit_eq_mask [symmetric] unsigned_take_bit_eq unat_drop_bit_eq)
  also have "\<dots> = ?n div 256 mod 256"
    unfolding g unat_u32_of_nat [OF n] by (simp only: take_bit_eq_mod drop_bit_eq_div) simp
  also have "\<dots> = unat b1"
  proof -
    have "(x + 256 * y) div 256 = y \<and> (x + 256 * y) mod 256 = x" if "x < 256" for x y :: nat
      using that by simp
    with b(1,2) show ?thesis by (metis (no_types))
  qed
  also have "\<dots> = unat (get_le (off + 1) 1 tbl :: u8)"
  proof -
    have "drop (off + 1) tbl = b1 # b2 # b3 # rest" using d by (metis drop_drop add.commute drop_Suc_Cons drop0 One_nat_def)
    then show ?thesis by (simp add: get_le_def)
  qed
  finally show ?thesis .
qed

lemma walk_full: "walk_entries tbl n i 4 rings = (rings', Some k) \<Longrightarrow> rings' = rings \<and> k = 4"
proof (induction n arbitrary: i)
  case (Suc n)
  have "walk_vrings tbl b m j 4 rings = (rings, if m = 0 then Some 4 else None)" for b m j
    by (cases m) simp_all
  then show ?case using Suc by (auto simp: Let_def split: if_splits)
qed simp

lemma walk_vrings_bound: "walk_vrings tbl b n j q rings = (rings', Some k) \<Longrightarrow> q \<le> 4 \<Longrightarrow> k \<le> 4"
  by (induction n arbitrary: j q rings) (auto split: if_splits)


lemma entries_agree:
  assumes "walk_entries tbl n i q rings = (rings', Some 4)" and "q \<le> 4"
    and "published B tbl s" and "16 + 4 * (i + n) \<le> length tbl" and "\<forall>k. i \<le> k \<and> k < i + n \<longrightarrow> entry_ok tbl k"
    and "agree q rings s"
  shows "agree 4 rings' (rsc_scan_entries B n (word_of_nat i) q s)
     \<and> rsc_valid (rsc_scan_entries B n (word_of_nat i) q s) = rsc_valid s"
  using assms
proof (induction n arbitrary: i q rings s)
  case 0
  then show ?case by simp
next
  case (Suc n)
  show ?case
  proof (cases "q = 4")
    case True
    then show ?thesis using Suc.prems(1,6) walk_full [of tbl "Suc n" i rings rings' 4] by simp
  next
    case False
    then have q: "q < 4" using Suc.prems(2) by simp
    let ?off = "VEL_RSC_OFF_ENTRIES + 4 * word_of_nat i :: u32"
    let ?e = "get_le (16 + 4 * i) 4 tbl :: u32"
    have len: "length tbl < 2 ^ 32" using Suc.prems(3) by (rule published_len)
    have "16 + 4 * i < length tbl" using Suc.prems(4) by simp
    then have "16 + 4 * i < 2 ^ 32" using len by (rule less_trans)
    moreover have "?off = word_of_nat (16 + 4 * i)" by simp
    ultimately have off: "unat ?off = 16 + 4 * i" by (simp only: unat_u32_of_nat)
    have in1: "unat ?off + 4 \<le> length tbl" using off Suc.prems(4) by simp
    have eok: "entry_ok tbl i" using Suc.prems(5) by simp
    then have in2: "unat ?e + 4 \<le> length tbl" by (simp add: entry_ok_def Let_def)
    have w: "word_of_nat i + 1 = (word_of_nat (Suc i) :: u32)" by (simp add: add.commute)
    have ok: "\<forall>k. Suc i \<le> k \<and> k < Suc i + n \<longrightarrow> entry_ok tbl k" and l: "16 + 4 * (Suc i + n) \<le> length tbl"
      using Suc.prems(4,5) by simp_all
    note IH = Suc.IH [of "Suc i", folded w, OF _ _ _ l ok]
    note step = q in_table [OF Suc.prems(3), of ?off] in1 read_table [OF Suc.prems(3) in1, unfolded off]
      in_table [OF Suc.prems(3), of ?e] in2 read_table [OF Suc.prems(3) in2]
    show ?thesis
    proof (cases "get_le (unat ?e) 4 tbl = (3 :: u32)")
      case skip: False
      then have "walk_entries tbl n (Suc i) q rings = (rings', Some 4)" using Suc.prems(1) by (simp add: Let_def)
      from IH [OF this Suc.prems(2,3,6)] show ?thesis
        using step skip by (simp add: Let_def del: VEL_RSC_OFF_ENTRIES_def)
    next
      case vdev: True
      let ?body = "unat ?e + 4"
      let ?n = "unat (get_le (?body + 21) 1 tbl :: u8)"
      have room: "?body + 24 + 20 * (0 + ?n) \<le> length tbl"
        using eok vdev by (simp add: entry_ok_def Let_def algebra_simps)
      obtain rings1 q1 where wv: "walk_vrings tbl ?body ?n 0 q rings = (rings1, Some q1)"
        and we: "walk_entries tbl n (Suc i) q1 rings1 = (rings', Some 4)"
        using Suc.prems(1) vdev by (auto simp: Let_def split: prod.splits option.splits)
      obtain t where t: "rsc_scan_vrings B (word_of_nat ?body) ?n (word_of_nat 0) q s = (t, q1, False)"
        "published B tbl t" "agree q1 rings1 t" "rsc_valid t = rsc_valid s"
        using vrings_agree [OF wv Suc.prems(3) room Suc.prems(6)] by blast
      have q1: "q1 \<le> 4" using walk_vrings_bound [OF wv] q by simp
      let ?b = "?e + VEL_RSC_BODY"
      have b: "?b = word_of_nat ?body" by simp
      have "?body + 20 < length tbl" using room by simp
      then have "?body + 20 < 2 ^ 32" using len by (rule less_trans)
      moreover have "?b + VEL_VDEV_OFF_STATUS = word_of_nat (?body + 20)" by simp
      ultimately have st: "unat (?b + VEL_VDEV_OFF_STATUS) = ?body + 20" by (simp only: unat_u32_of_nat)
      have in3: "unat (?b + VEL_VDEV_OFF_STATUS) + 4 \<le> length tbl" using st room by simp
      have c: "unat (drop_bit 8 (get_le (?body + 20) 4 tbl :: u32) AND 0xFF) = ?n"
        using vring_count [of "?body + 20" tbl] in3 st by (simp add: ac_simps)
      show ?thesis using IH [OF we q1 t(2,3)] t
        using step vdev b c in_table [OF Suc.prems(3), of "?b + VEL_VDEV_OFF_STATUS"] in3
          read_table [OF Suc.prems(3) in3, unfolded st]
        by (simp add: Let_def del: VEL_RSC_OFF_ENTRIES_def VEL_RSC_BODY_def VEL_VDEV_OFF_STATUS_def)
    qed
  qed
qed


text \<open>C31. The device and the driver name the queues alike: for a resource table the remoteproc core accepted
  and published whole, whenever the driver's walk succeeds, publishing it makes the table valid on
  the device, and the notifyid by which the device routes the doorbell of each of the four queues is
  the one the driver took for it.\<close>

theorem walks_agree:
  assumes "velocitor_rproc_walk_rsc_table (Some tbl) rings = (rings', 0)"
    and "table_ok tbl" and "get_le 0 4 tbl = (1 :: u32)" and "published B tbl s"
  shows "rsc_valid (velocitor_rsc_publish B s 1) = 1
     \<and> (\<forall>q < 4. q_notifyid (vq (velocitor_rsc_publish B s 1) q) = vr_notifyid (rings' q))"
proof -
  let ?num = "get_le 4 4 tbl :: u32"
  let ?s = "rsc_forget (s\<lparr>rsc_valid := 1\<rparr>)"
  have w: "walk_entries tbl (unat ?num) 0 0 rings = (rings', Some 4)"
    using assms(1) by (auto simp: velocitor_rproc_walk_rsc_table_def split: prod.splits option.splits if_splits)
  then have num: "?num \<noteq> 0" by (cases "unat ?num") auto
  have len: "16 + 4 * unat ?num \<le> length tbl" and eok: "\<forall>k. 0 \<le> k \<and> k < 0 + unat ?num \<longrightarrow> entry_ok tbl k"
    using assms(2) by (simp_all add: table_ok_def)
  have p: "published B tbl ?s" by (rule published_cong [OF assms(4)]) (simp_all add: rsc_forget_def)
  have "rsc_len s \<ge> 16"
    using assms(4) len by (simp add: published_def Let_def word_le_nat_alt)
  then have "velocitor_rsc_publish B s 1 = rsc_scan_entries B (unat ?num) (word_of_nat 0) 0 ?s"
    using read_table [OF assms(4), of 0] read_table [OF assms(4), of 4] len num assms(3)
    by (simp add: velocitor_rsc_publish_def velocitor_rsc_scan_vdevs_def not_less [symmetric])
  moreover have "agree 4 rings' (rsc_scan_entries B (unat ?num) (word_of_nat 0) 0 ?s)
      \<and> rsc_valid (rsc_scan_entries B (unat ?num) (word_of_nat 0) 0 ?s) = rsc_valid ?s"
    by (rule entries_agree [OF w]) (use p len eok in \<open>simp_all add: agree_def\<close>)
  ultimately show ?thesis by (simp add: agree_def rsc_forget_def)
qed
text \<open>The generator's table with the notifyids 0 to 3 the core fills in.\<close>

definition filled_table :: bytes where
  "filled_table = mem_load (put32 356 3 (put32 336 2 (put32 288 1 (put32 268 0 fw_image)))) 144 220"

lemma filled_word: "off + 4 \<le> 220 \<Longrightarrow> get_le off 4 filled_table
    = img_word (put32 356 3 (put32 336 2 (put32 288 1 (put32 268 0 fw_image)))) (144 + off)"
  by (simp add: filled_table_def get_le_def img_word_def mem_load_sub)

lemma filled_words:
  "get_le 0 4 filled_table = (1 :: u32)" "get_le 4 4 filled_table = (3 :: u32)"
  "get_le 16 4 filled_table = (28 :: u32)" "get_le 20 4 filled_table = (84 :: u32)"
  "get_le 24 4 filled_table = (152 :: u32)" "get_le 28 4 filled_table = (0 :: u32)"
  "get_le 84 4 filled_table = (3 :: u32)" "get_le 152 4 filled_table = (3 :: u32)"
  "get_le 124 4 filled_table = (0 :: u32)" "get_le 144 4 filled_table = (1 :: u32)"
  "get_le 192 4 filled_table = (2 :: u32)" "get_le 212 4 filled_table = (3 :: u32)"
  by (simp_all add: filled_word fw_image_def mkfw_simps)

lemma filled_counts:
  "get_le 109 (Suc 0) filled_table = (2 :: u8)" "get_le 177 (Suc 0) filled_table = (2 :: u8)"
  by (simp_all add: filled_table_def get_le_def mem_load_sub [of _ "Suc 0", simplified] fw_image_def mkfw_simps)

definition table_host :: "store velocitor_state" where
  "table_host = (velocitor_new (mem_store (\<lambda>_. 0) 0x10000 filled_table))\<lparr>rsc_addr_lo := 0x10000, rsc_len := 220\<rparr>"

lemma filled_length: "length filled_table = 220"
  by (simp add: filled_table_def)

lemma filled_ok: "table_ok filled_table"
proof -
  have "(\<forall>i < 3. entry_ok filled_table i)"
    by (simp add: All_less_Suc numeral_3_eq_3) (simp add: entry_ok_def Let_def filled_words filled_counts filled_length)
  then show ?thesis by (simp add: table_ok_def filled_words filled_length)
qed

lemma filled_published:
  assumes "mem_load (host s) 0x10000 220 = filled_table" and "rsc_addr_hi s = 0" and "rsc_addr_lo s = 0x10000"
    and "rsc_len s = 220"
  shows "published ram_bus filled_table s"
proof -
  have "take 4 (drop off filled_table) = mem_load (host s) (0x10000 + off) 4" if "off + 4 \<le> 220" for off
    using mem_load_sub [OF that, of "host s" "0x10000"] assms(1) by simp
  moreover have "unat (0x10000 + word_of_nat off :: u64) = 0x10000 + off" if "off + 4 \<le> 220" for off
    using that by (simp add: unat_word_ariths unat_of_nat take_bit_nat_eq_self)
  ultimately show ?thesis
    using assms(2-4) by (simp add: published_def Let_def addr64_def filled_length)
qed

lemma table_host_published: "published ram_bus filled_table table_host"
  by (rule filled_published) (simp_all add: table_host_def velocitor_new_def filled_length)

lemma filled_walk: "\<exists>rings'. velocitor_rproc_walk_rsc_table (Some filled_table) rings = (rings', 0)
    \<and> map (\<lambda>q. vr_notifyid (rings' q)) [0, 1, 2, 3] = [0, 1, 2, 3]"
proof -
  have "walk_vrings t b 2 j q r = walk_vrings t b (Suc (Suc 0)) j q r"
    and "walk_entries t 3 i q r = walk_entries t (Suc (Suc (Suc 0))) i q r" for t b j q r i
    by (simp_all add: numeral_2_eq_2 numeral_3_eq_3)
  then show ?thesis
    by (simp add: velocitor_rproc_walk_rsc_table_def filled_words filled_counts Let_def)
qed

theorem walks_agree_witness:
  "map (\<lambda>q. q_notifyid (vq (velocitor_rsc_publish ram_bus table_host 1) q)) [0, 1, 2, 3] = [0, 1, 2, 3]"
proof -
  from filled_walk [of "vqs drv_zero"] obtain rings' where r: "velocitor_rproc_walk_rsc_table (Some filled_table) (vqs drv_zero) = (rings', 0)"
    "map (\<lambda>q. vr_notifyid (rings' q)) [0, 1, 2, 3] = [0, 1, 2, 3]"
    by (elim exE conjE)
  note a = conjunct2 [OF walks_agree [OF r(1) filled_ok filled_words(1) table_host_published], rule_format]
  have "map (\<lambda>q. q_notifyid (vq (velocitor_rsc_publish ram_bus table_host 1) q)) [0, 1, 2, 3]
      = map (\<lambda>q. vr_notifyid (rings' q)) [0, 1, 2, 3]"
    by (rule map_cong [OF refl], rule a) auto
  then show ?thesis using r(2) by (rule trans)
qed

end
