(* ===== verification/Drv_Trace.thy ===== *)
theory Drv_Trace
  imports Drv_Mmio
begin

text \<open>
  \<open>device-trace.c\<close>: the debugfs reader of the firmware's trace ring. Opening the file copies the
  unread lines out of the fixed aperture and moves the ring's tail; the device's writer is
  \<open>velocitor_trace\<close>. Both sides are proved against the same list of unread lines.
\<close>

record velocitor_dtrace_header =
  th_skipped :: u32
  th_dropped :: u32
  th_tail :: u32
  th_head :: u32
  th_count :: u32

text \<open>
  \<open>room\<close> says whether \<open>kvmalloc\<close> found memory and \<open>opened\<close> is the result of \<open>single_open\<close>;
  the result is the errno, the header and the entries copied.
\<close>

definition velocitor_dtrace_debugfs_open ::
  "velocitor_dev \<Rightarrow> 'h velocitor_state \<Rightarrow> bool \<Rightarrow> int \<Rightarrow>
     'h velocitor_state \<times> int \<times> (velocitor_dtrace_header \<times> bytes list) option" where
  "velocitor_dtrace_debugfs_open d s room opened =
     (if dtrace_da d = 0 then (s, - ENODEV, None)
      else
        let da = unat (dtrace_da d);
            head = bar2_readl s (da + VEL_TRACE_OFF_HEAD);
            tail = bar2_readl s (da + VEL_TRACE_OFF_TAIL);
            dropped = bar2_readl s (da + VEL_TRACE_OFF_DROPPED);
            entries = min (head - tail) VEL_TRACE_ENTRIES
        in if \<not> room then (s, - ENOMEM, None)
           else
             let (skipped, first) =
                   (if head - tail > VEL_TRACE_ENTRIES
                    then (head - tail - VEL_TRACE_ENTRIES, head - VEL_TRACE_ENTRIES) else (0, tail));
                 header = \<lparr>th_skipped = skipped, th_dropped = dropped, th_tail = tail, th_head = head,
                           th_count = entries\<rparr>
             in if opened < 0 then (s, opened, None)
                else
                  let lines = map (\<lambda>idx. memcpy_fromio s
                        (da + VEL_TRACE_HDR_SIZE
                           + unat ((first + word_of_nat idx) mod VEL_TRACE_ENTRIES) * VEL_TRACE_ENTRY)
                        VEL_TRACE_ENTRY) [0 ..< unat entries]
                  in (bar2_writel s head (da + VEL_TRACE_OFF_TAIL), opened, Some (header, lines)))"

text \<open>One line as \<open>velocitor_dtrace_debugfs_show\<close> prints it, from the entry's bytes and its number.\<close>

definition strnlen_bytes :: "bytes \<Rightarrow> bytes" where
  "strnlen_bytes bs = takeWhile (\<lambda>b. b \<noteq> 0) bs"

definition dtrace_line :: "u32 \<Rightarrow> bytes \<Rightarrow> bytes" where
  "dtrace_line number e =
     fmt_u number @ str '' '' @ fmt_u (get_le 0 8 e :: u64) @ str '' '' @
     (if (get_le 10 2 e :: u16) = VEL_TRACE_ENGINE_NONE then str ''e- ''
      else str ''e'' @ fmt_u (get_le 10 2 e :: u16) @ str '' '') @
     str ''l'' @ fmt_u (get_le 8 2 e :: u16) @ str '' s'' @ fmt_u (get_le 12 4 e :: u32) @ str '' '' @
     strnlen_bytes (take 112 (drop 16 e)) @ [10]"

definition velocitor_dtrace_debugfs_show :: "velocitor_dtrace_header \<times> bytes list \<Rightarrow> bytes" where
  "velocitor_dtrace_debugfs_show p =
     (case p of (h, entries) \<Rightarrow>
        str ''cursor   '' @ fmt_u (th_tail h) @ [10] @ str ''head     '' @ fmt_u (th_head h) @ [10] @
        str ''entries  '' @ fmt_u (th_count h) @ [10] @ str ''skipped  '' @ fmt_u (th_skipped h) @ [10] @
        str ''dropped  '' @ fmt_u (th_dropped h) @ [10, 10] @
        concat (map (\<lambda>(i, e). dtrace_line (th_tail h + th_skipped h + word_of_nat i) e)
                  (zip [0 ..< length entries] entries)))"

section \<open>The aperture is device memory\<close>

lemma aperture_bytes: "a + n \<le> VEL_APERTURE_SIZE \<Longrightarrow> memcpy_fromio s a n = mem_load (mem s) a n"
  by (rule nth_equalityI)
    (simp_all add: memcpy_fromio_def mem_load_def bar2_byte_def bar2_read_def bar2_target_def)

lemma mem_store_Cons: "mem_store m a (b # bs) = mem_store (m(a := b)) (Suc a) bs"
  by (rule ext) (auto simp: mem_store_def nth_Cons')

lemma aperture_writes:
  "a + length bs \<le> VEL_APERTURE_SIZE \<Longrightarrow> bar2_writes s a bs = s\<lparr>mem := mem_store (mem s) a bs\<rparr>"
proof (induction bs arbitrary: s a)
  case (Cons b bs)
  have "bar2_write s a b = s\<lparr>mem := (mem s)(a := b)\<rparr>"
    using Cons.prems by (simp add: bar2_write_def bar2_target_def)
  then show ?case using Cons by (simp add: mem_store_Cons del: fun_upd_apply)
next
  case Nil
  have "mem_store (mem s) a [] = mem s" by (rule ext) (auto simp: mem_store_def)
  then show ?case by simp
qed

lemma ring_in_aperture:
  assumes "ring_placed s"
  shows "unat (trace_da s) + VEL_TRACE_SIZE \<le> VEL_APERTURE_SIZE"
  using assms by (auto simp: ring_placed_def ring_ok_def)

lemma bar2_ring_word:
  assumes "ring_placed s" and "k \<le> 12" and "4 dvd unat k"
  shows "bar2_readl s (unat (trace_da s) + unat k) = ring_word s k"
proof -
  have "unat k \<le> 12" using assms(2) by (simp add: word_le_nat_alt)
  then show ?thesis
    using ring_word_load [OF assms] ring_in_aperture [OF assms(1)]
    by (simp add: bar2_readl_def aperture_bytes)
qed

lemma bar2_ring_entry:
  assumes "ring_placed s"
  shows "memcpy_fromio s (unat (trace_da s) + VEL_TRACE_HDR_SIZE + unat (k mod VEL_TRACE_ENTRIES) * VEL_TRACE_ENTRY)
      VEL_TRACE_ENTRY = ring_entry s k"
  using trace_slot_bound(2) [of "trace_da s" k] ring_in_aperture [OF assms]
  by (simp add: aperture_bytes ring_entry_def trace_slot_def)

lemma move_tail:
  assumes "ring_placed s" and "t = bar2_writel s (ring_word s 0) (unat (trace_da s) + VEL_TRACE_OFF_TAIL)"
  shows "ring_placed t" and "ring_word t 0 = ring_word s 0" and "ring_word t 4 = ring_word s 0"
    and "ring_word t 8 = ring_word s 8" and "ring_entry t k = ring_entry s k"
proof -
  have t: "t = s\<lparr>mem := mem_store (mem s) (unat (trace_da s) + 4) (put_le 4 (ring_word s 0))\<rparr>"
    using ring_in_aperture [OF assms(1)] by (simp add: assms(2) bar2_writel_def aperture_writes)
  then show p: "ring_placed t" using assms(1) by (auto simp: ring_placed_def ring_ok_def)
  note w = ring_word_load [OF p] ring_word_load [OF assms(1)]
  have f: "trace_da t = trace_da s" "mem t = mem_store (mem s) (unat (trace_da s) + 4) (put_le 4 (ring_word s 0))"
    using t by simp_all
  show "ring_word t 0 = ring_word s 0" "ring_word t 4 = ring_word s 0" "ring_word t 8 = ring_word s 8"
    using w(1) [of 0] w(1) [of 4] w(1) [of 8] w(2) [of 0] w(2) [of 8]
    by (simp_all add: f mem_load_store_other)
  show "ring_entry t k = ring_entry s k"
    using slot_above_header [of "trace_da s" k] by (simp add: ring_entry_def f mem_load_store_other)
qed

section \<open>Properties\<close>

text \<open>C27. Reading the trace takes exactly the unread lines: the entries copied are the unread lines of the
  device's ring in order, or the newest 511 of them when more were written, with \<open>skipped\<close> the number
  left out; afterwards nothing is unread, no line in the ring has changed and the dropped count is
  reported as the device keeps it.\<close>

theorem trace_open_takes_unread:
  assumes "ring_placed s" and "dtrace_da d = trace_da s" and "0 \<le> opened"
  shows "\<exists>t h. velocitor_dtrace_debugfs_open d s True opened
        = (t, opened, Some (h, drop (length (unread s) - VEL_TRACE_ENTRIES) (unread s)))
     \<and> unat (th_skipped h) + unat (th_count h) = length (unread s)
     \<and> unat (th_count h) = min (length (unread s)) VEL_TRACE_ENTRIES \<and> th_dropped h = ring_word s 8
     \<and> unread t = [] \<and> ring_word t 0 = ring_word s 0 \<and> (\<forall>k. ring_entry t k = ring_entry s k)"
proof -
  let ?h = "ring_word s 0" and ?t = "ring_word s 4"
  define n where "n = ?h - ?t"
  define m where "m = min n VEL_TRACE_ENTRIES"
  define first where "first = (if n > VEL_TRACE_ENTRIES then ?h - VEL_TRACE_ENTRIES else ?t)"
  define u where "u = bar2_writel s ?h (unat (trace_da s) + VEL_TRACE_OFF_TAIL)"
  define hd where "hd = \<lparr>th_skipped = if n > VEL_TRACE_ENTRIES then n - VEL_TRACE_ENTRIES else 0,
      th_dropped = ring_word s 8, th_tail = ?t, th_head = ?h, th_count = m\<rparr>"
  have da: "dtrace_da d \<noteq> 0" using assms(1,2) by (simp add: ring_placed_def)
  note w = bar2_ring_word [OF assms(1), of 0, simplified] bar2_ring_word [OF assms(1), of 4, simplified]
    bar2_ring_word [OF assms(1), of 8, simplified]
  have len: "length (unread s) = unat n" by (simp add: unread_def n_def)
  have nu: "unat n = unat m + (unat n - 511)" "unat m = min (unat n) 511"
    by (auto simp: m_def min_def word_le_nat_alt)
  have sk: "unat (n - 511) = unat n - 511" if "511 < n"
    using that by (simp add: unat_sub word_less_nat_alt less_imp_le word_le_nat_alt)
  have "first = ?t + word_of_nat (unat n - 511)"
  proof (cases "511 < n")
    case True
    then have "word_of_nat (unat n - 511) = n - 511" by (simp flip: sk)
    then show ?thesis using True by (simp add: first_def n_def)
  next
    case False
    then have "first = ?t" "unat n - 511 = 0" by (auto simp: first_def word_less_nat_alt)
    then show ?thesis by simp
  qed
  moreover have "unread s = map (\<lambda>i. ring_entry s (?t + word_of_nat i)) [0 ..< unat n]"
    by (simp add: unread_def n_def)
  ultimately have "map (\<lambda>i. ring_entry s (first + word_of_nat i)) [0 ..< unat m]
      = drop (unat n - 511) (unread s)"
    using nu by (auto intro!: map_equality_iff [THEN iffD2] simp: drop_map list_eq_iff_nth_eq ac_simps)
  then have lines: "map (\<lambda>i. memcpy_fromio s (unat (trace_da s) + 16
      + unat ((first + word_of_nat i) mod 511) * 128) 128) [0 ..< unat m] = drop (unat n - 511) (unread s)"
    using bar2_ring_entry [OF assms(1)] by simp
  have eq: "velocitor_dtrace_debugfs_open d s True opened
      = (u, opened, Some (hd, drop (unat n - 511) (unread s)))"
    using da assms(2,3) w lines
    by (cases "511 < ?h - ?t") (simp_all add: velocitor_dtrace_debugfs_open_def Let_def u_def hd_def
        first_def m_def n_def)
  have "unread u = []" using move_tail(2,3) [OF assms(1) u_def] by (simp add: unread_def)
  moreover have "unat (th_skipped hd) + unat (th_count hd) = unat n"
    using nu sk by (simp add: hd_def not_less word_le_nat_alt)
  ultimately show ?thesis
    using eq len nu(2) move_tail(2,5) [OF assms(1) u_def] by (intro exI [of _ u] exI [of _ hd]) (simp add: hd_def)
qed

theorem trace_open_takes_unread_witness:
  "\<exists>t h ls. velocitor_dtrace_debugfs_open
       (drv_zero\<lparr>dtrace_da := 0x10000\<rparr>)
       (ring_with 600 1) True 0 = (t, 0, Some (h, ls)) \<and> unat (th_skipped h) = 88 \<and> unread t = []"
proof -
  let ?d = "drv_zero\<lparr>dtrace_da := 0x10000\<rparr>"
  have "trace_da (ring_with 600 1) = 0x10000" "length (unread (ring_with 600 1)) = 599"
    by (simp add: ring_with_def) (simp add: unread_def ring_with_simps)
  with trace_open_takes_unread [of "ring_with 600 1" ?d 0] show ?thesis
    by (auto simp: ring_with_simps)
qed

end
