(* ===== verification/Drv_Rproc.thy ===== *)
theory Drv_Rproc
  imports Drv_Rsc Drv_Trace
begin

text \<open>
  \<open>vring.c\<close> and \<open>remoteproc.c\<close>: the four rings the driver owns, and how remoteproc starts and stops
  the firmware. The device is the device model; what it does while the driver polls, and
  clearing host memory, are parameters.
\<close>

section \<open>The rings\<close>

text \<open>The split-ring layout of \<open>vring_init\<close> and \<open>vring_size\<close>; a coherent buffer is page aligned.\<close>

definition ALIGN_UP :: "nat \<Rightarrow> nat \<Rightarrow> nat" where
  "ALIGN_UP x a = (x + a - 1) div a * a"

definition vring_avail_off :: "nat \<Rightarrow> nat" where
  "vring_avail_off num = 16 * num"

definition vring_used_off :: "nat \<Rightarrow> nat \<Rightarrow> nat" where
  "vring_used_off num align = ALIGN_UP (16 * num + 4 + 2 * num + 2) align"

definition VEL_VRING_SIZE :: nat where
  "VEL_VRING_SIZE = ALIGN_UP (ALIGN_UP (16 * VEL_VRING_NUM + 2 * (3 + VEL_VRING_NUM)) VEL_VRING_ALIGN
     + 2 * 3 + 8 * VEL_VRING_NUM) 4096"

text \<open>\<open>name_ok\<close> and \<open>coherent\<close> say what \<open>devm_kasprintf\<close> and \<open>dmam_alloc_coherent\<close> answer for ring \<open>idx\<close>.\<close>

definition velocitor_vring_initialize1 ::
  "bool \<Rightarrow> u64 option \<Rightarrow> velocitor_vring \<Rightarrow> nat \<Rightarrow> velocitor_vring \<times> int" where
  "velocitor_vring_initialize1 name_ok coherent vring idx =
     (let vring = vring\<lparr>vr_index := idx, vr_vector := idx + 1, vr_notifyid := - 1\<rparr>
      in if \<not> name_ok then (vring, - ENOMEM)
         else case coherent of
           None \<Rightarrow> (vring, - ENOMEM)
         | Some dma \<Rightarrow> (vring\<lparr>vr_dma := dma\<rparr>, 0))"

fun vring_initialize_from ::
  "(nat \<Rightarrow> bool) \<Rightarrow> (nat \<Rightarrow> u64 option) \<Rightarrow> nat list \<Rightarrow> velocitor_dev \<Rightarrow> velocitor_dev \<times> int" where
  "vring_initialize_from name_ok coherent [] d = (d, 0)"
| "vring_initialize_from name_ok coherent (i # rest) d =
     (case velocitor_vring_initialize1 (name_ok i) (coherent i) (vqs d i) i of
        (vring, err) \<Rightarrow>
          let d = d\<lparr>vqs := (vqs d)(i := vring)\<rparr>
          in if err \<noteq> 0 then (d, err) else vring_initialize_from name_ok coherent rest d)"

definition velocitor_vring_initialize ::
  "int \<Rightarrow> (nat \<Rightarrow> bool) \<Rightarrow> (nat \<Rightarrow> u64 option) \<Rightarrow> velocitor_dev \<Rightarrow> velocitor_dev \<times> int" where
  "velocitor_vring_initialize mutex_err name_ok coherent d =
     (if mutex_err \<noteq> 0 then (d, mutex_err) else vring_initialize_from name_ok coherent [0..<VEL_VRINGS_COUNT] d)"

definition lower_32_bits :: "u64 \<Rightarrow> u32" where "lower_32_bits a = ucast a"
definition upper_32_bits :: "u64 \<Rightarrow> u32" where "upper_32_bits a = ucast (drop_bit 32 a)"

definition velocitor_vring_activate1 ::
  "'h pci_bus \<Rightarrow> velocitor_vring \<Rightarrow> 'h velocitor_state \<Rightarrow> 'h velocitor_state" where
  "velocitor_vring_activate1 B vring s =
     (let s = writel B (word_of_nat (vr_index vring)) VEL_REG_VQ_SELECT s;
          desc = vr_dma vring;
          avail = desc + word_of_nat (vring_avail_off VEL_VRING_NUM);
          used = desc + word_of_nat (vring_used_off VEL_VRING_NUM VEL_VRING_ALIGN);
          s = writel B (lower_32_bits desc) VEL_REG_VQ_DESC_LO s;
          s = writel B (upper_32_bits desc) VEL_REG_VQ_DESC_HI s;
          s = writel B (lower_32_bits avail) VEL_REG_VQ_AVAIL_LO s;
          s = writel B (upper_32_bits avail) VEL_REG_VQ_AVAIL_HI s;
          s = writel B (lower_32_bits used) VEL_REG_VQ_USED_LO s;
          s = writel B (upper_32_bits used) VEL_REG_VQ_USED_HI s;
          s = writel B VEL_VRING_NUM VEL_REG_VQ_NUM s;
          s = writel B (word_of_nat (vr_vector vring)) VEL_REG_VQ_MSIX_VECTOR s
      in writel B 1 VEL_REG_VQ_ENABLE s)"

definition velocitor_vring_activate ::
  "'h pci_bus \<Rightarrow> velocitor_dev \<Rightarrow> 'h velocitor_state \<Rightarrow> 'h velocitor_state" where
  "velocitor_vring_activate B d s = fold (\<lambda>i. velocitor_vring_activate1 B (vqs d i)) [0..<VEL_VRINGS_COUNT] s"

definition velocitor_vring_invalidate ::
  "(u64 \<Rightarrow> nat \<Rightarrow> 'h \<Rightarrow> 'h) \<Rightarrow> velocitor_dev \<Rightarrow> 'h velocitor_state \<Rightarrow> velocitor_dev \<times> 'h velocitor_state" where
  "velocitor_vring_invalidate memset0 d s =
     fold (\<lambda>i (d, s).
         (d\<lparr>vqs := (vqs d)(i := (vqs d i)\<lparr>vr_notifyid := - 1\<rparr>)\<rparr>,
          s\<lparr>host := memset0 (vr_dma (vqs d i)) VEL_VRING_SIZE (host s)\<rparr>))
       [0..<VEL_VRINGS_COUNT] (d, s)"

section \<open>Remoteproc\<close>

text \<open>What \<open>prepare\<close> registers: host address, device address, length and name of each carveout.\<close>

record carveout =
  co_dma :: u64
  co_len :: nat
  co_da :: u32
  co_name :: string

definition vring_name :: "nat \<Rightarrow> string" where
  "vring_name i = ''vdev'' @ [char_of (48 + i div 2)] @ ''vring'' @ [char_of (48 + i mod 2)]"

fun prepare_vrings :: "(nat \<Rightarrow> bool) \<Rightarrow> velocitor_dev \<Rightarrow> nat list \<Rightarrow> carveout list \<Rightarrow> carveout list \<times> int" where
  "prepare_vrings mem_ok d [] cs = (cs, 0)"
| "prepare_vrings mem_ok d (i # rest) cs =
     (if \<not> mem_ok i then (cs, - ENOMEM)
      else prepare_vrings mem_ok d rest (cs @ [\<lparr>co_dma = vr_dma (vqs d i), co_len = VEL_VRING_SIZE,
             co_da = FW_RSC_ADDR_ANY, co_name = vring_name i\<rparr>]))"

definition velocitor_rproc_prepare ::
  "bool \<Rightarrow> (nat \<Rightarrow> bool) \<Rightarrow> velocitor_dev \<Rightarrow> carveout list \<times> int" where
  "velocitor_rproc_prepare heap_mem_ok mem_ok d =
     (if \<not> heap_mem_ok then ([], - ENOMEM)
      else prepare_vrings mem_ok d [0..<VEL_VRINGS_COUNT]
             [\<lparr>co_dma = 0, co_len = VEL_MEM_SIZE - VEL_APERTURE_SIZE, co_da = VEL_APERTURE_SIZE,
               co_name = ''heap''\<rparr>])"

definition velocitor_rproc_stop :: "'h pci_bus \<Rightarrow> 'h velocitor_state \<Rightarrow> 'h velocitor_state" where
  "velocitor_rproc_stop B s = writel B 0 VEL_REG_RSC_VALID (writel B 1 VEL_REG_RESET s)"

text \<open>20 ms of polling every 20 us.\<close>

definition START_POLLS :: nat where "START_POLLS = 20000 div 20"

text \<open>\<open>table\<close> is \<open>cached_table\<close>, \<open>table_sz\<close> its size; the third component is the return value.\<close>

definition velocitor_rproc_start ::
  "'h pci_bus \<Rightarrow> ('h velocitor_state \<Rightarrow> 'h velocitor_state) \<Rightarrow> (u64 \<Rightarrow> nat \<Rightarrow> 'h \<Rightarrow> 'h) \<Rightarrow>
     bytes option \<Rightarrow> u32 \<Rightarrow> velocitor_dev \<Rightarrow> 'h velocitor_state \<Rightarrow> velocitor_dev \<times> 'h velocitor_state \<times> int" where
  "velocitor_rproc_start B env memset0 table table_sz d s =
     (let (d, s) = velocitor_vring_invalidate memset0 d s;
          s = writel B (lower_32_bits (rsc_dma d)) VEL_REG_RSC_ADDR_LO s;
          s = writel B (upper_32_bits (rsc_dma d)) VEL_REG_RSC_ADDR_HI s;
          s = writel B table_sz VEL_REG_RSC_LEN s;
          s = writel B 1 VEL_REG_RSC_VALID s;
          s = writel B 0 VEL_REG_RESET s
      in case readl_poll env VEL_REG_FW_STATUS (\<lambda>status. status \<ge> VEL_FW_STATUS_RUNNING) START_POLLS s of
           (s, status, False) \<Rightarrow>
             (case readl s VEL_REG_ERR_CODE of (s, code) \<Rightarrow>
                (d, velocitor_rproc_stop B s, if code = VEL_ERR_FW_HEADER then - ENODEV else - ETIMEDOUT))
         | (s, status, True) \<Rightarrow>
             if status \<noteq> VEL_FW_STATUS_RUNNING then (d, velocitor_rproc_stop B s, - EIO)
             else
               let (s, gen) = readl s VEL_REG_GENERATION;
                   d = d\<lparr>rproc_generation := gen\<rparr>;
                   d = d\<lparr>handles := velocitor_handles_regenerate (rproc_generation d) (handles d)\<rparr>;
                   d = d\<lparr>dtrace_da := bar2_readl s (VEL_FW_HDR_DA + VEL_FW_HDR_OFF_TRACE_DA)\<rparr>;
                   (s, abi) = readl s VEL_REG_FW_ABI
               in if abi \<noteq> VEL_FW_ABI \<or> bar2_readl s (unat (dtrace_da d) + VEL_TRACE_OFF_ENTRY_SIZE) \<noteq> VEL_TRACE_ENTRY
                  then (d, velocitor_rproc_stop B s, - ENODEV)
                  else case velocitor_rproc_walk_rsc_table table (vqs d) of
                    (rings, err) \<Rightarrow>
                      let d = d\<lparr>vqs := rings\<rparr>
                      in if err \<noteq> 0 then (d, velocitor_rproc_stop B s, err)
                         else (d, velocitor_vring_activate B d s, 0))"

definition velocitor_rproc_kick :: "'h pci_bus \<Rightarrow> int \<Rightarrow> 'h velocitor_state \<Rightarrow> 'h velocitor_state" where
  "velocitor_rproc_kick B notifyid s = writel B (word_of_int notifyid) VEL_REG_DOORBELL s"

text \<open>The offset into BAR2, or \<open>None\<close> for a range the aperture does not hold.\<close>

definition velocitor_rproc_datova :: "u64 \<Rightarrow> u64 \<Rightarrow> u64 option" where
  "velocitor_rproc_datova da len =
     (if da + len < da \<or> da + len > VEL_APERTURE_SIZE then None else Some da)"

definition velocitor_rproc_find_loaded_rsc_table :: "nat \<Rightarrow> velocitor_dev \<Rightarrow> u64 option" where
  "velocitor_rproc_find_loaded_rsc_table table_sz d = (if table_sz > 4096 then None else Some (rsc_dma d))"

section \<open>Stopping\<close>

lemma stop_state:
  "\<forall>q < 4. q_enable (vq (velocitor_rproc_stop B s) q) = 0" "fw_status (velocitor_rproc_stop B s) = VEL_FW_STATUS_RESET"
  "boot_timer (velocitor_rproc_stop B s) = None" "rsc_valid (velocitor_rproc_stop B s) = 0"
  "reset (velocitor_rproc_stop B s) = 1" "vq_pending (velocitor_rproc_stop B s) = 0"
  by (simp_all add: velocitor_rproc_stop_def writel_regs velocitor_reset_write_def velocitor_rsc_publish_def Let_def
      velocitor_vq_purge_def del: VEL_REG_RESET_def VEL_REG_RSC_VALID_def)

section \<open>Activating a ring\<close>

definition configured :: "velocitor_vring \<Rightarrow> velocitor_queue \<Rightarrow> velocitor_queue" where
  "configured r v = v\<lparr>q_desc_lo := lower_32_bits (vr_dma r), q_desc_hi := upper_32_bits (vr_dma r),
     q_avail_lo := lower_32_bits (vr_dma r + 4096), q_avail_hi := upper_32_bits (vr_dma r + 4096),
     q_used_lo := lower_32_bits (vr_dma r + 8192), q_used_hi := upper_32_bits (vr_dma r + 8192),
     q_num := VEL_VRING_NUM, q_msix_vector := word_of_nat (vr_vector r), q_enable := 1\<rparr>"

lemma ring_offsets: "vring_avail_off 256 = 4096" "vring_used_off 256 4096 = 8192"
  by (simp_all add: vring_avail_off_def vring_used_off_def ALIGN_UP_def)

lemma addr64_bits: "addr64 (upper_32_bits a) (lower_32_bits a) = a"
  using addr64_split [of a] by (simp add: addr64_def or.commute upper_32_bits_def lower_32_bits_def)

lemma bits_nonzero: "lower_32_bits a OR upper_32_bits a = 0 \<longleftrightarrow> a = 0"
  using addr64_zero_iff [of "upper_32_bits a" "lower_32_bits a"] by (simp add: addr64_bits or.commute)

definition ring_ready :: "velocitor_vring \<Rightarrow> bool" where
  "ring_ready r \<longleftrightarrow> vr_index r < 4 \<and> vr_vector r < 6 \<and> vr_dma r \<noteq> 0 \<and> vr_dma r + 4096 \<noteq> 0 \<and> vr_dma r + 8192 \<noteq> 0"

lemma writel_select: "q < 4 \<Longrightarrow> writel B (word_of_nat q) VEL_REG_VQ_SELECT s = s\<lparr>vq_select := word_of_nat q\<rparr>"
  by (simp add: writel_vq velocitor_vq_write_def Let_def word_le_nat_alt unat_u32_of_nat)

lemma writel_field:
  assumes "vq_select s = word_of_nat q" and "q < 4" and "q_enable (vq s q) = 0"
  shows "writel B v VEL_REG_VQ_DESC_LO s = set_vq q (q_desc_lo_update (\<lambda>_. v)) s"
    "writel B v VEL_REG_VQ_DESC_HI s = set_vq q (q_desc_hi_update (\<lambda>_. v)) s"
    "writel B v VEL_REG_VQ_AVAIL_LO s = set_vq q (q_avail_lo_update (\<lambda>_. v)) s"
    "writel B v VEL_REG_VQ_AVAIL_HI s = set_vq q (q_avail_hi_update (\<lambda>_. v)) s"
    "writel B v VEL_REG_VQ_USED_LO s = set_vq q (q_used_lo_update (\<lambda>_. v)) s"
    "writel B v VEL_REG_VQ_USED_HI s = set_vq q (q_used_hi_update (\<lambda>_. v)) s"
    "writel B v VEL_REG_VQ_NUM s = set_vq q (q_num_update (\<lambda>_. v)) s"
    "writel B v VEL_REG_VQ_MSIX_VECTOR s = set_vq q (q_msix_vector_update (\<lambda>_. v)) s"
    "writel B 1 VEL_REG_VQ_ENABLE s = velocitor_vq_enable s q 1"
  using assms by (simp_all add: writel_vq velocitor_vq_write_def unat_u32_of_nat)

lemma set_vq_set_vq: "set_vq q f (set_vq q g s) = set_vq q (\<lambda>v. f (g v)) s"
  by (simp add: set_vq_def)

lemma set_vq_at: "vq (set_vq q f s) q = f (vq s q)"
  by (simp add: set_vq_def)

lemma activate1_set_up:
  assumes "ring_ready r" and "q_enable (vq s (vr_index r)) = 0"
  shows "velocitor_vring_activate1 B r s = velocitor_vq_enable
     (set_vq (vr_index r) (\<lambda>v. (configured r v)\<lparr>q_enable := q_enable v\<rparr>) (s\<lparr>vq_select := word_of_nat (vr_index r)\<rparr>))
     (vr_index r) 1"
proof -
  have q: "vr_index r < 4" using assms(1) by (simp add: ring_ready_def)
  show ?thesis
    using q assms(2)
    unfolding velocitor_vring_activate1_def Let_def
    by (simp add: writel_select writel_field [of _ "vr_index r"] set_vq_set_vq set_vq_at ring_offsets
        del: VEL_REG_VQ_SELECT_def VEL_REG_VQ_DESC_LO_def VEL_REG_VQ_DESC_HI_def VEL_REG_VQ_AVAIL_LO_def
        VEL_REG_VQ_AVAIL_HI_def VEL_REG_VQ_USED_LO_def VEL_REG_VQ_USED_HI_def VEL_REG_VQ_NUM_def
        VEL_REG_VQ_MSIX_VECTOR_def VEL_REG_VQ_ENABLE_def) (simp add: configured_def)
qed

lemma activate1_state:
  assumes "ring_ready r" and "q_enable (vq s (vr_index r)) = 0"
  shows "vq (velocitor_vring_activate1 B r s) = (vq s)(vr_index r := configured r (vq s (vr_index r)))"
    "firmware_of (velocitor_vring_activate1 B r s) = firmware_of s"
    "rsc_valid (velocitor_vring_activate1 B r s) = rsc_valid s"
    "heap_of (velocitor_vring_activate1 B r s) = heap_of s"
    "err_inject (velocitor_vring_activate1 B r s) = err_inject s"
proof -
  let ?t = "set_vq (vr_index r) (\<lambda>v. (configured r v)\<lparr>q_enable := q_enable v\<rparr>) (s\<lparr>vq_select := word_of_nat (vr_index r)\<rparr>)"
  have v: "vq ?t (vr_index r) = (configured r (vq s (vr_index r)))\<lparr>q_enable := 0\<rparr>"
    using assms(2) by (simp add: set_vq_at)
  have vec: "\<not> (word_of_nat (vr_vector r) :: u32) \<ge> 6" and nz: "vr_dma r \<noteq> 0" "vr_dma r + 4096 \<noteq> 0" "vr_dma r + 8192 \<noteq> 0"
    using assms(1) by (auto simp: ring_ready_def word_le_nat_alt unat_u32_of_nat)
  have e: "velocitor_vring_activate1 B r s = velocitor_vq_enable ?t (vr_index r) 1"
    using assms by (rule activate1_set_up)
  show "vq (velocitor_vring_activate1 B r s) = (vq s)(vr_index r := configured r (vq s (vr_index r)))"
    "firmware_of (velocitor_vring_activate1 B r s) = firmware_of s"
    "rsc_valid (velocitor_vring_activate1 B r s) = rsc_valid s"
    "heap_of (velocitor_vring_activate1 B r s) = heap_of s"
    "err_inject (velocitor_vring_activate1 B r s) = err_inject s"
    unfolding e velocitor_vq_enable_def v Let_def
    using vec nz
    by (simp_all add: configured_def bits_nonzero velocitor_vq_arm_def frames)
qed

lemma activate_fold:
  assumes "\<forall>i \<in> set is. ring_ready (vqs d i) \<and> vr_index (vqs d i) = i" and "distinct is"
    and "\<forall>i \<in> set is. q_enable (vq s i) = 0"
    and "t = fold (\<lambda>i. velocitor_vring_activate1 B (vqs d i)) is s"
  shows "vq t = (\<lambda>i. if i \<in> set is then configured (vqs d i) (vq s i) else vq s i)
     \<and> firmware_of t = firmware_of s \<and> rsc_valid t = rsc_valid s \<and> heap_of t = heap_of s \<and> err_inject t = err_inject s"
  using assms
proof (induction "is" arbitrary: s)
  case (Cons i rest)
  let ?s = "velocitor_vring_activate1 B (vqs d i) s"
  have st: "vq ?s = (vq s)(i := configured (vqs d i) (vq s i))" "firmware_of ?s = firmware_of s"
    "rsc_valid ?s = rsc_valid s" "heap_of ?s = heap_of s" "err_inject ?s = err_inject s"
    using Cons.prems(1,3) activate1_state [of "vqs d i" s B] by simp_all
  have "vq t = (\<lambda>j. if j \<in> set rest then configured (vqs d j) (vq ?s j) else vq ?s j)
     \<and> firmware_of t = firmware_of ?s \<and> rsc_valid t = rsc_valid ?s \<and> heap_of t = heap_of ?s \<and> err_inject t = err_inject ?s"
    by (rule Cons.IH) (use Cons.prems st in auto)
  with st Cons.prems(2) show ?case by (auto simp: fun_eq_iff)
qed simp

lemma activate_rings:
  assumes "\<forall>i < 4. ring_ready (vqs d i) \<and> vr_index (vqs d i) = i" and "\<forall>i < 4. q_enable (vq s i) = 0"
  shows "\<forall>i < 4. vq (velocitor_vring_activate B d s) i = configured (vqs d i) (vq s i)"
    "firmware_of (velocitor_vring_activate B d s) = firmware_of s"
    "rsc_valid (velocitor_vring_activate B d s) = rsc_valid s"
    "heap_of (velocitor_vring_activate B d s) = heap_of s"
    "err_inject (velocitor_vring_activate B d s) = err_inject s"
  using activate_fold [of "[0..<4]" d s "velocitor_vring_activate B d s" B] assms
  by (simp_all add: velocitor_vring_activate_def)

section \<open>What starting reads\<close>

lemma boot_done_memory:
  assumes "ring_placed s"
  shows "ring_placed (velocitor_boot_done s)" and "ring_word (velocitor_boot_done s) VEL_TRACE_OFF_ENTRY_SIZE = VEL_TRACE_ENTRY"
    and "a + n \<le> unat (trace_da s) \<Longrightarrow> mem_load (mem (velocitor_boot_done s)) a n = mem_load (mem s) a n"
proof -
  define u where "u = velocitor_alloc_reset (s\<lparr>fw_status := VEL_FW_STATUS_RUNNING, generation := generation s + 1\<rparr>)"
  have u: "ring_placed u" "mem u = mem s" "trace_da u = trace_da s"
    using assms by (auto simp: u_def frames ring_placed_def ring_ok_def)
  define v where "v = u\<lparr>mem := mem_store (mem s) (unat (trace_da s) + 12) (put_le 4 (VEL_TRACE_ENTRY :: u32))\<rparr>"
  have wr: "velocitor_mem_write32 u (trace_da u + VEL_TRACE_OFF_ENTRY_SIZE) VEL_TRACE_ENTRY = v"
    using ring_field_addr [OF u(1), of 12] u by (simp add: velocitor_mem_write32_def v_def)
  have v: "ring_placed v" "trace_da v = trace_da s" using u by (auto simp: v_def ring_placed_def ring_ok_def)
  have b: "\<exists>e. length e = 128 \<and> velocitor_boot_done s = v\<lparr>mem := ring_after v e\<rparr>"
    unfolding velocitor_boot_done_def Let_def u_def [symmetric] wr 
    by (intro exI conjI, rule length_trace_entry, rule trace_is_ring_after [OF v(1)])
  then obtain e where e: "length e = 128" "velocitor_boot_done s = v\<lparr>mem := ring_after v e\<rparr>" by blast
  then show p: "ring_placed (velocitor_boot_done s)" using v(1) by (auto simp: ring_placed_def ring_ok_def)
  note ab = slot_above_header [of "trace_da s" "ring_word v 0"]
  have da: "trace_da (velocitor_boot_done s) = trace_da s" by (simp add: boot_done_firmware)
  have "mem_load (ring_after v e) (unat (trace_da s) + 12) 4 = put_le 4 (VEL_TRACE_ENTRY :: u32)"
    using ab v(2) by (simp add: ring_after_def Let_def mem_load_store_other) (simp add: v_def)
  then show "ring_word (velocitor_boot_done s) VEL_TRACE_OFF_ENTRY_SIZE = VEL_TRACE_ENTRY"
    using ring_word_load [OF p, of 12] da e(2) by simp
  show "mem_load (mem (velocitor_boot_done s)) a n = mem_load (mem s) a n" if "a + n \<le> unat (trace_da s)"
    using that ab v(2) e(2) by (simp add: ring_after_def Let_def mem_load_store_other) (simp add: v_def mem_load_store_other)
qed

lemma invalidate_effect:
  "velocitor_vring_invalidate memset0 d s =
     (d\<lparr>vqs := (\<lambda>i. if i < 4 then (vqs d i)\<lparr>vr_notifyid := - 1\<rparr> else vqs d i)\<rparr>,
      s\<lparr>host := fold (\<lambda>i. memset0 (vr_dma (vqs d i)) VEL_VRING_SIZE) [0..<4] (host s)\<rparr>)"
  by (simp add: velocitor_vring_invalidate_def upt_rec fun_eq_iff numeral_eq_Suc less_Suc_eq)

definition ring_id :: "velocitor_vring \<Rightarrow> nat \<times> nat \<times> u64" where
  "ring_id r = (vr_index r, vr_vector r, vr_dma r)"

lemma ring_id_upd [simp]: "ring_id (r\<lparr>vr_notifyid := v\<rparr>) = ring_id r"
  by (simp add: ring_id_def)

lemma walk_vrings_keeps: "walk_vrings tbl b n j q rings = (rings', r) \<Longrightarrow> ring_id (rings' k) = ring_id (rings k)"
proof (induction n arbitrary: j q rings)
  case (Suc n)
  show ?case
  proof (cases "q < 4")
    case True
    with Suc show ?thesis by (fastforce split: if_splits)
  qed (use Suc.prems in simp)
qed simp

lemma walk_entries_keeps: "walk_entries tbl n i q rings = (rings', r) \<Longrightarrow> ring_id (rings' k) = ring_id (rings k)"
proof (induction n arbitrary: i q rings)
  case (Suc n)
  let ?e = "unat (get_le (16 + 4 * i) 4 tbl :: u32)"
  show ?case
  proof (cases "get_le ?e 4 tbl = (3 :: u32)")
    case True
    obtain rings1 r1 where w: "walk_vrings tbl (?e + 4) (unat (get_le (?e + 4 + 21) 1 tbl :: u8)) 0 q rings = (rings1, r1)"
      by fastforce
    then have "ring_id (rings1 k) = ring_id (rings k)" by (rule walk_vrings_keeps)
    then show ?thesis using Suc.IH [of "Suc i" "the r1" rings1] Suc.prems w True
      by (cases r1) (simp_all add: Let_def)
  qed (use Suc in \<open>simp add: Let_def\<close>)
qed simp

lemma walk_keeps:
  assumes "velocitor_rproc_walk_rsc_table tbl rings = (rings', err)"
  shows "ring_id (rings' k) = ring_id (rings k)"
  using assms walk_entries_keeps
  by (auto simp: velocitor_rproc_walk_rsc_table_def split: option.splits prod.splits)

lemma ring_ready_id: "ring_id r = ring_id r' \<Longrightarrow> ring_ready r = ring_ready r' \<and> configured r = configured r'"
  by (auto simp: ring_id_def ring_ready_def configured_def fun_eq_iff)

text \<open>The time between two polls, in which the boot timer expires.\<close>

definition boot_env :: "('h velocitor_state \<Rightarrow> 'h velocitor_state) \<Rightarrow> bool" where
  "boot_env env \<longleftrightarrow> (\<forall>s. boot_timer s \<noteq> None \<longrightarrow> env s = velocitor_boot_done (s\<lparr>boot_timer := None\<rparr>))"

lemma verified_below_running: "\<not> (2 :: u32) \<le> 1"
  by code_simp

lemma start_polls:
  assumes "boot_env env" and "segment_loaded (fst mkfw) (mem s)" and "u = velocitor_boot_done ((velocitor_reset_write s 0)\<lparr>boot_timer := None\<rparr>)"
  shows "readl_poll env VEL_REG_FW_STATUS (\<lambda>status. status \<ge> VEL_FW_STATUS_RUNNING) START_POLLS (velocitor_reset_write s 0)
      = (u, VEL_FW_STATUS_RUNNING, True)"
    and "generation u = generation s + 1" and "fw_abi u = VEL_FW_ABI" and "ring_placed u" and "trace_da u = FW_TRACE_DA"
    and "bar2_readl u (VEL_FW_HDR_DA + VEL_FW_HDR_OFF_TRACE_DA) = FW_TRACE_DA"
    and "bar2_readl u (0x10000 + VEL_TRACE_OFF_ENTRY_SIZE) = VEL_TRACE_ENTRY"
proof -
  note b = mkfw_boots [OF assms(2)]
  let ?v = "(velocitor_reset_write s 0)\<lparr>boot_timer := None\<rparr>"
  have v: "ring_placed ?v" "trace_da ?v = FW_TRACE_DA" "mem ?v = mem s" by (simp_all add: b ring_placed_def ring_ok_def)
  have e: "env (velocitor_reset_write s 0) = u" using assms(1,3) by (simp add: boot_env_def b)
  show "generation u = generation s + 1" "fw_abi u = VEL_FW_ABI" and da: "trace_da u = FW_TRACE_DA"
    unfolding assms(3) by (simp_all add: boot_done_firmware b)
  show p: "ring_placed u" unfolding assms(3) by (rule boot_done_memory(1) [OF v(1)])
  show "bar2_readl u (0x10000 + VEL_TRACE_OFF_ENTRY_SIZE) = VEL_TRACE_ENTRY"
    using bar2_ring_word [OF p, of 12] boot_done_memory(2) [OF v(1)] da by (simp add: assms(3))
  have "mem_load (mem u) 8 4 = mem_load (mem s) 8 4"
    using boot_done_memory(3) [OF v(1), of 8 4] v by (simp add: assms(3))
  then show "bar2_readl u (VEL_FW_HDR_DA + VEL_FW_HDR_OFF_TRACE_DA) = FW_TRACE_DA"
    using loaded_words [OF assms(2), of 8] by (simp add: bar2_readl_def aperture_bytes mkfw_header)
  have st: "fw_status u = VEL_FW_STATUS_RUNNING" unfolding assms(3) by (simp add: boot_done_firmware)
  show "readl_poll env VEL_REG_FW_STATUS (\<lambda>status. status \<ge> VEL_FW_STATUS_RUNNING) START_POLLS (velocitor_reset_write s 0)
      = (u, VEL_FW_STATUS_RUNNING, True)"
    unfolding e [symmetric]
  proof (rule poll_second)
    show "readl (velocitor_reset_write s 0) VEL_REG_FW_STATUS = (velocitor_reset_write s 0, 1)"
      by (simp only: readl_regs b) simp
    show "\<not> VEL_FW_STATUS_RUNNING \<le> (1 :: u32)" by (simp add: verified_below_running)
    show "readl (env (velocitor_reset_write s 0)) VEL_REG_FW_STATUS = (env (velocitor_reset_write s 0), VEL_FW_STATUS_RUNNING)"
      using st by (simp only: readl_regs e)
  qed (simp_all add: START_POLLS_def)
qed

section \<open>Properties\<close>

text \<open>
  The device as the driver leaves it between two sessions: no queue is enabled and the firmware
  announces no trace ring. Then publishing the table touches neither memory nor queues.
\<close>

definition stopped :: "'h velocitor_state \<Rightarrow> bool" where
  "stopped s \<longleftrightarrow> trace_da s = 0 \<and> (\<forall>q < 4. q_enable (vq s q) = 0)"

lemma publish_stopped:
  assumes "stopped s"
  shows "stopped (velocitor_rsc_publish B s v)" "mem (velocitor_rsc_publish B s v) = mem s"
    "generation (velocitor_rsc_publish B s v) = generation s"
proof -
  let ?t = "velocitor_rsc_publish B s v"
  have f: "queues_of ?t = queues_of s" "firmware_of ?t = firmware_of s" "store_of ?t = store_of s" by (rule rsc_publish_frame)+
  have fw: "trace_da ?t = trace_da s" "generation ?t = generation s" using f(2) by (simp_all add: firmware_of_def)
  have "queue_cfg (vq ?t q) = queue_cfg (vq s q)" for q using f(1) by (simp add: queues_of_def fun_eq_iff)
  then have "q_enable (vq ?t q) = q_enable (vq s q)" for q by (simp add: queue_cfg_def)
  with fw assms show "stopped ?t" by (simp add: stopped_def)
  show "mem ?t = mem s" using f(3) fw(1) assms by (simp add: store_of_def ring_ok_def trace_area_def stopped_def)
  show "generation ?t = generation s" by (rule fw)
qed

lemma boot_done_queues [simp]:
  "vq (velocitor_boot_done s) = vq s" "rsc_valid (velocitor_boot_done s) = rsc_valid s"
  by (simp_all add: velocitor_boot_done_def velocitor_mem_write32_def velocitor_alloc_reset_def Let_def)

lemma boot_done_heap: "heap_of x = heap_of s \<Longrightarrow> heap_of (velocitor_boot_done x) = heap_of (velocitor_alloc_reset s)"
proof -
  assume "heap_of x = heap_of s"
  then have "heap_of (velocitor_alloc_reset x) = heap_of (velocitor_alloc_reset s)"
    by (simp add: heap_of_def velocitor_alloc_reset_def)
  moreover have "heap_of (velocitor_boot_done x) = heap_of (velocitor_alloc_reset x)"
    by (simp add: velocitor_boot_done_def Let_def frames) (simp add: heap_of_def velocitor_alloc_reset_def)
  ultimately show ?thesis by simp
qed

lemma start_brings_up:
  assumes "boot_env env" and "segment_loaded (fst mkfw) (mem s)" and "stopped s"
    and "\<forall>q < 4. ring_ready (vqs d q) \<and> vr_index (vqs d q) = q"
    and "velocitor_vring_invalidate memset0 d s = (d1, s1)"
    and "velocitor_rproc_walk_rsc_table (Some tbl) (vqs d1) = (rings, 0)"
    and "table_ok tbl" and "get_le 0 4 tbl = (1 :: u32)"
    and "published B tbl (s1\<lparr>rsc_addr_lo := lower_32_bits (rsc_dma d), rsc_addr_hi := upper_32_bits (rsc_dma d), rsc_len := n\<rparr>)"
  shows "\<exists>d' t. velocitor_rproc_start B env memset0 (Some tbl) n d s = (d', t, 0)
     \<and> fw_status t = VEL_FW_STATUS_RUNNING \<and> generation t = generation s + 1 \<and> rsc_valid t = 1
     \<and> rproc_generation d' = generation t \<and> h_generation (handles d') = generation t \<and> dtrace_da d' = trace_da t
     \<and> (\<forall>q < 4. q_enable (vq t q) = 1 \<and> q_num (vq t q) = VEL_VRING_NUM
          \<and> vq_desc_addr (vq t q) = vr_dma (vqs d q) \<and> vq_avail_addr (vq t q) = vr_dma (vqs d q) + 4096
          \<and> vq_used_addr (vq t q) = vr_dma (vqs d q) + 8192
          \<and> q_msix_vector (vq t q) = word_of_nat (vr_vector (vqs d q))
          \<and> q_notifyid (vq t q) = vr_notifyid (vqs d' q))
     \<and> heap_of t = heap_of (velocitor_alloc_reset s) \<and> handles d' = velocitor_handles_regenerate (generation t) (handles d)
     \<and> (\<forall>q < 4. ring_id (vqs d' q) = ring_id (vqs d q)) \<and> rsc_dma d' = rsc_dma d \<and> err_inject t = err_inject s"
proof -
  let ?s2 = "s1\<lparr>rsc_addr_lo := lower_32_bits (rsc_dma d), rsc_addr_hi := upper_32_bits (rsc_dma d), rsc_len := n\<rparr>"
  let ?s3 = "velocitor_rsc_publish B ?s2 1"
  define s4 where "s4 = velocitor_reset_write ?s3 0"
  define u where "u = velocitor_boot_done (s4\<lparr>boot_timer := None\<rparr>)"
  have d1: "rsc_dma d1 = rsc_dma d" "ring_id (vqs d1 q) = ring_id (vqs d q)" for q
    using assms(5) by (auto simp: invalidate_effect ring_id_def)
  have s1: "mem s1 = mem s" "generation s1 = generation s" "stopped s1"
    using assms(3,5) by (auto simp: invalidate_effect stopped_def)
  have st2: "stopped ?s2" using s1(3) by (simp add: stopped_def)
  note pub = publish_stopped [OF st2, of B 1] and agree = walks_agree [OF assms(6-9)]
  have load: "segment_loaded (fst mkfw) (mem ?s3)" using assms(2) pub(2) s1(1) by simp
  note b = mkfw_boots [OF load, folded s4_def]
  have u3: "u = velocitor_boot_done ((velocitor_reset_write ?s3 0)\<lparr>boot_timer := None\<rparr>)" by (simp add: u_def s4_def)
  note polls = start_polls [OF assms(1) load u3, folded s4_def]
  have u: "vq u = vq ?s3" "rsc_valid u = 1" "generation u = generation s + 1" "fw_status u = VEL_FW_STATUS_RUNNING"
    using agree polls(2) pub(3) s1(2) by (simp_all add: u_def b boot_done_firmware)
  define d2 where "d2 = d1\<lparr>rproc_generation := generation u,
    handles := velocitor_handles_regenerate (generation u) (handles d1), dtrace_da := 0x10000, vqs := rings\<rparr>"
  have start: "velocitor_rproc_start B env memset0 (Some tbl) n d s = (d2, velocitor_vring_activate B d2 u, 0)"
    unfolding velocitor_rproc_start_def assms(5) Let_def prod.case
    using polls assms(6)
    by (simp add: writel_regs readl_regs d1(1) d2_def s4_def [symmetric] del: VEL_REG_RSC_ADDR_LO_def VEL_REG_RSC_ADDR_HI_def
        VEL_REG_RSC_LEN_def VEL_REG_RSC_VALID_def VEL_REG_RESET_def VEL_REG_GENERATION_def VEL_REG_FW_ABI_def VEL_REG_FW_STATUS_def)
  have same: "ring_id (rings q) = ring_id (vqs d q)" for q using walk_keeps [OF assms(6), of q] d1(2) by simp
  then have ready: "\<forall>i < 4. ring_ready (vqs d2 i) \<and> vr_index (vqs d2 i) = i"
    using assms(4) ring_ready_id [OF same] by (auto simp: d2_def ring_id_def)
  have off: "\<forall>i < 4. q_enable (vq u i) = 0" using pub(1) u(1) by (simp add: stopped_def)
  note act = activate_rings [OF ready off, of B]
  let ?t = "velocitor_vring_activate B d2 u"
  have fw: "fw_status ?t = fw_status u" "generation ?t = generation u" "trace_da ?t = trace_da u"
    using act(2) by (simp_all add: firmware_of_def)
  have hg: "h_generation (velocitor_handles_regenerate g hs) = g" for g hs
    by (simp add: velocitor_handles_regenerate_def)
  have q: "vq ?t q = configured (vqs d q) (vq ?s3 q)" "q_notifyid (vq ?s3 q) = vr_notifyid (rings q)" if "q < 4" for q
    using act(1) that agree u(1) ring_ready_id [OF same, of q] by (simp_all add: d2_def)
  have "heap_of s1 = heap_of s" using assms(5) by (auto simp: invalidate_effect heap_of_def)
  then have "heap_of s4 = heap_of s" by (simp add: s4_def frames)
  then have "heap_of (s4\<lparr>boot_timer := None\<rparr>) = heap_of s" by (simp add: heap_of_def)
  then have "heap_of ?t = heap_of (velocitor_alloc_reset s)"
    using act(4) by (simp add: u_def boot_done_heap)
  moreover have "err_inject s1 = err_inject s" using assms(5) by (auto simp: invalidate_effect)
  then have "err_inject ?t = err_inject s" using act(5) by (simp add: u_def s4_def)
  moreover have "handles d1 = handles d" using assms(5) by (auto simp: invalidate_effect)
  ultimately show ?thesis
    unfolding start
    using fw u polls(5) act(3) q hg same d1(1)
    by (simp add: d2_def configured_def vq_desc_addr_def vq_avail_addr_def vq_used_addr_def addr64_bits)
qed

text \<open>C29. Starting brings the whole path up: with the generator's firmware loaded into a stopped device, four
  rings allocated, and a resource table the core accepted published in host memory, \<open>start\<close> returns 0
  when the boot completes; the firmware runs, and the driver knows the device's generation, has
  retired the handles of any other and knows where the trace ring is; and each of the four queues is
  enabled on exactly the driver's ring, with its vector, under the notifyid the driver uses for it.\<close>

theorem rproc_start_brings_up:
  assumes "boot_env env" and "segment_loaded (fst mkfw) (mem s)" and "stopped s"
    and "\<forall>q < 4. ring_ready (vqs d q) \<and> vr_index (vqs d q) = q"
    and "velocitor_vring_invalidate memset0 d s = (d1, s1)"
    and "velocitor_rproc_walk_rsc_table (Some tbl) (vqs d1) = (rings, 0)"
    and "table_ok tbl" and "get_le 0 4 tbl = (1 :: u32)"
    and "published B tbl (s1\<lparr>rsc_addr_lo := lower_32_bits (rsc_dma d), rsc_addr_hi := upper_32_bits (rsc_dma d), rsc_len := n\<rparr>)"
  shows "\<exists>d' t. velocitor_rproc_start B env memset0 (Some tbl) n d s = (d', t, 0)
     \<and> fw_status t = VEL_FW_STATUS_RUNNING \<and> generation t = generation s + 1 \<and> rsc_valid t = 1
     \<and> rproc_generation d' = generation t \<and> h_generation (handles d') = generation t \<and> dtrace_da d' = trace_da t
     \<and> (\<forall>q < 4. q_enable (vq t q) = 1 \<and> q_num (vq t q) = VEL_VRING_NUM
          \<and> vq_desc_addr (vq t q) = vr_dma (vqs d q) \<and> vq_avail_addr (vq t q) = vr_dma (vqs d q) + 4096
          \<and> vq_used_addr (vq t q) = vr_dma (vqs d q) + 8192
          \<and> q_msix_vector (vq t q) = word_of_nat (vr_vector (vqs d q))
          \<and> q_notifyid (vq t q) = vr_notifyid (vqs d' q))
     \<and> h_entries (handles d') = (if h_generation (handles d) = generation t then h_entries (handles d) else [])"
proof -
  note up = start_brings_up [OF assms]
  then show ?thesis by (elim exE conjE) (intro exI conjI, assumption+, simp add: regenerate_entries)
qed

text \<open>Four rings at 0x100000, 0x200000, 0x300000 and 0x400000, the table at 0x10000.\<close>

definition drv_ready :: velocitor_dev where
  "drv_ready = drv_zero\<lparr>vqs := (\<lambda>i. \<lparr>vr_index = i, vr_vector = i + 1, vr_notifyid = - 1, vr_dma = word_of_nat (0x100000 * (i + 1))\<rparr>),
     rsc_dma := 0x10000\<rparr>"

definition host_memset0 :: "u64 \<Rightarrow> nat \<Rightarrow> store \<Rightarrow> store" where
  "host_memset0 a n h = mem_store h (unat a) (replicate n 0)"

definition loaded_device :: "store velocitor_state" where
  "loaded_device = (velocitor_new (mem_store (\<lambda>_. 0) 0x10000 filled_table))\<lparr>mem := loaded_image\<rparr>"

definition quick_boot :: "'h velocitor_state \<Rightarrow> 'h velocitor_state" where
  "quick_boot s = velocitor_boot_done (s\<lparr>boot_timer := None\<rparr>)"

lemma table_survives:
  assumes "mem_load h 0x10000 220 = filled_table"
  shows "mem_load (fold (\<lambda>i. host_memset0 (vr_dma (vqs drv_ready i)) VEL_VRING_SIZE) [0..<4] h) 0x10000 220 = filled_table"
proof -
  have "VEL_VRING_SIZE = 12288" by (simp add: VEL_VRING_SIZE_def ALIGN_UP_def)
  then show ?thesis by (simp add: upt_rec host_memset0_def drv_ready_def mem_load_store_other assms)
qed

lemma start_loaded:
  assumes "segment_loaded (fst mkfw) (mem s)" and "mem_load (host s) 0x10000 220 = filled_table"
    and "\<forall>i < 4. ring_id (vqs d i) = ring_id (vqs drv_ready i)" and "rsc_dma d = 0x10000"
  shows "\<exists>d1 s1 rings. velocitor_vring_invalidate host_memset0 d s = (d1, s1)
     \<and> velocitor_rproc_walk_rsc_table (Some filled_table) (vqs d1) = (rings, 0)
     \<and> published ram_bus filled_table (s1\<lparr>rsc_addr_lo := lower_32_bits (rsc_dma d), rsc_addr_hi := upper_32_bits (rsc_dma d),
          rsc_len := 220\<rparr>)"
    and "boot_env quick_boot"
    and "\<forall>q < 4. ring_ready (vqs d q) \<and> vr_index (vqs d q) = q"
proof -
  have dma: "vr_dma (vqs d i) = vr_dma (vqs drv_ready i)" if "i < 4" for i
    using assms(3) that by (auto simp: ring_id_def)
  obtain d1 s1 where inv: "velocitor_vring_invalidate host_memset0 d s = (d1, s1)" by fastforce
  then have s1: "s1 = s\<lparr>host := fold (\<lambda>i. host_memset0 (vr_dma (vqs drv_ready i)) VEL_VRING_SIZE) [0..<4] (host s)\<rparr>"
    using dma by (simp add: invalidate_effect upt_rec)
  obtain rings where w: "velocitor_rproc_walk_rsc_table (Some filled_table) (vqs d1) = (rings, 0)"
    using filled_walk [of "vqs d1"] by (elim exE conjE)
  have "published ram_bus filled_table (s1\<lparr>rsc_addr_lo := lower_32_bits (rsc_dma d),
      rsc_addr_hi := upper_32_bits (rsc_dma d), rsc_len := 220\<rparr>)"
  proof (rule filled_published)
    show "mem_load (host (s1\<lparr>rsc_addr_lo := lower_32_bits (rsc_dma d),
        rsc_addr_hi := upper_32_bits (rsc_dma d), rsc_len := 220\<rparr>)) 0x10000 220 = filled_table"
      using table_survives [OF assms(2)] by (simp add: s1)
  qed (simp_all add: lower_32_bits_def upper_32_bits_def assms(4))
  with inv w show "\<exists>d1 s1 rings. velocitor_vring_invalidate host_memset0 d s = (d1, s1)
     \<and> velocitor_rproc_walk_rsc_table (Some filled_table) (vqs d1) = (rings, 0)
     \<and> published ram_bus filled_table (s1\<lparr>rsc_addr_lo := lower_32_bits (rsc_dma d), rsc_addr_hi := upper_32_bits (rsc_dma d),
          rsc_len := 220\<rparr>)" by blast
  show "boot_env quick_boot" by (simp add: boot_env_def quick_boot_def)
  show "\<forall>q < 4. ring_ready (vqs d q) \<and> vr_index (vqs d q) = q"
  proof (intro allI impI)
    fix q :: nat
    assume q: "q < 4"
    then consider "q = 0" | "q = 1" | "q = 2" | "q = 3" by linarith
    then have "ring_ready (vqs drv_ready q)" by cases (simp_all add: ring_ready_def drv_ready_def)
    then show "ring_ready (vqs d q) \<and> vr_index (vqs d q) = q"
      using assms(3) q ring_ready_id [of "vqs d q" "vqs drv_ready q"] by (auto simp: ring_id_def drv_ready_def)
  qed
qed

lemma loaded_host: "mem_load (host loaded_device) 0x10000 220 = filled_table"
  by (simp add: loaded_device_def velocitor_new_def filled_length)

lemma three_below_four: "(3 :: nat) < 4"
  by simp

lemma loaded_device_simps: "mem loaded_device = loaded_image" "rsc_dma drv_ready = 0x10000" "generation loaded_device = 0"
  by (simp_all add: loaded_device_def drv_ready_def velocitor_new_def)

lemma stopped_new: "stopped ((velocitor_new h)\<lparr>mem := m\<rparr>)"
  by (simp add: stopped_def velocitor_new_def no_queue_def)

theorem rproc_start_brings_up_witness:
  "\<exists>d' t. velocitor_rproc_start ram_bus quick_boot host_memset0 (Some filled_table) 220 drv_ready loaded_device = (d', t, 0)
     \<and> rproc_generation d' = 1 \<and> vq_desc_addr (vq t 3) = 0x400000"
proof -
  have seg: "segment_loaded (fst mkfw) (mem loaded_device)" by (simp add: loaded_device_simps loaded_image)
  have "\<forall>i < 4. ring_id (vqs drv_ready i) = ring_id (vqs drv_ready i)" by simp
  note loaded = start_loaded [OF seg loaded_host this loaded_device_simps(2)]
  obtain d1 s1 rings where inv: "velocitor_vring_invalidate host_memset0 drv_ready loaded_device = (d1, s1)"
    and w: "velocitor_rproc_walk_rsc_table (Some filled_table) (vqs d1) = (rings, 0)"
    and pub: "published ram_bus filled_table (s1\<lparr>rsc_addr_lo := lower_32_bits (rsc_dma drv_ready),
      rsc_addr_hi := upper_32_bits (rsc_dma drv_ready), rsc_len := 220\<rparr>)" using loaded(1) by blast
  have st: "stopped loaded_device" unfolding loaded_device_def by (rule stopped_new)
  have dma3: "vr_dma (vqs drv_ready 3) = 0x400000" by (simp add: drv_ready_def)
  obtain d' t where
    "velocitor_rproc_start ram_bus quick_boot host_memset0 (Some filled_table) 220 drv_ready loaded_device = (d', t, 0)"
    "rproc_generation d' = generation t" "generation t = generation loaded_device + 1" "vq_desc_addr (vq t 3) = vr_dma (vqs drv_ready 3)"
    using rproc_start_brings_up [OF loaded(2) seg st loaded(3) inv w filled_ok filled_words(1) pub] by (metis three_below_four)
  then show ?thesis using dma3 loaded_device_simps(3) by (intro exI [of _ d'] exI [of _ t]) simp
qed

text \<open>C30. A start that fails leaves nothing running: whatever the machine does while the driver polls and
  whatever the table holds, when \<open>start\<close> returns an error the device is held in reset with no boot
  pending, no queue is enabled or scheduled and the table is withdrawn; and the error is one of
  those \<open>start\<close> documents.\<close>

theorem rproc_start_fails_stopped:
  assumes "velocitor_rproc_start B env memset0 tbl n d s = (d', t, err)" and "err \<noteq> 0"
  shows "reset t = 1 \<and> fw_status t = VEL_FW_STATUS_RESET \<and> boot_timer t = None \<and> rsc_valid t = 0 \<and> vq_pending t = 0
     \<and> (\<forall>q < 4. q_enable (vq t q) = 0) \<and> err \<in> {- ENODEV, - ETIMEDOUT, - EIO, - EINVAL}"
proof -
  have w: "e = 0 \<or> e = - EIO \<or> e = - EINVAL" if "velocitor_rproc_walk_rsc_table tbl rings = (r, e)" for rings r e
    using that by (auto simp: velocitor_rproc_walk_rsc_table_def split: option.splits prod.splits if_splits)
  have "\<exists>u. t = velocitor_rproc_stop B u" and "err \<in> {- ENODEV, - ETIMEDOUT, - EIO, - EINVAL}"
    using assms unfolding velocitor_rproc_start_def Let_def
    by (auto split: prod.splits bool.splits if_splits dest!: w)
  then show ?thesis by (elim exE) (simp add: stop_state)
qed

lemma poll_never:
  assumes "\<And>s. env s = s" and "readl s reg = (s, v)" and "\<not> cond v"
  shows "readl_poll env reg cond n s = (s, v, False)"
  using assms(2,3) by (induction n) (simp_all add: assms(1))

lemma empty_device_refused:
  assumes "stopped s" and "mem s = (\<lambda>_. 0)"
  shows "fw_status (velocitor_reset_write (velocitor_rsc_publish B s v) 0) = 0"
proof -
  let ?s = "(velocitor_rsc_publish B s v)\<lparr>reset := 0\<rparr>"
  have "velocitor_mem_read32 ?s 0 = 0"
    using publish_stopped(2) [OF assms(1), of B v] assms(2)
    by (simp add: velocitor_mem_read32_def get_le_def mem_load_def upt_rec)
  then have "\<not> header_ok ?s" by (simp add: header_ok_def)
  then show ?thesis
    by (cases ?s rule: fw_verify_cases) (simp_all add: velocitor_reset_write_def fw_refuse_def)
qed

theorem rproc_start_fails_stopped_witness:
  "\<exists>d' t err. velocitor_rproc_start quiet_bus (\<lambda>s. s) (\<lambda>_ _ h. h) None 0 drv_zero (velocitor_new ()) = (d', t, err)
     \<and> err < 0 \<and> reset t = 1 \<and> fw_status t = VEL_FW_STATUS_RESET"
proof -
  obtain d' t err where st: "velocitor_rproc_start quiet_bus (\<lambda>s. s) (\<lambda>_ _ h. h) None 0 drv_zero (velocitor_new ()) = (d', t, err)"
    by (metis prod_cases3)
  let ?s = "(velocitor_new ())\<lparr>host := (), rsc_addr_lo := 0, rsc_addr_hi := 0, rsc_len := 0\<rparr>"
  let ?u = "velocitor_reset_write (velocitor_rsc_publish quiet_bus ?s 1) 0"
  have z: "fw_status ?u = 0"
    by (rule empty_device_refused) (simp_all add: stopped_def velocitor_new_def no_queue_def)
  have "readl_poll (\<lambda>s. s) VEL_REG_FW_STATUS (\<lambda>status. status \<ge> VEL_FW_STATUS_RUNNING) START_POLLS ?u = (?u, 0, False)"
    by (rule poll_never) (simp_all only: readl_regs z, simp)
  then have e: "err = - ENODEV \<or> err = - ETIMEDOUT"
    using st
    by (auto simp: velocitor_rproc_start_def invalidate_effect drv_zero_def lower_32_bits_def upper_32_bits_def Let_def writel_regs
        simp del: VEL_REG_RSC_ADDR_LO_def VEL_REG_RSC_ADDR_HI_def VEL_REG_RSC_LEN_def VEL_REG_RSC_VALID_def
        VEL_REG_RESET_def VEL_REG_FW_STATUS_def split: prod.splits if_splits)
  then have "reset t = 1" "fw_status t = VEL_FW_STATUS_RESET" using rproc_start_fails_stopped [OF st] by auto
  moreover have "err < 0" using e by auto
  ultimately show ?thesis using st by blast
qed

text \<open>A kick reaches its queue: when the four notifyids of the device differ and queue \<open>q\<close> is enabled,
  kicking the notifyid the driver holds for ring \<open>q\<close> counts one doorbell and schedules the service of
  that queue, and changes nothing else.\<close>

theorem kick_reaches_queue:
  assumes "\<forall>i < 4. \<forall>j < 4. q_notifyid (vq s i) = q_notifyid (vq s j) \<longrightarrow> i = j" and "q < 4"
    and "q_notifyid (vq s q) = word_of_int notifyid" and "q_enable (vq s q) \<noteq> 0"
  shows "velocitor_rproc_kick B notifyid s = velocitor_vq_arm (cnt_add VEL_REG_CNT_DB_RX 1 s) q"
proof -
  have "find (\<lambda>i. q_notifyid (vq s i) = word_of_int notifyid) [0..<4] = Some q"
    unfolding find_Some_iff
  proof (intro exI conjI allI impI)
    show "q < length [0..<4]" "q_notifyid (vq s ([0..<4] ! q)) = word_of_int notifyid" "q = [0..<4] ! q"
      using assms(2,3) by simp_all
    show "q_notifyid (vq s ([0..<4] ! j)) \<noteq> word_of_int notifyid" if "j < q" for j
      using assms(1) [rule_format, of j q] assms(2,3) that by auto
  qed
  then show ?thesis using assms(4) by (simp add: velocitor_rproc_kick_def writel_regs velocitor_doorbell_def Let_def del: VEL_REG_DOORBELL_def)
qed

definition four_queues :: "unit velocitor_state" where
  "four_queues = (velocitor_new ())\<lparr>vq := (\<lambda>q. no_queue\<lparr>q_enable := 1, q_notifyid := word_of_nat (q mod 4)\<rparr>)\<rparr>"

theorem kick_reaches_queue_witness:
  "vq_pending (velocitor_rproc_kick quiet_bus 3 four_queues) AND 8 \<noteq> 0"
proof -
  have "velocitor_rproc_kick quiet_bus 3 four_queues = velocitor_vq_arm (cnt_add VEL_REG_CNT_DB_RX 1 four_queues) 3"
  proof (rule kick_reaches_queue)
    have "i = j" if "word_of_nat (i mod 4) = (word_of_nat (j mod 4) :: u32)" "i < 4" "j < 4" for i j :: nat
    proof -
      have "unat (word_of_nat (k mod 4) :: u32) = k mod 4" for k :: nat by (rule unat_u32_of_nat) simp
      then have "i mod 4 = j mod 4" using that(1) by metis
      then show ?thesis using that(2,3) by simp
    qed
    then show "\<forall>i < 4. \<forall>j < 4. q_notifyid (vq four_queues i) = q_notifyid (vq four_queues j) \<longrightarrow> i = j"
      by (simp add: four_queues_def)
  qed (simp_all add: four_queues_def)
  then show ?thesis by (simp add: velocitor_vq_arm_def four_queues_def velocitor_new_def)
qed
end
