(* ===== verification/Drv_Debugfs.thy ===== *)
theory Drv_Debugfs
  imports Drv_Rsc
begin

text \<open>
  What the driver shows of itself: its trace points (\<open>trace.h\<close>) and the listings of debugfs (\<open>counters.c\<close>,
  \<open>identity.c\<close>, \<open>vring.c\<close>). A trace point is the line \<open>TP_printk\<close> makes of the recorded fields. The kernel's \<open>%#x\<close> always
  writes \<open>0x\<close>; \<open>__print_symbolic\<close> writes the name of a value, or \<open>0x%lx\<close> where it has none.
\<close>

definition print_symbolic :: "u32 \<Rightarrow> (u32 \<times> string) list \<Rightarrow> bytes" where
  "print_symbolic v names = (case map_of names v of None \<Rightarrow> str ''0x'' @ fmt_x v | Some name \<Rightarrow> str name)"

definition trace_velocitor_irq_vring :: "u32 \<Rightarrow> u32 \<Rightarrow> bool \<Rightarrow> bytes" where
  "trace_velocitor_irq_vring vector notifyid dispatched =
     str ''vector='' @ fmt_u vector @ str '' notifyid='' @ fmt_u notifyid @ str '' dispatched='' @ fmt_d (if dispatched then 1 else 0)"

definition status_names :: "(u32 \<times> string) list" where
  "status_names = [(VEL_FW_STATUS_RESET, ''reset''), (VEL_FW_STATUS_VERIFIED, ''verified''), (VEL_FW_STATUS_RUNNING, ''running''),
     (VEL_FW_STATUS_CRASHED, ''crashed'')]"

definition trace_velocitor_irq_cfg :: "u32 \<Rightarrow> bytes" where
  "trace_velocitor_irq_cfg status = str ''firmware status='' @ print_symbolic status status_names"

definition error_names :: "(u32 \<times> string) list" where
  "error_names = [(VEL_ERR_NONE, ''none''), (VEL_ERR_BAD_DESC, ''bad descriptor''), (VEL_ERR_OUT_OF_BOUNDS, ''out of bounds''),
     (VEL_ERR_BAD_HANDLE, ''bad handle''), (VEL_ERR_DMA_WIDTH, ''dma width''), (VEL_ERR_GEMM_DIMS, ''gemm dims''),
     (VEL_ERR_DTYPE, ''dtype''), (VEL_ERR_NOMEM, ''nomem''), (VEL_ERR_WINDOW_MOVED, ''window moved''), (VEL_ERR_STALE, ''stale''),
     (VEL_ERR_FW_HEADER, ''firmware header'')]"

definition trace_velocitor_error :: "velocitor_error \<Rightarrow> bytes" where
  "trace_velocitor_error e =
     str ''error code='' @ fmt_u (ve_code e) @ str ''('' @ print_symbolic (ve_code e) error_names @ str '') info=0x'' @ fmt_x (ve_info e) @
     str '' notifyid='' @ fmt_u (ve_notifyid e) @ str '' handle='' @ fmt_u (ve_handle e) @ str '' generation='' @ fmt_u (ve_generation e) @
     str '' dropped='' @ fmt_u (ve_dropped e)"

text \<open>\<open>caller\<close> is what \<open>%pS\<close> writes of the address.\<close>

definition trace_velocitor_winmove :: "u32 \<Rightarrow> u32 \<Rightarrow> bytes \<Rightarrow> bytes" where
  "trace_velocitor_winmove from_base to_base caller =
     str ''from='' @ fmt_x from_base @ str '' to='' @ fmt_x to_base @ str '' caller='' @ caller"

definition direction_names :: "(u32 \<times> string) list" where
  "direction_names = [(VEL_DBG_DMA_H2D, ''H2D''), (VEL_DBG_DMA_D2H, ''D2H'')]"

definition trace_velocitor_dma_dbg :: "u32 \<Rightarrow> u32 \<Rightarrow> u32 \<Rightarrow> u32 \<Rightarrow> int \<Rightarrow> u32 \<Rightarrow> u32 \<Rightarrow> bytes" where
  "trace_velocitor_dma_dbg dir off poff len res status err =
     str ''dir='' @ print_symbolic dir direction_names @ str '' off=0x'' @ fmt_x off @ str '' poff=0x'' @ fmt_x poff @
     str '' len='' @ fmt_u len @ str '' res='' @ fmt_d res @ str '' status='' @ fmt_u status @ str '' err='' @ fmt_u err"

section \<open>What a reader of the log can tell\<close>

text \<open>Exactly the codes and states of the hardware contract have a name, each its own; anything else shows as a number.\<close>

lemma errors_named: "map fst error_names = map word_of_nat [0..<11]" "distinct (map snd error_names)"
  by (simp_all add: error_names_def upt_rec)

lemma states_named: "map fst status_names = map word_of_nat [0..<4]" "distinct (map snd status_names)"
  by (simp_all add: status_names_def upt_rec)

text \<open>A crash is logged by its name.\<close>

lemma crash_logged:
  "v AND VEL_ERR_INJECT_FW_CRASH \<noteq> 0 \<Longrightarrow>
     trace_velocitor_irq_cfg (fw_status (err_inject_write s v)) = str ''firmware status=crashed''"
  using crash_purges_unqualified [OF _ refl, of v s]
  by (simp add: trace_velocitor_irq_cfg_def print_symbolic_def status_names_def str_def)


section \<open>The listings of debugfs\<close>

text \<open>A line of \<open>counters\<close>: the label in 21 columns, the number.\<close>

definition counter_line :: "string \<Rightarrow> bytes \<Rightarrow> bytes" where
  "counter_line label number = str label @ replicate (21 - length label) 32 @ number @ [10]"

definition velocitor_counters_debugfs_show :: "'h pci_bus \<Rightarrow> 'h velocitor_state \<Rightarrow> 'h velocitor_state \<times> bytes" where
  "velocitor_counters_debugfs_show B s =
     (case velocitor_counters_read B s of (s, c) \<Rightarrow>
        (s, counter_line ''db_rx'' (fmt_u (c ! 0)) @ counter_line ''notify_tx'' (fmt_u (c ! 1)) @
            counter_line ''notify_coalesced'' (fmt_u (c ! 2)) @ counter_line ''notify_dropped'' (fmt_u (c ! 3)) @
            counter_line ''desc'' (fmt_u (c ! 4)) @ counter_line ''gemm'' (fmt_u (c ! 5)) @
            counter_line ''dma_rd'' (fmt_u (c ! 6)) @ counter_line ''dma_wr'' (fmt_u (c ! 7)) @
            counter_line ''bytes_rd_lo'' (fmt_u (c ! 8)) @ counter_line ''bytes_rd_hi'' (fmt_u (c ! 9)) @
            counter_line ''bytes_rd'' (fmt_u (addr64 (c ! 9) (c ! 8))) @
            counter_line ''bytes_wr_lo'' (fmt_u (c ! 10)) @ counter_line ''bytes_wr_hi'' (fmt_u (c ! 11)) @
            counter_line ''bytes_wr'' (fmt_u (addr64 (c ! 11) (c ! 10))) @
            counter_line ''win_move'' (fmt_u (c ! 12)) @ counter_line ''far_access'' (fmt_u (c ! 13)) @
            counter_line ''err_desc'' (fmt_u (c ! 14)) @ counter_line ''err_range'' (fmt_u (c ! 15)) @
            counter_line ''stall_e0'' (fmt_u (c ! 16)) @ counter_line ''stall_e1'' (fmt_u (c ! 17)) @
            counter_line ''cycles_e0'' (fmt_u (c ! 18)) @ counter_line ''cycles_e1'' (fmt_u (c ! 19))))"

definition velocitor_identity_debugfs_show :: "velocitor_identity \<Rightarrow> bytes" where
  "velocitor_identity_debugfs_show i =
     str ''version:       '' @ fmt_u (id_major i) @ str ''.'' @ fmt_u (id_minor i) @ [10] @
     str ''topology:      nodes='' @ fmt_u (id_nodes i) @ str '' engines='' @ fmt_u (id_engines i) @ str '' memory='' @ fmt_u (id_mem_size i) @ [10] @
     str ''capabilities:  '' @
     (if id_caps i AND VEL_CAP_BF16 \<noteq> 0 then str ''BF16 '' else []) @
     (if id_caps i AND VEL_CAP_FP32 \<noteq> 0 then str ''FP32 '' else []) @
     (if id_caps i AND VEL_CAP_TRANSPOSE \<noteq> 0 then str ''TRANSPOSE'' else []) @ [10]"

text \<open>
  \<open>irq\<close> is \<open>vqs[i].irq\<close>, \<open>cpu\<close> the ring's address in the kernel. \<open>%pad\<close> takes a pointer and prints the \<open>dma_addr_t\<close> it points
  to: \<open>kmem a\<close> is what kernel memory holds at \<open>a\<close>.
\<close>

definition vring_show_one ::
  "'h pci_bus \<Rightarrow> (nat \<Rightarrow> int) \<Rightarrow> (nat \<Rightarrow> u64) \<Rightarrow> (u64 \<Rightarrow> u64) \<Rightarrow> velocitor_dev \<Rightarrow> nat \<Rightarrow> 'h velocitor_state \<Rightarrow> 'h velocitor_state \<times> bytes" where
  "vring_show_one B irq cpu kmem d i s =
     (case readl (writel B (word_of_nat i) VEL_REG_VQ_SELECT s) VEL_REG_VQ_ENABLE of (s, on) \<Rightarrow>
        (s, str ''vdev'' @ fmt_dec (i div 2) @ str ''vring'' @ fmt_dec (i mod 2) @ str '':'' @ [10] @
            str ''  irq:       '' @ fmt_d (irq i) @ [10] @
            str ''  vector:    '' @ fmt_dec (vr_vector (vqs d i)) @ [10] @
            str ''  notifyid:  '' @ fmt_d (sint (vr_notifyid (vqs d i))) @ [10] @
            str ''  address:   cpu='' @ fmt_pad 16 (fmt_x (cpu i)) @ str '' dma=0x'' @ fmt_pad 16 (fmt_x (kmem (vr_dma (vqs d i)))) @ [10] @
            str ''  vq_enable: '' @ fmt_d (sint on) @ [10, 10]))"

fun vring_show_from ::
  "'h pci_bus \<Rightarrow> (nat \<Rightarrow> int) \<Rightarrow> (nat \<Rightarrow> u64) \<Rightarrow> (u64 \<Rightarrow> u64) \<Rightarrow> velocitor_dev \<Rightarrow> nat list \<Rightarrow> 'h velocitor_state \<Rightarrow> 'h velocitor_state \<times> bytes" where
  "vring_show_from B irq cpu kmem d [] s = (s, [])"
| "vring_show_from B irq cpu kmem d (i # rest) s =
     (case vring_show_one B irq cpu kmem d i s of (s, out) \<Rightarrow>
        case vring_show_from B irq cpu kmem d rest s of (s, tail) \<Rightarrow> (s, out @ tail))"

definition velocitor_vring_debugfs_show ::
  "'h pci_bus \<Rightarrow> (nat \<Rightarrow> int) \<Rightarrow> (nat \<Rightarrow> u64) \<Rightarrow> (u64 \<Rightarrow> u64) \<Rightarrow> velocitor_dev \<Rightarrow> 'h velocitor_state \<Rightarrow> 'h velocitor_state \<times> bytes" where
  "velocitor_vring_debugfs_show B irq cpu kmem d s = vring_show_from B irq cpu kmem d [0..<VEL_VRINGS_COUNT] s"

text \<open>Reading \<open>counters\<close> takes one snapshot and changes nothing else; a wide number is the two halves of it.\<close>

lemma addr64_value: "unat (addr64 hi lo) = unat hi * 2 ^ 32 + unat lo"
proof -
  have b: "unat hi < 2 ^ 32" "unat lo < 2 ^ 32" using unsigned_less [of hi] unsigned_less [of lo] by simp_all
  then have le: "unat hi * 2 ^ 32 + unat lo < 2 ^ 64" by simp
  have "addr64 hi lo = push_bit 32 (ucast hi) + ucast lo"
    unfolding addr64_def by (rule disjunctive_add [symmetric]) (auto simp: bit_simps dest: bit_imp_le_length)
  also have "\<dots> = word_of_nat (unat hi * 2 ^ 32 + unat lo)"
    by (simp add: push_bit_eq_mult mult.commute)
  finally have "unat (addr64 hi lo) = (unat hi * 2 ^ 32 + unat lo) mod 2 ^ 64" by (simp only: unat_of_nat) simp
  then show ?thesis using le by simp
qed

lemma counters_show_effect: "fst (velocitor_counters_debugfs_show B s) = s\<lparr>cnt_snap := cnt s\<rparr>"
  by (simp add: velocitor_counters_debugfs_show_def counters_read_snapshot)

lemma readl_enable: "readl s VEL_REG_VQ_ENABLE = (s, q_enable (vq s (unat (vq_select s))))"
  by (simp add: readl_def velocitor_bar0_read_def velocitor_access_ok_def velocitor_vq_read_def Let_def)

lemma writel_select_ring:
  "writel B 0 VEL_REG_VQ_SELECT s = s\<lparr>vq_select := 0\<rparr>" "writel B 1 VEL_REG_VQ_SELECT s = s\<lparr>vq_select := 1\<rparr>"
  "writel B 2 VEL_REG_VQ_SELECT s = s\<lparr>vq_select := 2\<rparr>" "writel B 3 VEL_REG_VQ_SELECT s = s\<lparr>vq_select := 3\<rparr>"
  by (simp_all add: writel_vq velocitor_vq_write_def Let_def word_le_nat_alt)

text \<open>Reading \<open>vring\<close> leaves the queue selector on the last ring, and changes nothing else.\<close>

lemma vring_show_effect: "fst (velocitor_vring_debugfs_show B irq cpu kmem d s) = s\<lparr>vq_select := 3\<rparr>"
  by (simp add: velocitor_vring_debugfs_show_def upt_rec vring_show_one_def readl_enable case_prod_beta
      writel_select_ring del: VEL_REG_VQ_SELECT_def VEL_REG_VQ_ENABLE_def)

text \<open>The address it prints is not the ring's: two sets of rings look alike wherever kernel memory does at their addresses.\<close>

lemma vring_show_reads_through:
  assumes "\<And>i. i < 4 \<Longrightarrow> kmem (vr_dma (vqs d i)) = kmem (vr_dma (vqs e i)) \<and> vr_vector (vqs d i) = vr_vector (vqs e i)
     \<and> vr_notifyid (vqs d i) = vr_notifyid (vqs e i)"
  shows "velocitor_vring_debugfs_show B irq cpu kmem d s = velocitor_vring_debugfs_show B irq cpu kmem e s"
proof -
  have one: "vring_show_one B irq cpu kmem d i = vring_show_one B irq cpu kmem e i" if "i < 4" for i
    using assms [OF that] by (simp add: vring_show_one_def fun_eq_iff)
  have "vring_show_from B irq cpu kmem d is s = vring_show_from B irq cpu kmem e is s" if "\<forall>i \<in> set is. i < 4" for "is" s
    using that by (induction "is" arbitrary: s) (simp_all add: one)
  then show ?thesis by (simp add: velocitor_vring_debugfs_show_def)
qed

end
