(* ===== verification/Drv_Ctrl.thy ===== *)
theory Drv_Ctrl
  imports Drv_Mmio
begin

text \<open>
  The control channel of the driver, \<open>ctrl.c\<close> and \<open>ctrl-transaction.c\<close>. Transactions are objects of
  the kernel heap, counted by reference; an access to a freed one is the value \<open>None\<close>. Functions that
  release a lock in the middle are cut there: the pieces are atomic, the function is their
  composition, and \<open>Drv_Ctrl_Run\<close> interleaves the pieces of several threads. The pointers to the card and
  to the transaction are never null here, as in every call of the driver.
\<close>

section \<open>State\<close>

text \<open>
  \<open>struct velocitor_ctrl_transaction\<close> with its private part. \<open>t_sync\<close> says that there is no callback, so that
  the transaction completes its \<open>done\<close>; \<open>t_notified\<close> counts the completions or callbacks.
\<close>

record transaction =
  t_status :: int
  t_msg :: ctrl_msg
  t_payload :: bytes
  t_answer :: bytes
  t_seq :: nat
  t_sync :: bool
  t_notified :: nat
  t_refs :: nat

text \<open>
  \<open>inflight\<close> is the IDR, in ascending order of the ids; \<open>rpdev\<close> and \<open>drvdata\<close> say whether the two
  pointers are set; \<open>objs\<close> is the heap and \<open>sent\<close> what \<open>rpmsg_send\<close> was given, newest last.
\<close>

record velocitor_ctrl =
  objs :: "nat \<Rightarrow> transaction option"
  inflight :: "(nat \<times> nat) list"
  rpdev :: bool
  drvdata :: bool
  info :: bytes
  info_valid :: bool
  sent :: "bytes list"

definition idr_remove :: "nat \<Rightarrow> velocitor_ctrl \<Rightarrow> velocitor_ctrl" where
  "idr_remove seq c = c\<lparr>inflight := filter (\<lambda>p. fst p \<noteq> seq) (inflight c)\<rparr>"

definition idr_find :: "nat \<Rightarrow> velocitor_ctrl \<Rightarrow> nat option" where
  "idr_find seq c = map_of (inflight c) seq"

definition obj_upd :: "nat \<Rightarrow> (transaction \<Rightarrow> transaction) \<Rightarrow> velocitor_ctrl \<Rightarrow> velocitor_ctrl option" where
  "obj_upd a f c = (case objs c a of None \<Rightarrow> None | Some t \<Rightarrow> Some (c\<lparr>objs := (objs c)(a := Some (f t))\<rparr>))"

section \<open>Transactions\<close>

definition velocitor_ctrl_transaction_free :: "nat \<Rightarrow> velocitor_ctrl \<Rightarrow> velocitor_ctrl" where
  "velocitor_ctrl_transaction_free a c = c\<lparr>objs := (objs c)(a := None)\<rparr>"

definition velocitor_ctrl_transaction_release :: "nat \<Rightarrow> velocitor_ctrl \<Rightarrow> velocitor_ctrl option" where
  "velocitor_ctrl_transaction_release a c =
     (case objs c a of
        None \<Rightarrow> None
      | Some t \<Rightarrow>
          if t_refs t = 1 then Some (velocitor_ctrl_transaction_free a c)
          else obj_upd a (\<lambda>t. t\<lparr>t_refs := t_refs t - 1\<rparr>) c)"

text \<open>The callback of the only asynchronous request, the INFO handshake.\<close>

definition velocitor_ctrl_oninfo :: "transaction \<Rightarrow> velocitor_ctrl \<Rightarrow> velocitor_ctrl" where
  "velocitor_ctrl_oninfo t c =
     (if t_status t \<noteq> 0 then c else c\<lparr>info := take 28 (t_answer t), info_valid := True\<rparr>)"

definition velocitor_ctrl_transaction_notify :: "nat \<Rightarrow> velocitor_ctrl \<Rightarrow> velocitor_ctrl option" where
  "velocitor_ctrl_transaction_notify a c =
     (case objs c a of
        None \<Rightarrow> None
      | Some t \<Rightarrow>
          obj_upd a (\<lambda>t. t\<lparr>t_notified := t_notified t + 1\<rparr>) (if t_sync t then c else velocitor_ctrl_oninfo t c))"

text \<open>
  \<open>mem\<close> is what \<open>kzalloc\<close> returns and \<open>seq\<close> what \<open>idr_alloc_cyclic\<close> does, a negative number being an
  error; the result is the transaction or the errno.
\<close>

definition velocitor_ctrl_transaction_alloc ::
  "nat option \<Rightarrow> int \<Rightarrow> bool \<Rightarrow> velocitor_ctrl \<Rightarrow> velocitor_ctrl \<times> (int + nat)" where
  "velocitor_ctrl_transaction_alloc mem_ptr seq sync c =
     (case mem_ptr of
        None \<Rightarrow> (c, Inl (- ENOMEM))
      | Some a \<Rightarrow>
          if seq < 0 then (c, Inl seq)
          else
            let t = \<lparr>t_status = 0,
                     t_msg = \<lparr>cm_seq = word_of_int seq, cm_op = 0, cm_flags = 0, cm_status = 0, cm_reserved = 0\<rparr>,
                     t_payload = replicate 16 0, t_answer = replicate 40 0, t_seq = nat seq, t_sync = sync,
                     t_notified = 0, t_refs = 1\<rparr>
            in (c\<lparr>objs := (objs c)(a := Some t), inflight := insort_key fst (nat seq, a) (inflight c)\<rparr>, Inr a))"

definition request_payload_len :: "u16 \<Rightarrow> nat option" where
  "request_payload_len op =
     (if op = VEL_OP_INFO \<or> op = VEL_OP_STAT then Some 0
      else if op = VEL_OP_ALLOC then Some 16
      else if op = VEL_OP_FREE then Some 8
      else None)"

text \<open>
  The three pieces of \<open>velocitor_ctrl_transaction_cancel\<close> and \<open>velocitor_ctrl_transaction_send\<close>: taking the
  reference, posting under \<open>rpdev_lock\<close>, and claiming the entry under \<open>ctrl->lock\<close>.
\<close>

definition send_get :: "nat \<Rightarrow> velocitor_ctrl \<Rightarrow> velocitor_ctrl option" where
  "send_get a c = obj_upd a (\<lambda>t. t\<lparr>t_refs := t_refs t + 1\<rparr>) c"

definition send_post :: "int \<Rightarrow> nat \<Rightarrow> nat \<Rightarrow> velocitor_ctrl \<Rightarrow> (velocitor_ctrl \<times> int) option" where
  "send_post res payload_len a c =
     (if \<not> rpdev c then Some (c, - ENODEV)
      else case objs c a of
        None \<Rightarrow> None
      | Some t \<Rightarrow> Some (if res = 0 then c\<lparr>sent := sent c @ [put_ctrl (t_msg t) @ take payload_len (t_payload t)]\<rparr> else c, res))"

definition cancel_claim :: "nat \<Rightarrow> velocitor_ctrl \<Rightarrow> (velocitor_ctrl \<times> bool) option" where
  "cancel_claim a c =
     (case objs c a of
        None \<Rightarrow> None
      | Some t \<Rightarrow> Some (idr_remove (t_seq t) c, idr_find (t_seq t) c \<noteq> None))"

text \<open>Whoever claimed an entry sets the status, notifies and releases.\<close>

definition finish :: "(transaction \<Rightarrow> transaction) \<Rightarrow> nat \<Rightarrow> velocitor_ctrl \<Rightarrow> velocitor_ctrl option" where
  "finish f a c =
     Option.bind (obj_upd a f c) (\<lambda>c.
     Option.bind (velocitor_ctrl_transaction_notify a c) (velocitor_ctrl_transaction_release a))"

definition velocitor_ctrl_transaction_cancel :: "nat \<Rightarrow> velocitor_ctrl \<Rightarrow> velocitor_ctrl option" where
  "velocitor_ctrl_transaction_cancel a c =
     Option.bind (cancel_claim a c) (\<lambda>(c, claimed).
       if \<not> claimed then Some c else finish (\<lambda>t. t\<lparr>t_status := - ECANCELED\<rparr>) a c)"

definition velocitor_ctrl_transaction_send ::
  "int \<Rightarrow> nat \<Rightarrow> velocitor_ctrl \<Rightarrow> (velocitor_ctrl \<times> int) option" where
  "velocitor_ctrl_transaction_send res a c =
     (case objs c a of
        None \<Rightarrow> None
      | Some t \<Rightarrow>
          (case request_payload_len (cm_op (t_msg t)) of
             None \<Rightarrow> Some (c, - EINVAL)
           | Some payload_len \<Rightarrow>
               Option.bind (send_get a c) (\<lambda>c.
               Option.bind (send_post res payload_len a c) (\<lambda>(c, err).
                 if err \<noteq> 0 then Option.bind (velocitor_ctrl_transaction_cancel a c) (\<lambda>c. Some (c, err))
                 else Some (c, 0)))))"

text \<open>\<open>velocitor_ctrl_transaction_wait\<close>, once the completion it sleeps on has been signalled.\<close>

definition velocitor_ctrl_transaction_wait :: "nat \<Rightarrow> velocitor_ctrl \<Rightarrow> int option" where
  "velocitor_ctrl_transaction_wait a c =
     (case objs c a of
        None \<Rightarrow> None
      | Some t \<Rightarrow> if \<not> t_sync t then Some (- EINVAL) else if t_notified t = 0 then None else Some (t_status t))"

section \<open>Answers\<close>

definition answer_len :: "u16 \<Rightarrow> nat option" where
  "answer_len op =
     (if op = VEL_OP_INFO then Some 28
      else if op = VEL_OP_ALLOC then Some 24
      else if op = VEL_OP_FREE then Some 0
      else if op = VEL_OP_STAT then Some 40
      else None)"

definition MAX_ERRNO :: int where [simp]: "MAX_ERRNO = 4095"

text \<open>What the callback makes of the message, before \<open>out\<close>; \<open>memcpy\<close> writes the head of the answer union.\<close>

definition answer_transaction :: "bytes \<Rightarrow> transaction \<Rightarrow> transaction" where
  "answer_transaction data t =
     (let msg = get_ctrl data in
      if cm_op msg \<noteq> cm_op (t_msg t) then t\<lparr>t_status := - EREMOTEIO\<rparr>
      else
        let status = sint (cm_status msg);
            t = t\<lparr>t_status := if status \<le> 0 \<and> status \<ge> - MAX_ERRNO then status else - EREMOTEIO\<rparr>
        in if t_status t \<noteq> 0 then t
           else case answer_len (cm_op (t_msg t)) of
             None \<Rightarrow> t\<lparr>t_status := - EREMOTEIO\<rparr>
           | Some len \<Rightarrow>
               if length data - 16 < len then t\<lparr>t_status := - EPROTO\<rparr>
               else t\<lparr>t_answer := take len (drop 16 data) @ drop len (t_answer t)\<rparr>)"

definition callback_claim :: "bytes \<Rightarrow> velocitor_ctrl \<Rightarrow> velocitor_ctrl \<times> nat option" where
  "callback_claim data c =
     (let seq = unat (cm_seq (get_ctrl data)) in
      case idr_find seq c of
        None \<Rightarrow> (c, None)
      | Some a \<Rightarrow> (idr_remove seq c, Some a))"

definition velocitor_ctrl_rpmsg_callback :: "bytes \<Rightarrow> velocitor_ctrl \<Rightarrow> velocitor_ctrl option" where
  "velocitor_ctrl_rpmsg_callback data c =
     (if length data < 16 then Some c
      else if \<not> drvdata c then Some c
      else case callback_claim data c of
        (c, None) \<Rightarrow> Some c
      | (c, Some a) \<Rightarrow> finish (answer_transaction data) a c)"

section \<open>Binding and unbinding the channel\<close>

fun remove_inflight :: "(nat \<times> nat) list \<Rightarrow> velocitor_ctrl \<Rightarrow> velocitor_ctrl option" where
  "remove_inflight [] c = Some c"
| "remove_inflight ((seq, a) # rest) c =
     Option.bind (finish (\<lambda>t. t\<lparr>t_status := - ESTALE\<rparr>) a (idr_remove seq c)) (remove_inflight rest)"

definition velocitor_ctrl_rpmsg_remove :: "velocitor_ctrl \<Rightarrow> velocitor_ctrl option" where
  "velocitor_ctrl_rpmsg_remove c =
     (let c = c\<lparr>rpdev := False\<rparr>; c = c\<lparr>drvdata := False\<rparr> in remove_inflight (inflight c) c)"

definition velocitor_ctrl_rpmsg_probe ::
  "bool \<Rightarrow> nat option \<Rightarrow> int \<Rightarrow> int \<Rightarrow> velocitor_ctrl \<Rightarrow> (velocitor_ctrl \<times> int) option" where
  "velocitor_ctrl_rpmsg_probe found mem_ptr seq res c =
     (if \<not> found then Some (c, - ENODEV)
      else let fail = (\<lambda>err c. (c\<lparr>rpdev := False, drvdata := False\<rparr>, err));
          c = c\<lparr>rpdev := True\<rparr>;
          c = c\<lparr>drvdata := True\<rparr>
      in case velocitor_ctrl_transaction_alloc mem_ptr seq False c of
           (c, Inl err) \<Rightarrow> Some (fail err c)
         | (c, Inr a) \<Rightarrow>
             Option.bind (obj_upd a (\<lambda>t. t\<lparr>t_msg := (t_msg t)\<lparr>cm_op := VEL_OP_INFO\<rparr>\<rparr>) c) (\<lambda>c.
             Option.bind (velocitor_ctrl_transaction_send res a c) (\<lambda>(c, err).
             Option.bind (velocitor_ctrl_transaction_release a c) (\<lambda>c.
               if err \<noteq> 0 then Some (fail err c) else Some (c, 0)))))"

text \<open>The card's part of the channel: what \<open>devm_kzalloc\<close> leaves, and the initialisation with the answers of
  \<open>devm_mutex_init\<close> and \<open>devm_add_action_or_reset\<close>, which on failure destroys the IDR at once.\<close>

definition velocitor_ctrl_zero :: velocitor_ctrl where
  "velocitor_ctrl_zero = \<lparr>objs = (\<lambda>_. None), inflight = [], rpdev = False, drvdata = False,
     info = replicate 28 0, info_valid = False, sent = []\<rparr>"

definition velocitor_ctrl_initialize :: "int \<Rightarrow> int \<Rightarrow> velocitor_ctrl \<Rightarrow> velocitor_ctrl \<times> int" where
  "velocitor_ctrl_initialize mutex_err action_err c =
     (if mutex_err \<noteq> 0 then (c, mutex_err) else (c\<lparr>inflight := []\<rparr>, action_err))"

section \<open>The device on the other side\<close>

text \<open>What \<open>velocitor_rpmsg_recv\<close> of the device does to a control request, and the answer it sends.\<close>

definition device_answer :: "'h velocitor_state \<Rightarrow> bytes \<Rightarrow> 'h velocitor_state \<times> bytes" where
  "device_answer s data =
     (case ctrl_op s (cm_op (get_ctrl data)) data of
        (s, status, payload) \<Rightarrow>
          (s, put_ctrl \<lparr>cm_seq = cm_seq (get_ctrl data), cm_op = cm_op (get_ctrl data), cm_flags = 0, cm_status = status,
             cm_reserved = 0\<rparr> @ payload))"

lemma device_answer_sent:
  assumes "16 \<le> length data"
  shows "velocitor_rpmsg_recv B s src data =
    fst (velocitor_rpmsg_send B
      (velocitor_trace (fst (device_answer s data)) VEL_TRACE_LEVEL_INFO VEL_TRACE_ENGINE_NONE (cm_seq (get_ctrl data))
         (str ''control op '' @ fmt_u (cm_op (get_ctrl data)) @ str '' from address '' @ fmt_u src))
      VEL_RPMSG_CTRL_ADDR src (snd (device_answer s data)))"
  using assms by (simp add: velocitor_rpmsg_recv_def device_answer_def Let_def case_prod_beta)

section \<open>Properties\<close>

lemma request_ops: "request_payload_len op = Some n \<Longrightarrow> op = 1 \<or> op = 2 \<or> op = 3 \<or> op = 4"
  by (auto simp: request_payload_len_def split: if_splits)

lemma free_block_err: "velocitor_free_block s h = (t, err) \<Longrightarrow> err = 0 \<or> err = - EINVAL"
  by (auto simp: velocitor_free_block_def split: if_splits)

lemma alloc_block_err: "velocitor_alloc_block s r = (t, Inl err) \<Longrightarrow> err = - EINVAL \<or> err = - ENOMEM"
  by (auto simp: velocitor_alloc_block_def Let_def split: if_splits prod.splits)

text \<open>The statuses the device puts on the wire are zero or errnos, and a zero comes with the answer its
  operation promises.\<close>

lemma device_status:
  assumes "ctrl_op s op data = (s', status, p)" and "request_payload_len op \<noteq> None"
  shows "status \<in> {0, - 22, - 12}" and "status = 0 \<Longrightarrow> answer_len op = Some (length p)"
proof -
  have e: "errno32 (- 22) = - 22" "errno32 (- 12) = - 12" "errno32 0 = 0" by (simp_all add: errno32_def)
  note err = free_block_err alloc_block_err
  show "status \<in> {0, - 22, - 12}"
    using assms e by (auto simp: ctrl_op_def Let_def request_payload_len_def dest!: err split: if_splits prod.splits sum.splits)
  have n: "(0 :: u32) \<noteq> - 22" "(0 :: u32) \<noteq> - 12" by code_simp+
  show "answer_len op = Some (length p)" if "status = 0"
    using assms e n that
    by (auto simp: ctrl_op_def Let_def request_payload_len_def answer_len_def dest!: err split: if_splits prod.splits sum.splits)
qed

lemma answer_of_device:
  assumes "cm_op (t_msg t) = op" and "status \<in> {0, - 22, - 12}" and "status = 0 \<Longrightarrow> answer_len op = Some (length p)"
  shows "t_status (answer_transaction (put_ctrl \<lparr>cm_seq = seq, cm_op = op, cm_flags = f, cm_status = status, cm_reserved = r\<rparr> @ p) t) = sint status"
    and "status = 0 \<Longrightarrow>
      t_answer (answer_transaction (put_ctrl \<lparr>cm_seq = seq, cm_op = op, cm_flags = f, cm_status = status, cm_reserved = r\<rparr> @ p) t) =
        p @ drop (length p) (t_answer t)"
proof -
  have "sint (0 :: u32) = 0" "sint (- 22 :: u32) = - 22" "sint (- 12 :: u32) = - 12" by code_simp+
  then show "t_status (answer_transaction (put_ctrl \<lparr>cm_seq = seq, cm_op = op, cm_flags = f, cm_status = status, cm_reserved = r\<rparr> @ p) t) = sint status"
    using assms by (auto simp: answer_transaction_def get_put_ctrl Let_def)
  show "t_answer (answer_transaction (put_ctrl \<lparr>cm_seq = seq, cm_op = op, cm_flags = f, cm_status = status, cm_reserved = r\<rparr> @ p) t) =
      p @ drop (length p) (t_answer t)" if "status = 0"
    using assms that by (auto simp: answer_transaction_def get_put_ctrl Let_def)
qed

text \<open>The callback, on an answer to a transaction that is in flight.\<close>

lemma callback_finishes:
  assumes "drvdata c" and "16 \<le> length data" and "idr_find (unat (cm_seq (get_ctrl data))) c = Some a" and "objs c a = Some t"
    and "t_sync t" and "t_refs t = n + 2"
  shows "velocitor_ctrl_rpmsg_callback data c =
    Some ((idr_remove (unat (cm_seq (get_ctrl data))) c)\<lparr>objs := (objs c)(a :=
      Some ((answer_transaction data t)\<lparr>t_notified := t_notified t + 1, t_refs := n + 1\<rparr>))\<rparr>)"
proof -
  define u where "u = answer_transaction data t"
  have u: "t_refs u = n + 2" "t_notified u = t_notified t" "t_sync u"
    using assms(5,6) by (simp_all add: u_def answer_transaction_def Let_def split: option.split)
  show ?thesis
    using assms(1-4) u
    by (simp add: velocitor_ctrl_rpmsg_callback_def callback_claim_def finish_def obj_upd_def idr_remove_def u_def [symmetric]
        velocitor_ctrl_transaction_notify_def velocitor_ctrl_transaction_release_def)
qed

lemma device_answers:
  assumes "drvdata c" and "objs c a = Some t" and "t_sync t" and "t_refs t = n + 2"
    and "idr_find (unat (cm_seq (t_msg t))) c = Some a" and "request_payload_len (cm_op (t_msg t)) = Some len"
    and "length (t_payload t) = 16"
    and "ctrl_op s (cm_op (t_msg t)) (put_ctrl (t_msg t) @ take len (t_payload t)) = (s', status, p)"
    and "answer = put_ctrl \<lparr>cm_seq = cm_seq (t_msg t), cm_op = cm_op (t_msg t), cm_flags = 0, cm_status = status, cm_reserved = 0\<rparr> @ p"
  shows "\<exists>d u. velocitor_ctrl_rpmsg_callback answer c = Some d
     \<and> d = (idr_remove (unat (cm_seq (t_msg t))) c)\<lparr>objs := (objs c)(a := Some u)\<rparr>
     \<and> idr_find (unat (cm_seq (t_msg t))) d = None \<and> t_notified u = t_notified t + 1 \<and> t_refs u = n + 1
     \<and> t_status u = sint status \<and> velocitor_ctrl_transaction_wait a d = Some (sint status)
     \<and> (status = 0 \<longrightarrow> t_answer u = p @ drop (length p) (t_answer t) \<and> answer_len (cm_op (t_msg t)) = Some (length p))
     \<and> (cm_op (t_msg t) = VEL_OP_ALLOC \<longrightarrow>
          (s', status, p) = (case velocitor_alloc_block s (get_alloc_req (t_payload t)) of
             (s, Inl err) \<Rightarrow> (s, errno32 err, []) | (s, Inr r) \<Rightarrow> (s, 0, put_alloc_resp r)))
     \<and> (cm_op (t_msg t) = VEL_OP_FREE \<longrightarrow>
          (s', status, p) = (case velocitor_free_block s (get_le 0 4 (t_payload t)) of (s, err) \<Rightarrow> (s, errno32 err, [])))"
proof -
  define u where "u = (answer_transaction answer t)\<lparr>t_notified := t_notified t + 1, t_refs := n + 1\<rparr>"
  define d where "d = (idr_remove (unat (cm_seq (t_msg t))) c)\<lparr>objs := (objs c)(a := Some u)\<rparr>"
  have "get_ctrl answer = \<lparr>cm_seq = cm_seq (t_msg t), cm_op = cm_op (t_msg t), cm_flags = 0, cm_status = status, cm_reserved = 0\<rparr>"
    by (simp add: assms(9) get_put_ctrl)
  then have run: "velocitor_ctrl_rpmsg_callback answer c = Some d"
    using callback_finishes [of c answer a t n] assms by (simp add: d_def u_def)
  have gone: "idr_find (unat (cm_seq (t_msg t))) d = None"
    by (auto simp: d_def idr_find_def idr_remove_def map_of_eq_None_iff)
  have known: "request_payload_len (cm_op (t_msg t)) \<noteq> None" using assms(6) by simp
  have st: "status \<in> {0, - 22, - 12}" using device_status(1) [OF assms(8) known] .
  have al: "answer_len (cm_op (t_msg t)) = Some (length p)" if "status = 0" using device_status(2) [OF assms(8) known that] .
  have u: "t_status u = sint status" "status = 0 \<Longrightarrow> t_answer u = p @ drop (length p) (t_answer t)"
    using answer_of_device [OF refl st al] by (simp_all add: u_def assms(9))
  have "t_sync u" using assms(3) by (simp add: u_def answer_transaction_def Let_def split: option.split)
  then have w: "velocitor_ctrl_transaction_wait a d = Some (sint status)"
    using u(1) by (simp add: velocitor_ctrl_transaction_wait_def d_def) (simp add: u_def)
  have "(s', status, p) = (case velocitor_alloc_block s (get_alloc_req (t_payload t)) of
      (s, Inl err) \<Rightarrow> (s, errno32 err, []) | (s, Inr r) \<Rightarrow> (s, 0, put_alloc_resp r))" if "cm_op (t_msg t) = VEL_OP_ALLOC"
    using assms(6-8) that by (simp add: request_payload_len_def ctrl_op_def Let_def)
  moreover have "(s', status, p) = (case velocitor_free_block s (get_le 0 4 (t_payload t)) of (s, err) \<Rightarrow> (s, errno32 err, []))"
    if "cm_op (t_msg t) = VEL_OP_FREE"
    using assms(6-8) that by (simp add: request_payload_len_def ctrl_op_def Let_def get_le_skip get_le_eq_take)
  moreover have "d = (idr_remove (unat (cm_seq (t_msg t))) c)\<lparr>objs := (objs c)(a := Some u)\<rparr>" "t_notified u = t_notified t + 1" "t_refs u = n + 1" by (simp_all add: d_def u_def)
  ultimately show ?thesis using run gone u w al by blast
qed

lemma device_answer_of:
  assumes "ctrl_op s (cm_op (t_msg t)) (put_ctrl (t_msg t) @ p) = (s', status, q)"
  shows "device_answer s (put_ctrl (t_msg t) @ p) =
    (s', put_ctrl \<lparr>cm_seq = cm_seq (t_msg t), cm_op = cm_op (t_msg t), cm_flags = 0, cm_status = status, cm_reserved = 0\<rparr> @ q)"
  using assms by (simp add: device_answer_def get_put_ctrl)

lemma send_posts:
  assumes "rpdev c" and "objs c a = Some t" and "request_payload_len (cm_op (t_msg t)) = Some len"
  shows "velocitor_ctrl_transaction_send 0 a c = Some
    (c\<lparr>objs := (objs c)(a := Some (t\<lparr>t_refs := t_refs t + 1\<rparr>)), sent := sent c @ [put_ctrl (t_msg t) @ take len (t_payload t)]\<rparr>, 0)"
  using assms by (simp add: velocitor_ctrl_transaction_send_def send_get_def obj_upd_def send_post_def)

text \<open>C6. The control round trip: the driver's send puts one message on the channel, and when the device
  receives it, it performs the request's operation on the payload the transaction holds and sends an
  answer that finds the transaction by the sequence number, whatever else the driver did to other
  transactions in between; the entry leaves the table, the transaction is notified once more, the
  waiter returns the very status the operation gave, and when that is zero the answer holds the
  device's response byte for byte.\<close>

theorem ctrl_round_trip:
  assumes "rpdev c" and "objs c a = Some t" and "t_sync t" and "t_refs t = n + 1"
    and "request_payload_len (cm_op (t_msg t)) = Some len" and "length (t_payload t) = 16"
    and "velocitor_ctrl_transaction_send 0 a c = Some (c1, err)"
    and "drvdata c2" and "objs c2 a = objs c1 a" and "idr_find (unat (cm_seq (t_msg t))) c2 = Some a"
    and "data = last (sent c1)" and "ctrl_op s (cm_op (t_msg t)) data = (s', status, p)"
    and "answer = snd (device_answer s data)"
  shows "err = 0 \<and> sent c1 = sent c @ [data]
     \<and> velocitor_rpmsg_recv B s src data = fst (velocitor_rpmsg_send B
          (velocitor_trace s' VEL_TRACE_LEVEL_INFO VEL_TRACE_ENGINE_NONE (cm_seq (t_msg t))
             (str ''control op '' @ fmt_u (cm_op (t_msg t)) @ str '' from address '' @ fmt_u src))
          VEL_RPMSG_CTRL_ADDR src answer)
     \<and> (\<exists>d u. velocitor_ctrl_rpmsg_callback answer c2 = Some d
          \<and> d = (idr_remove (unat (cm_seq (t_msg t))) c2)\<lparr>objs := (objs c2)(a := Some u)\<rparr>
          \<and> idr_find (unat (cm_seq (t_msg t))) d = None \<and> t_notified u = t_notified t + 1 \<and> t_refs u = n + 1
          \<and> t_status u = sint status \<and> velocitor_ctrl_transaction_wait a d = Some (sint status)
          \<and> (status = 0 \<longrightarrow> t_answer u = p @ drop (length p) (t_answer t) \<and> answer_len (cm_op (t_msg t)) = Some (length p)))
     \<and> (cm_op (t_msg t) = VEL_OP_ALLOC \<longrightarrow>
          (s', status, p) = (case velocitor_alloc_block s (get_alloc_req (t_payload t)) of
             (s, Inl err) \<Rightarrow> (s, errno32 err, []) | (s, Inr r) \<Rightarrow> (s, 0, put_alloc_resp r)))
     \<and> (cm_op (t_msg t) = VEL_OP_FREE \<longrightarrow>
          (s', status, p) = (case velocitor_free_block s (get_le 0 4 (t_payload t)) of (s, err) \<Rightarrow> (s, errno32 err, [])))"
proof -
  let ?t = "t\<lparr>t_refs := t_refs t + 1\<rparr>"
  have c1: "err = 0" "objs c1 a = Some ?t" "sent c1 = sent c @ [put_ctrl (t_msg t) @ take len (t_payload t)]"
    using send_posts [OF assms(1,2,5)] assms(7) by auto
  then have data: "data = put_ctrl (t_msg t) @ take len (t_payload t)" by (simp add: assms(11))
  have op: "ctrl_op s (cm_op (t_msg ?t)) (put_ctrl (t_msg ?t) @ take len (t_payload ?t)) = (s', status, p)"
    using assms(12) by (simp add: data)
  have ans: "device_answer s data = (s', put_ctrl \<lparr>cm_seq = cm_seq (t_msg t), cm_op = cm_op (t_msg t), cm_flags = 0,
      cm_status = status, cm_reserved = 0\<rparr> @ p)"
    unfolding data by (rule device_answer_of) (use op in simp)
  have "answer = put_ctrl \<lparr>cm_seq = cm_seq (t_msg ?t), cm_op = cm_op (t_msg ?t), cm_flags = 0, cm_status = status,
      cm_reserved = 0\<rparr> @ p"
    by (simp add: assms(13) ans)
  from device_answers [OF assms(8) _ _ _ _ _ _ op this, of a n] assms(3-6,9,10) c1(2)
  have fin: "\<exists>d u. velocitor_ctrl_rpmsg_callback answer c2 = Some d
          \<and> d = (idr_remove (unat (cm_seq (t_msg t))) c2)\<lparr>objs := (objs c2)(a := Some u)\<rparr>
          \<and> idr_find (unat (cm_seq (t_msg t))) d = None \<and> t_notified u = t_notified t + 1 \<and> t_refs u = n + 1
          \<and> t_status u = sint status \<and> velocitor_ctrl_transaction_wait a d = Some (sint status)
          \<and> (status = 0 \<longrightarrow> t_answer u = p @ drop (length p) (t_answer t) \<and> answer_len (cm_op (t_msg t)) = Some (length p))"
    and acts: "cm_op (t_msg t) = VEL_OP_ALLOC \<longrightarrow>
          (s', status, p) = (case velocitor_alloc_block s (get_alloc_req (t_payload t)) of
             (s, Inl err) \<Rightarrow> (s, errno32 err, []) | (s, Inr r) \<Rightarrow> (s, 0, put_alloc_resp r))"
      "cm_op (t_msg t) = VEL_OP_FREE \<longrightarrow>
          (s', status, p) = (case velocitor_free_block s (get_le 0 4 (t_payload t)) of (s, err) \<Rightarrow> (s, errno32 err, []))"
    by auto
  have m: "get_ctrl data = t_msg t" by (simp add: data get_put_ctrl)
  have "16 \<le> length data" by (simp add: data length_put)
  from device_answer_sent [OF this, of B s src] have "velocitor_rpmsg_recv B s src data = fst (velocitor_rpmsg_send B
          (velocitor_trace s' VEL_TRACE_LEVEL_INFO VEL_TRACE_ENGINE_NONE (cm_seq (t_msg t))
             (str ''control op '' @ fmt_u (cm_op (t_msg t)) @ str '' from address '' @ fmt_u src))
          VEL_RPMSG_CTRL_ADDR src answer)"
    unfolding assms(13) ans m by simp
  with fin acts c1 data show ?thesis by blast
qed

text \<open>A STAT request in flight, with the number 7, and the same one before it is sent.\<close>

definition stat_transaction :: transaction where
  "stat_transaction = \<lparr>t_status = 0, t_msg = \<lparr>cm_seq = 7, cm_op = 4, cm_flags = 0, cm_status = 0, cm_reserved = 0\<rparr>,
     t_payload = replicate 16 0, t_answer = replicate 40 0, t_seq = 7, t_sync = True, t_notified = 0, t_refs = 2\<rparr>"

definition stat_sent :: velocitor_ctrl where
  "stat_sent = velocitor_ctrl_zero\<lparr>objs := [0 \<mapsto> stat_transaction], inflight := [(7, 0)], rpdev := True, drvdata := True\<rparr>"

definition stat_ready :: velocitor_ctrl where
  "stat_ready = stat_sent\<lparr>objs := [0 \<mapsto> stat_transaction\<lparr>t_refs := 1\<rparr>]\<rparr>"

theorem ctrl_round_trip_witness:
  "\<exists>c d u. velocitor_ctrl_transaction_send 0 0 stat_ready = Some (c, 0)
     \<and> velocitor_ctrl_rpmsg_callback (snd (device_answer one_block (last (sent c)))) c = Some d \<and> objs d 0 = Some u
     \<and> t_answer u = put_stat (velocitor_stat_fill one_block) \<and> velocitor_ctrl_transaction_wait 0 d = Some 0"
proof -
  let ?t = "stat_transaction\<lparr>t_refs := 1\<rparr>"
  define c where "c = stat_ready\<lparr>objs := (objs stat_ready)(0 := Some (?t\<lparr>t_refs := t_refs ?t + 1\<rparr>)),
    sent := sent stat_ready @ [put_ctrl (t_msg ?t) @ take 0 (t_payload ?t)]\<rparr>"
  have ready: "rpdev stat_ready" "objs stat_ready 0 = Some ?t" "request_payload_len (cm_op (t_msg ?t)) = Some 0"
    by (simp_all add: stat_ready_def stat_sent_def stat_transaction_def request_payload_len_def)
  have send: "velocitor_ctrl_transaction_send 0 0 stat_ready = Some (c, 0)"
    unfolding c_def by (rule send_posts [OF ready])
  have t: "t_sync ?t" "t_refs ?t = 0 + 1" "length (t_payload ?t) = 16" "cm_op (t_msg ?t) = 4" "drvdata c"
    "unat (cm_seq (t_msg ?t)) = 7" "idr_find 7 c = Some 0" "t_answer ?t = replicate 40 0"
    by (simp_all add: stat_transaction_def c_def stat_ready_def stat_sent_def idr_find_def)
  have "ctrl_op one_block (cm_op (t_msg ?t)) (last (sent c)) = (one_block, 0, put_stat (velocitor_stat_fill one_block))"
    unfolding t(4) by (simp add: ctrl_op_def)
  note R = ctrl_round_trip [where B = B and src = 0, OF ready(1,2) t(1,2) ready(3) t(3) send t(5) refl _ refl this refl]
  then obtain d u where d: "velocitor_ctrl_rpmsg_callback (snd (device_answer one_block (last (sent c)))) c = Some d"
    "objs d 0 = Some u" "velocitor_ctrl_transaction_wait 0 d = Some 0"
    and u: "t_answer u = put_stat (velocitor_stat_fill one_block) @ drop (length (put_stat (velocitor_stat_fill one_block))) (t_answer ?t)"
    using t(6,7) by auto
  have "t_answer u = put_stat (velocitor_stat_fill one_block)" unfolding u t(8) by simp
  with send d show ?thesis by blast
qed

text \<open>C37. A request is in the table of requests in flight before its caller has sent it, and the sending is
  what takes the reference the table is said to hold. So when a synchronous request has just been
  allocated, as the only one in flight, and the channel is removed before the caller sends it, the
  removal finds the new entry, marks it stale, notifies and gives back the only reference there is:
  the transaction is freed, and the caller's send touches freed memory, whatever the identifier and
  whatever the send would have answered.\<close>

theorem remove_before_send_frees:
  assumes "inflight c = []" and "0 \<le> seq" and "velocitor_ctrl_transaction_alloc (Some a) seq True c = (d, Inr a)"
  shows "\<exists>e. velocitor_ctrl_rpmsg_remove d = Some e \<and> objs e a = None \<and> inflight e = []
     \<and> velocitor_ctrl_transaction_send res a e = None"
proof -
  have "objs d a \<noteq> None" and d: "inflight d = [(nat seq, a)]" and t: "\<exists>t. objs d a = Some t \<and> t_refs t = 1 \<and> t_sync t"
    using assms by (auto simp: velocitor_ctrl_transaction_alloc_def Let_def)
  from t obtain t where "objs d a = Some t" "t_refs t = 1" "t_sync t" by blast
  with d show ?thesis
    by (simp add: velocitor_ctrl_rpmsg_remove_def Let_def finish_def idr_remove_def obj_upd_def
        velocitor_ctrl_transaction_notify_def velocitor_ctrl_transaction_release_def velocitor_ctrl_transaction_free_def
        velocitor_ctrl_transaction_send_def)
qed

theorem remove_before_send_frees_witness:
  "\<exists>e. velocitor_ctrl_rpmsg_remove (fst (velocitor_ctrl_transaction_alloc (Some 5) 1 True velocitor_ctrl_zero)) = Some e
     \<and> velocitor_ctrl_transaction_send 0 5 e = None"
proof -
  define d where "d = fst (velocitor_ctrl_transaction_alloc (Some 5) 1 True velocitor_ctrl_zero)"
  have "velocitor_ctrl_transaction_alloc (Some 5) 1 True velocitor_ctrl_zero = (d, Inr 5)"
    by (simp add: d_def velocitor_ctrl_transaction_alloc_def Let_def)
  from remove_before_send_frees [OF _ _ this, of 0] show ?thesis
    unfolding d_def [symmetric] by (auto simp: velocitor_ctrl_zero_def)
qed

text \<open>What the removal does to a transaction somebody waits for.\<close>

definition stale :: "transaction \<Rightarrow> transaction" where
  "stale t = t\<lparr>t_status := - ESTALE, t_notified := t_notified t + 1, t_refs := t_refs t - 1\<rparr>"

definition awaited :: "velocitor_ctrl \<Rightarrow> nat \<Rightarrow> bool" where
  "awaited c a \<longleftrightarrow> (case objs c a of None \<Rightarrow> False | Some t \<Rightarrow> t_sync t \<and> 2 \<le> t_refs t)"

lemma finish_stale:
  assumes "awaited c a"
  shows "finish (\<lambda>t. t\<lparr>t_status := - ESTALE\<rparr>) a (idr_remove seq c) =
    Some ((idr_remove seq c)\<lparr>objs := (objs c)(a := map_option stale (objs c a))\<rparr>)"
  using assms
  by (auto simp: awaited_def finish_def obj_upd_def idr_remove_def stale_def velocitor_ctrl_transaction_notify_def
      velocitor_ctrl_transaction_release_def split: option.splits)

lemma remove_inflight_all:
  assumes "distinct (map snd es)" and "list_all (awaited c) (map snd es)"
  shows "\<exists>d. remove_inflight es c = Some d \<and> inflight d = filter (\<lambda>p. fst p \<notin> fst ` set es) (inflight c)
     \<and> (\<forall>a. objs d a = (if a \<in> snd ` set es then map_option stale (objs c a) else objs c a)) \<and> rpdev d = rpdev c"
  using assms
proof (induction es arbitrary: c)
  case (Cons e es)
  obtain seq a where e: "e = (seq, a)" by fastforce
  define c' where "c' = (idr_remove seq c)\<lparr>objs := (objs c)(a := map_option stale (objs c a))\<rparr>"
  have step: "remove_inflight (e # es) c = remove_inflight es c'"
    using Cons.prems(2) finish_stale [of c a seq] by (simp add: e c'_def)
  have a: "a \<notin> snd ` set es" using Cons.prems(1) by (simp add: e)
  then have "list_all (awaited c') (map snd es)"
    using Cons.prems(2) by (auto simp: e list_all_iff awaited_def c'_def)
  then obtain d where "remove_inflight es c' = Some d" "inflight d = filter (\<lambda>p. fst p \<notin> fst ` set es) (inflight c')"
    "\<forall>b. objs d b = (if b \<in> snd ` set es then map_option stale (objs c' b) else objs c' b)" "rpdev d = rpdev c'"
    using Cons.IH [of c'] Cons.prems(1) by (auto simp: e)
  then show ?case using step a
    by (intro exI [of _ d]) (auto simp: e c'_def idr_remove_def conj_commute)
qed auto

text \<open>C36. Removing the channel releases every waiter: when each request in flight has its caller waiting, the
  removal ends with an empty table, and every one of those requests has been notified exactly once,
  has lost the table's reference and makes its waiter return \<open>-ESTALE\<close>; no other transaction is
  touched; and a request sent afterwards is refused with \<open>-ENODEV\<close>, whatever the transport would say.\<close>

theorem remove_wakes_waiters:
  assumes "distinct (map snd (inflight c))" and "list_all (awaited c) (map snd (inflight c))"
  shows "\<exists>d. velocitor_ctrl_rpmsg_remove c = Some d \<and> inflight d = []
     \<and> (\<forall>a \<in> snd ` set (inflight c). objs d a = map_option stale (objs c a) \<and> velocitor_ctrl_transaction_wait a d = Some (- ESTALE))
     \<and> (\<forall>a. a \<notin> snd ` set (inflight c) \<longrightarrow> objs d a = objs c a)
     \<and> (\<forall>res len a. send_post res len a d = Some (d, - ENODEV))"
proof -
  define c' where "c' = c\<lparr>rpdev := False, drvdata := False\<rparr>"
  have "list_all (awaited c') (map snd (inflight c))" using assms(2) by (simp add: list_all_iff awaited_def c'_def)
  from remove_inflight_all [OF assms(1) this] obtain d where
    d: "remove_inflight (inflight c) c' = Some d" "inflight d = filter (\<lambda>p. fst p \<notin> fst ` set (inflight c)) (inflight c')"
       "\<forall>a. objs d a = (if a \<in> snd ` set (inflight c) then map_option stale (objs c' a) else objs c' a)" "rpdev d = rpdev c'"
    by blast
  have "velocitor_ctrl_transaction_wait a d = Some (- ESTALE)" if "a \<in> snd ` set (inflight c)" for a
  proof -
    have "awaited c a" using assms(2) that by (auto simp: list_all_iff)
    then obtain t where "objs c a = Some t" "t_sync t" by (auto simp: awaited_def split: option.splits)
    then show ?thesis using d(3) that by (simp add: velocitor_ctrl_transaction_wait_def c'_def stale_def)
  qed
  moreover have "inflight d = []" using d(2) by (auto simp: c'_def filter_empty_conv)
  ultimately show ?thesis using d
    by (intro exI [of _ d]) (simp add: velocitor_ctrl_rpmsg_remove_def c'_def send_post_def)
qed

theorem remove_wakes_waiters_witness:
  "\<exists>d. velocitor_ctrl_rpmsg_remove stat_sent = Some d \<and> inflight d = [] \<and> velocitor_ctrl_transaction_wait 0 d = Some (- 116)"
proof -
  have e: "inflight stat_sent = [(7, 0)]" by (simp add: stat_sent_def)
  have "awaited stat_sent 0" by (simp add: awaited_def stat_sent_def stat_transaction_def)
  then show ?thesis using remove_wakes_waiters [of stat_sent] e by auto
qed

text \<open>A request that cannot be sent leaves nothing behind: when the channel is gone or the transport
  fails, the send returns that very error, having cancelled the transaction (its waiter would return
  \<open>-ECANCELED\<close>, notified once) and taken it out of the table, and the caller's release then frees it.\<close>

theorem failed_send_leaves_nothing:
  assumes "objs c a = None" and "idr_find (nat seq) c = None" and "0 \<le> seq"
    and "velocitor_ctrl_transaction_alloc (Some a) seq True c = (d, Inr a)"
    and "request_payload_len op \<noteq> None" and "\<not> rpdev c \<or> res \<noteq> 0"
    and "obj_upd a (\<lambda>t. t\<lparr>t_msg := (t_msg t)\<lparr>cm_op := op\<rparr>\<rparr>) d = Some e"
  shows "\<exists>f g u. velocitor_ctrl_transaction_send res a e = Some (f, if rpdev c then res else - ENODEV)
     \<and> objs f a = Some u \<and> t_status u = - ECANCELED \<and> t_notified u = 1
     \<and> velocitor_ctrl_transaction_release a f = Some g \<and> objs g = objs c \<and> set (inflight g) = set (inflight c)"
proof -
  obtain n where n: "request_payload_len op = Some n" using assms(5) by auto
  define t where "t = \<lparr>t_status = 0,
    t_msg = \<lparr>cm_seq = word_of_int seq, cm_op = op, cm_flags = 0, cm_status = 0, cm_reserved = 0\<rparr>,
    t_payload = replicate 16 0, t_answer = replicate 40 0, t_seq = nat seq, t_sync = True, t_notified = 0, t_refs = 1\<rparr>"
  have t: "t_refs t = 1" "t_notified t = 0" "t_sync t" "t_seq t = nat seq" "cm_op (t_msg t) = op" by (simp_all add: t_def)
  have e: "e = c\<lparr>inflight := insort_key fst (nat seq, a) (inflight c), objs := (objs c)(a := Some t)\<rparr>"
    using assms(3,4,7) by (auto simp: velocitor_ctrl_transaction_alloc_def Let_def obj_upd_def t_def)
  define err where "err = (if rpdev c then res else - ENODEV)"
  have err: "err \<noteq> 0" using assms(6) by (simp add: err_def)
  have found: "idr_find (nat seq) e \<noteq> None"
    by (simp add: e idr_find_def map_of_eq_None_iff set_insort_key)
  have old: "fst p \<noteq> nat seq" if "p \<in> set (inflight c)" for p
    using assms(2) that by (force simp: idr_find_def map_of_eq_None_iff)
  have idem: "(objs c)(a := None) = objs c" using assms(1) by (simp add: fun_upd_idem)
  define f where "f = c\<lparr>inflight := filter (\<lambda>p. fst p \<noteq> nat seq) (insort_key fst (nat seq, a) (inflight c)),
     objs := (objs c)(a := Some (t\<lparr>t_status := - ECANCELED, t_notified := 1, t_refs := 1\<rparr>))\<rparr>"
  have obj: "objs e a = Some t" by (simp add: e)
  define e' where "e' = e\<lparr>objs := (objs c)(a := Some (t\<lparr>t_refs := 2\<rparr>))\<rparr>"
  have get: "send_get a e = Some e'" using t by (simp add: send_get_def obj_upd_def e'_def e numeral_2_eq_2)
  have post: "send_post res n a e' = Some (e', err)" using assms(6) by (auto simp: send_post_def e'_def err_def e)
  have cancel: "velocitor_ctrl_transaction_cancel a e' = Some f"
    using found t
    by (auto simp: velocitor_ctrl_transaction_cancel_def cancel_claim_def e'_def finish_def obj_upd_def f_def e idr_remove_def
        idr_find_def velocitor_ctrl_transaction_notify_def velocitor_ctrl_transaction_release_def)
  have "velocitor_ctrl_transaction_send res a e = Some (f, err)"
    unfolding velocitor_ctrl_transaction_send_def obj option.case t(5) n get bind.bind_lunit post prod.case cancel
    using err by simp
  moreover have "velocitor_ctrl_transaction_release a f = Some (velocitor_ctrl_transaction_free a f)"
    by (simp add: velocitor_ctrl_transaction_release_def f_def)
  moreover have "objs (velocitor_ctrl_transaction_free a f) = objs c"
    using idem by (simp add: velocitor_ctrl_transaction_free_def f_def)
  moreover have "set (inflight (velocitor_ctrl_transaction_free a f)) = set (inflight c)"
    by (auto simp: velocitor_ctrl_transaction_free_def f_def set_insort_key dest: old)
  moreover have "objs f a = Some (t\<lparr>t_status := - ECANCELED, t_notified := 1, t_refs := 1\<rparr>)" by (simp add: f_def)
  ultimately show ?thesis
    by (intro exI [of _ f] exI [of _ "velocitor_ctrl_transaction_free a f"]
        exI [of _ "t\<lparr>t_status := - ECANCELED, t_notified := 1, t_refs := 1\<rparr>"])
      (simp add: err_def)
qed

theorem failed_send_leaves_nothing_witness:
  "\<exists>e f u. obj_upd 5 (\<lambda>t. t\<lparr>t_msg := (t_msg t)\<lparr>cm_op := 4\<rparr>\<rparr>)
       (fst (velocitor_ctrl_transaction_alloc (Some 5) 1 True velocitor_ctrl_zero)) = Some e
     \<and> velocitor_ctrl_transaction_send 0 5 e = Some (f, - 19) \<and> objs f 5 = Some u \<and> t_status u = - 125"
proof -
  define d where "d = fst (velocitor_ctrl_transaction_alloc (Some 5) 1 True velocitor_ctrl_zero)"
  have d: "velocitor_ctrl_transaction_alloc (Some 5) 1 True velocitor_ctrl_zero = (d, Inr 5)"
    by (simp add: d_def velocitor_ctrl_transaction_alloc_def Let_def)
  obtain e where e: "obj_upd 5 (\<lambda>t. t\<lparr>t_msg := (t_msg t)\<lparr>cm_op := 4\<rparr>\<rparr>) d = Some e"
    by (simp add: d_def velocitor_ctrl_transaction_alloc_def Let_def obj_upd_def)
  from failed_send_leaves_nothing [OF _ _ _ d _ _ e, of 0] obtain f u where
    "velocitor_ctrl_transaction_send 0 5 e = Some (f, - 19)" "objs f 5 = Some u" "t_status u = - 125"
    by (auto simp: velocitor_ctrl_zero_def idr_find_def request_payload_len_def)
  then show ?thesis using e by (auto simp: d_def)
qed

end
