(* ===== verification/Drv_Ctrl_Run.thy ===== *)
theory Drv_Ctrl_Run
  imports Drv_Ctrl
begin

text \<open>
  The control channel under concurrency: callers of \<open>ctrl-transaction.c\<close>, the answer callback and the
  removal of the channel, interleaved at the pieces \<open>Drv_Ctrl\<close> cuts them into. A caller is where it
  is in \<open>alloc\<close>, \<open>send\<close>, \<open>wait\<close>, \<open>release\<close>; a claim is an entry someone took out of the IDR
  and has still to notify (\<open>Some False\<close>) or to release (\<open>Some True\<close>).
\<close>

datatype phase = Allocated | Referenced | Failed | Posted | Leaving

record ctrl_sys =
  ctl :: velocitor_ctrl
  callers :: "nat \<Rightarrow> phase option"
  claims :: "nat \<Rightarrow> bool option"

datatype settle = Answered bytes | Stale | Canceled

fun settled :: "settle \<Rightarrow> transaction \<Rightarrow> transaction" where
  "settled (Answered data) t = answer_transaction data t"
| "settled Stale t = t\<lparr>t_status := - ESTALE\<rparr>"
| "settled Canceled t = t\<lparr>t_status := - ECANCELED\<rparr>"

datatype action =
    Bind bool
  | New nat int bool u16 bytes
  | Get nat
  | Post nat int
  | Cancel nat
  | Claim nat nat
  | Settle nat settle
  | Drop nat
  | Wake nat
  | Release nat

definition in_flight :: "velocitor_ctrl \<Rightarrow> nat \<Rightarrow> bool" where
  "in_flight c a \<longleftrightarrow> a \<in> snd ` set (inflight c)"

text \<open>When a thread can take the step, \<open>kzalloc\<close> and the IDR answering only with what is free.\<close>

fun enabled :: "action \<Rightarrow> ctrl_sys \<Rightarrow> bool" where
  "enabled (Bind b) s \<longleftrightarrow> True"
| "enabled (New a seq sync op payload) s \<longleftrightarrow>
     objs (ctl s) a = None \<and> 1 \<le> seq \<and> seq < 2 ^ 31 \<and> idr_find (nat seq) (ctl s) = None"
| "enabled (Get a) s \<longleftrightarrow> callers s a = Some Allocated"
| "enabled (Post a res) s \<longleftrightarrow> callers s a = Some Referenced"
| "enabled (Cancel a) s \<longleftrightarrow> callers s a = Some Failed"
| "enabled (Claim seq a) s \<longleftrightarrow> idr_find seq (ctl s) = Some a"
| "enabled (Settle a how) s \<longleftrightarrow> claims s a = Some False"
| "enabled (Drop a) s \<longleftrightarrow> claims s a = Some True"
| "enabled (Wake a) s \<longleftrightarrow> callers s a = Some Posted \<and>
     (case objs (ctl s) a of None \<Rightarrow> True | Some t \<Rightarrow> t_sync t \<longrightarrow> 0 < t_notified t)"
| "enabled (Release a) s \<longleftrightarrow> callers s a = Some Leaving"

definition move :: "nat \<Rightarrow> phase option \<Rightarrow> ctrl_sys \<Rightarrow> ctrl_sys" where
  "move a ph s = s\<lparr>callers := (callers s)(a := ph)\<rparr>"

definition claim :: "nat \<Rightarrow> bool option \<Rightarrow> ctrl_sys \<Rightarrow> ctrl_sys" where
  "claim a x s = s\<lparr>claims := (claims s)(a := x)\<rparr>"

text \<open>The step; \<open>None\<close> is the access to a freed transaction.\<close>

fun perform :: "action \<Rightarrow> ctrl_sys \<Rightarrow> ctrl_sys option" where
  "perform (Bind b) s = Some (s\<lparr>ctl := (ctl s)\<lparr>rpdev := b, drvdata := b\<rparr>\<rparr>)"
| "perform (New a seq sync op payload) s =
     (case velocitor_ctrl_transaction_alloc (Some a) seq sync (ctl s) of
        (c, Inl err) \<Rightarrow> Some (s\<lparr>ctl := c\<rparr>)
      | (c, Inr a) \<Rightarrow>
          map_option (\<lambda>c. move a (Some Allocated) (s\<lparr>ctl := c\<rparr>))
            (obj_upd a (\<lambda>t. t\<lparr>t_msg := (t_msg t)\<lparr>cm_op := op\<rparr>, t_payload := payload\<rparr>) c))"
| "perform (Get a) s =
     (case objs (ctl s) a of
        None \<Rightarrow> None
      | Some t \<Rightarrow>
          if request_payload_len (cm_op (t_msg t)) = None then Some (move a (Some Leaving) s)
          else map_option (\<lambda>c. move a (Some Referenced) (s\<lparr>ctl := c\<rparr>)) (send_get a (ctl s)))"
| "perform (Post a res) s =
     (case objs (ctl s) a of
        None \<Rightarrow> None
      | Some t \<Rightarrow>
          map_option (\<lambda>(c, err). move a (Some (if err \<noteq> 0 then Failed else Posted)) (s\<lparr>ctl := c\<rparr>))
            (send_post res (the (request_payload_len (cm_op (t_msg t)))) a (ctl s)))"
| "perform (Cancel a) s =
     map_option (\<lambda>(c, claimed).
         let s = move a (Some Leaving) (s\<lparr>ctl := c\<rparr>) in if claimed then claim a (Some False) s else s)
       (cancel_claim a (ctl s))"
| "perform (Claim seq a) s = Some (claim a (Some False) (s\<lparr>ctl := idr_remove seq (ctl s)\<rparr>))"
| "perform (Settle a how) s =
     map_option (\<lambda>c. claim a (Some True) (s\<lparr>ctl := c\<rparr>))
       (Option.bind (obj_upd a (settled how) (ctl s)) (velocitor_ctrl_transaction_notify a))"
| "perform (Drop a) s =
     map_option (\<lambda>c. claim a None (s\<lparr>ctl := c\<rparr>)) (velocitor_ctrl_transaction_release a (ctl s))"
| "perform (Wake a) s = (case objs (ctl s) a of None \<Rightarrow> None | Some t \<Rightarrow> Some (move a (Some Leaving) s))"
| "perform (Release a) s =
     map_option (\<lambda>c. move a None (s\<lparr>ctl := c\<rparr>)) (velocitor_ctrl_transaction_release a (ctl s))"

definition sys_init :: ctrl_sys where
  "sys_init = \<lparr>ctl = velocitor_ctrl_zero, callers = (\<lambda>_. None), claims = (\<lambda>_. None)\<rparr>"

definition ctrl_step :: "ctrl_sys \<Rightarrow> action \<Rightarrow> ctrl_sys \<Rightarrow> bool" where
  "ctrl_step s l t \<longleftrightarrow> enabled l s \<and> perform l s = Some t"

text \<open>
  Orderly steps: a transaction is given a known operation and an id no live transaction still carries
  (the IDR hands ids out cyclically, so one returns only after all others), and nobody claims it
  between its allocation and the reference \<open>send\<close> takes.
\<close>

fun orderly :: "action \<Rightarrow> ctrl_sys \<Rightarrow> bool" where
  "orderly (New a seq sync op payload) s \<longleftrightarrow>
     request_payload_len op \<noteq> None \<and> (\<forall>b. case objs (ctl s) b of None \<Rightarrow> True | Some t \<Rightarrow> t_seq t \<noteq> nat seq)"
| "orderly (Claim seq a) s \<longleftrightarrow> callers s a \<noteq> Some Allocated"
| "orderly _ s \<longleftrightarrow> True"

definition orderly_step :: "ctrl_sys \<Rightarrow> action \<Rightarrow> ctrl_sys \<Rightarrow> bool" where
  "orderly_step s l t \<longleftrightarrow> ctrl_step s l t \<and> orderly l s"

section \<open>The invariant\<close>

definition local_good :: "transaction option \<Rightarrow> bool \<Rightarrow> bool option \<Rightarrow> phase option \<Rightarrow> bool" where
  "local_good obj flying cl ph =
     (case obj of
        None \<Rightarrow> ph = None \<and> \<not> flying \<and> cl = None
      | Some t \<Rightarrow>
          t_refs t = (if ph = None then 0 else 1) + (if cl \<noteq> None \<or> flying \<and> ph \<noteq> Some Allocated then 1 else 0)
          \<and> (flying \<longrightarrow> cl = None) \<and> (ph = Some Allocated \<longrightarrow> flying) \<and> (ph \<noteq> None \<or> flying \<or> cl \<noteq> None)
          \<and> t_notified t = (if flying \<or> cl = Some False then 0 else 1)
          \<and> request_payload_len (cm_op (t_msg t)) \<noteq> None)"

definition ids_good :: "velocitor_ctrl \<Rightarrow> bool" where
  "ids_good c \<longleftrightarrow> distinct (map fst (inflight c))
     \<and> (\<forall>seq a. (seq, a) \<in> set (inflight c) \<longrightarrow> map_option t_seq (objs c a) = Some seq)
     \<and> (\<forall>a b t u. objs c a = Some t \<and> objs c b = Some u \<and> t_seq t = t_seq u \<longrightarrow> a = b)"

definition sys_good :: "ctrl_sys \<Rightarrow> bool" where
  "sys_good s \<longleftrightarrow> ids_good (ctl s) \<and> (\<forall>a. local_good (objs (ctl s) a) (in_flight (ctl s) a) (claims s a) (callers s a))"

lemma init_good: "sys_good sys_init"
  by (simp add: sys_good_def ids_good_def local_good_def sys_init_def velocitor_ctrl_zero_def in_flight_def)

text \<open>Taking an entry out by its id takes out exactly the transaction that carries it.\<close>

lemma ids_entry: "\<lbrakk>ids_good c; (seq, a) \<in> set (inflight c)\<rbrakk> \<Longrightarrow> \<exists>t. objs c a = Some t \<and> t_seq t = seq"
  by (auto simp: ids_good_def)

lemma ids_inj: "\<lbrakk>ids_good c; objs c a = Some t; objs c b = Some u; t_seq t = t_seq u\<rbrakk> \<Longrightarrow> a = b"
  unfolding ids_good_def by blast

lemma idr_remove_in_flight:
  assumes "ids_good c" and "objs c a = Some t"
  shows "in_flight (idr_remove (t_seq t) c) b \<longleftrightarrow> in_flight c b \<and> b \<noteq> a"
proof -
  have "b \<noteq> a \<longleftrightarrow> seq \<noteq> t_seq t" if e: "(seq, b) \<in> set (inflight c)" for seq
  proof -
    obtain u where u: "objs c b = Some u" "t_seq u = seq" using ids_entry [OF assms(1) e] by auto
    then show ?thesis using ids_inj [OF assms(1) u(1) assms(2)] assms(2) by auto
  qed
  then show ?thesis by (force simp: in_flight_def idr_remove_def)
qed

lemma idr_find_in_flight:
  assumes "ids_good c" and "objs c a = Some t"
  shows "idr_find (t_seq t) c \<noteq> None \<longleftrightarrow> in_flight c a"
proof
  assume "idr_find (t_seq t) c \<noteq> None"
  then obtain b where b: "(t_seq t, b) \<in> set (inflight c)" by (auto simp: idr_find_def dest: map_of_SomeD)
  then have "b = a" using ids_entry [OF assms(1) b] ids_inj [OF assms(1) _ assms(2)] by auto
  with b show "in_flight c a" by (force simp: in_flight_def)
next
  assume "in_flight c a"
  then obtain seq where e: "(seq, a) \<in> set (inflight c)" by (auto simp: in_flight_def)
  then have "seq = t_seq t" using ids_entry [OF assms(1) e] assms(2) by simp
  with e have "t_seq t \<in> fst ` set (inflight c)" by force
  then show "idr_find (t_seq t) c \<noteq> None" by (simp add: idr_find_def map_of_eq_None_iff)
qed

lemma ids_good_remove: "ids_good c \<Longrightarrow> ids_good (idr_remove seq c)"
  by (auto simp: ids_good_def idr_remove_def distinct_map_filter)

lemma ids_good_upd:
  assumes "ids_good c" and "objs c a = Some t" and "t_seq t' = t_seq t"
  shows "ids_good (c\<lparr>objs := (objs c)(a := Some t')\<rparr>)"
proof -
  let ?f = "(objs c)(a := Some t')"
  have old: "\<exists>v'. objs c x = Some v' \<and> t_seq v' = t_seq v" if "?f x = Some v" for x v
    using that assms(2,3) by (auto split: if_splits)
  have "\<forall>seq x. (seq, x) \<in> set (inflight c) \<longrightarrow> map_option t_seq (?f x) = Some seq"
    using ids_entry [OF assms(1)] assms(2,3) by fastforce
  moreover have "\<forall>x y v w. ?f x = Some v \<and> ?f y = Some w \<and> t_seq v = t_seq w \<longrightarrow> x = y"
    using old ids_inj [OF assms(1)] by metis
  moreover have "distinct (map fst (inflight c))" using assms(1) by (simp add: ids_good_def)
  moreover have "objs (c\<lparr>objs := ?f\<rparr>) = ?f" "inflight (c\<lparr>objs := ?f\<rparr>) = inflight c" by simp_all
  ultimately show ?thesis unfolding ids_good_def by (simp only:)
qed

lemma ids_good_free: "\<lbrakk>ids_good c; \<not> in_flight c a\<rbrakk> \<Longrightarrow> ids_good (c\<lparr>objs := (objs c)(a := None)\<rparr>)"
  by (force simp: ids_good_def in_flight_def split: if_splits)

lemma in_flight_objs [simp]: "in_flight (c\<lparr>objs := f\<rparr>) a = in_flight c a"
  by (simp add: in_flight_def)

section \<open>Every orderly step keeps it\<close>

lemma answer_keeps:
  "t_refs (settled how t) = t_refs t" "t_seq (settled how t) = t_seq t" "t_notified (settled how t) = t_notified t"
  "t_msg (settled how t) = t_msg t" "t_sync (settled how t) = t_sync t"
  by (cases how; simp add: answer_transaction_def Let_def split: option.split)+

text \<open>A step that touches one transaction: the invariant needs checking there only.\<close>

lemma sys_good_at:
  assumes "sys_good s" and "ids_good (ctl t)"
    and "\<And>b. b \<noteq> a \<Longrightarrow> objs (ctl t) b = objs (ctl s) b \<and> in_flight (ctl t) b = in_flight (ctl s) b
           \<and> claims t b = claims s b \<and> callers t b = callers s b"
    and "local_good (objs (ctl t) a) (in_flight (ctl t) a) (claims t a) (callers t a)"
  shows "sys_good t"
  unfolding sys_good_def
proof (intro conjI allI)
  fix b
  show "local_good (objs (ctl t) b) (in_flight (ctl t) b) (claims t b) (callers t b)"
    using assms(1,3,4) by (cases "b = a") (simp_all add: sys_good_def)
qed (rule assms(2))

lemma local_at: "sys_good s \<Longrightarrow> local_good (objs (ctl s) a) (in_flight (ctl s) a) (claims s a) (callers s a)"
  by (simp add: sys_good_def)

lemma release_cases:
  assumes "velocitor_ctrl_transaction_release a c = Some c'" and "objs c a = Some t"
  shows "c' = c\<lparr>objs := (objs c)(a := if t_refs t = 1 then None else Some (t\<lparr>t_refs := t_refs t - 1\<rparr>))\<rparr>"
  using assms by (auto simp: velocitor_ctrl_transaction_release_def velocitor_ctrl_transaction_free_def obj_upd_def)

lemma notify_cases:
  assumes "velocitor_ctrl_transaction_notify a c = Some c'" and "objs c a = Some t"
  shows "\<exists>i v. c' = c\<lparr>objs := (objs c)(a := Some (t\<lparr>t_notified := t_notified t + 1\<rparr>)), info := i, info_valid := v\<rparr>"
proof -
  define d where "d = (if t_sync t then c else velocitor_ctrl_oninfo t c)"
  have d: "objs d = objs c" "inflight d = inflight c" "rpdev d = rpdev c" "drvdata d = drvdata c" "sent d = sent c"
    by (simp_all add: d_def velocitor_ctrl_oninfo_def)
  have "c' = d\<lparr>objs := (objs c)(a := Some (t\<lparr>t_notified := t_notified t + 1\<rparr>))\<rparr>"
    using assms d(1) by (simp add: velocitor_ctrl_transaction_notify_def obj_upd_def d_def [symmetric])
  also have "\<dots> = c\<lparr>objs := (objs c)(a := Some (t\<lparr>t_notified := t_notified t + 1\<rparr>)), info := info d, info_valid := info_valid d\<rparr>"
    using d by (intro velocitor_ctrl.equality) simp_all
  finally show ?thesis by blast
qed

section \<open>Steps\<close>

lemma ids_good_cong: "\<lbrakk>inflight d = inflight c; objs d = objs c\<rbrakk> \<Longrightarrow> ids_good d = ids_good c"
  by (simp add: ids_good_def)

lemma in_flight_cong: "inflight d = inflight c \<Longrightarrow> in_flight d a = in_flight c a"
  by (simp add: in_flight_def)

lemma idr_remove_simps [simp]: "objs (idr_remove seq c) = objs c" "rpdev (idr_remove seq c) = rpdev c"
  by (simp_all add: idr_remove_def)

lemma step_simps [simp]:
  "ctl (move a ph s) = ctl s" "claims (move a ph s) = claims s" "callers (move a ph s) = (callers s)(a := ph)"
  "ctl (claim a x s) = ctl s" "claims (claim a x s) = (claims s)(a := x)" "callers (claim a x s) = callers s"
  by (simp_all add: move_def claim_def)

lemma bind_good: "sys_good s \<Longrightarrow> sys_good (s\<lparr>ctl := (ctl s)\<lparr>rpdev := b, drvdata := b\<rparr>\<rparr>)"
  by (simp add: sys_good_def ids_good_def in_flight_def)

lemma new_good:
  assumes "sys_good s" and "enabled (New a seq sync op payload) s" and "orderly (New a seq sync op payload) s"
    and "perform (New a seq sync op payload) s = Some t"
  shows "sys_good t"
proof (rule sys_good_at [OF assms(1), of _ a])
  have ids: "ids_good (ctl s)" using assms(1) by (simp add: sys_good_def)
  have fresh: "objs (ctl s) a = None" "nat seq \<notin> fst ` set (inflight (ctl s))"
    using assms(2) by (simp_all add: idr_find_def map_of_eq_None_iff)
  have gone: "callers s a = None" "\<not> in_flight (ctl s) a" "claims s a = None"
    using local_at [OF assms(1), of a] fresh by (simp_all add: local_good_def)
  define x where "x = \<lparr>t_status = 0,
    t_msg = \<lparr>cm_seq = word_of_int seq, cm_op = op, cm_flags = 0, cm_status = 0, cm_reserved = 0\<rparr>,
    t_payload = payload, t_answer = replicate 40 0, t_seq = nat seq, t_sync = sync, t_notified = 0, t_refs = 1\<rparr>"
  have x: "t_refs x = 1" "t_notified x = 0" "t_seq x = nat seq" "cm_op (t_msg x) = op" by (simp_all add: x_def)
  have t: "t = move a (Some Allocated)
      (s\<lparr>ctl := (ctl s)\<lparr>inflight := insort_key fst (nat seq, a) (inflight (ctl s)), objs := (objs (ctl s))(a := Some x)\<rparr>\<rparr>)"
    using assms(2,4) by (simp add: velocitor_ctrl_transaction_alloc_def Let_def obj_upd_def x_def)
  have unused: "t_seq u \<noteq> nat seq" if "objs (ctl s) b = Some u" for b u
    using assms(3) that by (auto dest!: spec [of _ b])
  show "ids_good (ctl t)"
    unfolding ids_good_def
  proof (intro conjI allI impI)
    show "distinct (map fst (inflight (ctl t)))"
      using ids fresh(2) by (simp add: t distinct_insort_key ids_good_def)
  next
    fix i b assume "(i, b) \<in> set (inflight (ctl t))"
    then have "(i, b) = (nat seq, a) \<or> (i, b) \<in> set (inflight (ctl s))" by (auto simp: t set_insort_key)
    then show "map_option t_seq (objs (ctl t) b) = Some i"
      using ids_entry [OF ids, of i b] fresh(1) x(3) by (auto simp: t)
  next
    fix b d v w assume "objs (ctl t) b = Some v \<and> objs (ctl t) d = Some w \<and> t_seq v = t_seq w"
    then show "b = d" using ids_inj [OF ids, of b v d w] unused [of b v] unused [of d w] x(3)
      by (auto simp: t split: if_splits)
  qed
  show "local_good (objs (ctl t) a) (in_flight (ctl t) a) (claims t a) (callers t a)"
    using gone x assms(3) by (simp add: t local_good_def in_flight_def set_insort_key)
  show "objs (ctl t) b = objs (ctl s) b \<and> in_flight (ctl t) b = in_flight (ctl s) b
      \<and> claims t b = claims s b \<and> callers t b = callers s b" if "b \<noteq> a" for b
    using that by (auto simp: t in_flight_def set_insort_key)
qed

text \<open>Steps that rewrite the record of one transaction, and where its threads are.\<close>

lemma upd_good:
  assumes "sys_good s" and "objs (ctl s) a = Some x" and "t_seq y = t_seq x"
    and "inflight (ctl t) = inflight (ctl s)" and "objs (ctl t) = (objs (ctl s))(a := Some y)"
    and "\<And>b. b \<noteq> a \<Longrightarrow> claims t b = claims s b \<and> callers t b = callers s b"
    and "local_good (Some y) (in_flight (ctl s) a) (claims t a) (callers t a)"
  shows "sys_good t"
proof (rule sys_good_at [OF assms(1), of _ a])
  have ids: "ids_good (ctl s)" using assms(1) by (simp add: sys_good_def)
  have "ids_good (ctl t) = ids_good ((ctl s)\<lparr>objs := (objs (ctl s))(a := Some y)\<rparr>)"
    by (rule ids_good_cong) (simp_all add: assms(4,5))
  then show "ids_good (ctl t)" using ids_good_upd [OF ids assms(2,3)] by simp
qed (use assms(5,6,7) in_flight_cong [OF assms(4)] in simp_all)

lemma get_good:
  assumes "sys_good s" and "enabled (Get a) s" and "perform (Get a) s = Some t"
  shows "sys_good t"
proof -
  obtain x where x: "objs (ctl s) a = Some x" using assms(3) by (auto split: option.splits)
  note l = local_at [OF assms(1), of a]
  have op: "request_payload_len (cm_op (t_msg x)) \<noteq> None" using l x by (simp add: local_good_def)
  then have t: "t = move a (Some Referenced) (s\<lparr>ctl := (ctl s)\<lparr>objs := (objs (ctl s))(a := Some (x\<lparr>t_refs := t_refs x + 1\<rparr>))\<rparr>\<rparr>)"
    using assms(3) x by (auto simp: send_get_def obj_upd_def)
  show ?thesis
    by (rule upd_good [OF assms(1) x, of "x\<lparr>t_refs := t_refs x + 1\<rparr>"])
      (use l x assms(2) in \<open>auto simp: t local_good_def\<close>)
qed

lemma post_good:
  assumes "sys_good s" and "enabled (Post a res) s" and "perform (Post a res) s = Some t"
  shows "sys_good t"
proof -
  obtain x where x: "objs (ctl s) a = Some x" using assms(3) by (auto split: option.splits)
  note l = local_at [OF assms(1), of a]
  obtain c err where p: "send_post res (the (request_payload_len (cm_op (t_msg x)))) a (ctl s) = Some (c, err)"
    and t: "t = move a (Some (if err \<noteq> 0 then Failed else Posted)) (s\<lparr>ctl := c\<rparr>)"
    using assms(3) x by auto
  have c: "objs c = objs (ctl s)" "inflight c = inflight (ctl s)"
    using p x by (auto simp: send_post_def split: if_splits)
  show ?thesis
    by (rule upd_good [OF assms(1) x refl]) (use l x c assms(2) in \<open>auto simp: t local_good_def\<close>)
qed

lemma wake_good:
  assumes "sys_good s" and "enabled (Wake a) s" and "perform (Wake a) s = Some t"
  shows "sys_good t"
proof -
  obtain x where x: "objs (ctl s) a = Some x" and t: "t = move a (Some Leaving) s"
    using assms(3) by (auto split: option.splits)
  show ?thesis
    by (rule upd_good [OF assms(1) x refl])
      (use local_at [OF assms(1), of a] x assms(2) in \<open>auto simp: t local_good_def\<close>)
qed

lemma settle_good:
  assumes "sys_good s" and "enabled (Settle a how) s" and "perform (Settle a how) s = Some t"
  shows "sys_good t"
proof -
  obtain x where x: "objs (ctl s) a = Some x" using assms(3) by (auto simp: obj_upd_def split: option.splits)
  obtain c where n: "velocitor_ctrl_transaction_notify a ((ctl s)\<lparr>objs := (objs (ctl s))(a := Some (settled how x))\<rparr>) = Some c"
    and t: "t = claim a (Some True) (s\<lparr>ctl := c\<rparr>)"
    using assms(3) x by (auto simp: obj_upd_def)
  obtain i v where c: "c = (ctl s)\<lparr>objs := (objs (ctl s))(a := Some ((settled how x)\<lparr>t_notified := t_notified x + 1\<rparr>)),
      info := i, info_valid := v\<rparr>"
    using notify_cases [OF n] by (auto simp: answer_keeps)
  show ?thesis
    by (rule upd_good [OF assms(1) x, of "(settled how x)\<lparr>t_notified := t_notified x + 1\<rparr>"])
      (use local_at [OF assms(1), of a] x assms(2) in \<open>auto simp: t c local_good_def answer_keeps\<close>)
qed

text \<open>Steps that take an entry out of the IDR.\<close>

lemma take_good:
  assumes "sys_good s" and "objs (ctl s) a = Some x"
    and "ctl t = idr_remove (t_seq x) (ctl s)"
    and "\<And>b. b \<noteq> a \<Longrightarrow> claims t b = claims s b \<and> callers t b = callers s b"
    and "local_good (Some x) False (claims t a) (callers t a)"
  shows "sys_good t"
proof (rule sys_good_at [OF assms(1), of _ a])
  have ids: "ids_good (ctl s)" using assms(1) by (simp add: sys_good_def)
  then show "ids_good (ctl t)" by (simp add: assms(3) ids_good_remove)
  note f = idr_remove_in_flight [OF ids assms(2)]
  show "local_good (objs (ctl t) a) (in_flight (ctl t) a) (claims t a) (callers t a)"
    using assms(2,5) by (simp add: assms(3) f)
  show "objs (ctl t) b = objs (ctl s) b \<and> in_flight (ctl t) b = in_flight (ctl s) b
      \<and> claims t b = claims s b \<and> callers t b = callers s b" if "b \<noteq> a" for b
    using that assms(4) by (simp add: assms(3) f)
qed

lemma cancel_good:
  assumes "sys_good s" and "enabled (Cancel a) s" and "perform (Cancel a) s = Some t"
  shows "sys_good t"
proof -
  obtain x where x: "objs (ctl s) a = Some x" using assms(3) by (auto simp: cancel_claim_def split: option.splits)
  have ids: "ids_good (ctl s)" using assms(1) by (simp add: sys_good_def)
  note l = local_at [OF assms(1), of a]
  define u where "u = move a (Some Leaving) (s\<lparr>ctl := idr_remove (t_seq x) (ctl s)\<rparr>)"
  have t: "t = (if in_flight (ctl s) a then claim a (Some False) u else u)"
    using assms(3) x idr_find_in_flight [OF ids x] by (auto simp: cancel_claim_def Let_def u_def)
  have u: "ctl t = idr_remove (t_seq x) (ctl s)" by (simp add: t u_def)
  show ?thesis
    by (rule take_good [OF assms(1) x u])
      (use l x assms(2) in \<open>auto simp: t u_def local_good_def\<close>)
qed

lemma claim_good:
  assumes "sys_good s" and "enabled (Claim seq a) s" and "orderly (Claim seq a) s" and "perform (Claim seq a) s = Some t"
  shows "sys_good t"
proof -
  have e: "(seq, a) \<in> set (inflight (ctl s))" using assms(2) by (auto simp: idr_find_def dest: map_of_SomeD)
  then have fly: "in_flight (ctl s) a" by (force simp: in_flight_def)
  have "ids_good (ctl s)" using assms(1) by (simp add: sys_good_def)
  with e obtain x where x: "objs (ctl s) a = Some x" "t_seq x = seq" using ids_entry by blast
  have t: "t = claim a (Some False) (s\<lparr>ctl := idr_remove (t_seq x) (ctl s)\<rparr>)" using assms(4) x(2) by simp
  show ?thesis
    by (rule take_good [OF assms(1) x(1)])
      (use local_at [OF assms(1), of a] x assms(3) fly in \<open>auto simp: t local_good_def\<close>)
qed

text \<open>Steps that give a reference back.\<close>

lemma put_good:
  assumes "sys_good s" and "objs (ctl s) a = Some x" and "velocitor_ctrl_transaction_release a (ctl s) = Some c"
    and "ctl t = c" and "\<And>b. b \<noteq> a \<Longrightarrow> claims t b = claims s b \<and> callers t b = callers s b"
    and "local_good (if t_refs x = 1 then None else Some (x\<lparr>t_refs := t_refs x - 1\<rparr>)) (in_flight (ctl s) a) (claims t a) (callers t a)"
  shows "sys_good t"
proof (cases "t_refs x = 1")
  case False
  show ?thesis
    by (rule upd_good [OF assms(1,2), of "x\<lparr>t_refs := t_refs x - 1\<rparr>"])
      (use False assms release_cases [OF assms(3,2)] in simp_all)
next
  case True
  have c: "ctl t = (ctl s)\<lparr>objs := (objs (ctl s))(a := None)\<rparr>"
    using True assms(4) release_cases [OF assms(3,2)] by simp
  have "\<not> in_flight (ctl s) a" using True assms(6) by (simp add: local_good_def)
  then have "ids_good (ctl t)" using assms(1) by (simp add: c ids_good_free sys_good_def)
  then show ?thesis
    by (rule sys_good_at [OF assms(1), of _ a]) (use True assms(5,6) in \<open>simp_all add: c\<close>)
qed

lemma drop_good:
  assumes "sys_good s" and "enabled (Drop a) s" and "perform (Drop a) s = Some t"
  shows "sys_good t"
proof -
  obtain c where r: "velocitor_ctrl_transaction_release a (ctl s) = Some c" and t: "t = claim a None (s\<lparr>ctl := c\<rparr>)"
    using assms(3) by auto
  obtain x where x: "objs (ctl s) a = Some x"
    using r by (auto simp: velocitor_ctrl_transaction_release_def split: option.splits)
  show ?thesis
    by (rule put_good [OF assms(1) x r])
      (use local_at [OF assms(1), of a] x assms(2) in \<open>auto simp: t local_good_def split: if_splits\<close>)
qed

lemma release_good:
  assumes "sys_good s" and "enabled (Release a) s" and "perform (Release a) s = Some t"
  shows "sys_good t"
proof -
  obtain c where r: "velocitor_ctrl_transaction_release a (ctl s) = Some c" and t: "t = move a None (s\<lparr>ctl := c\<rparr>)"
    using assms(3) by auto
  obtain x where x: "objs (ctl s) a = Some x"
    using r by (auto simp: velocitor_ctrl_transaction_release_def split: option.splits)
  show ?thesis
    by (rule put_good [OF assms(1) x r])
      (use local_at [OF assms(1), of a] x assms(2) in \<open>auto simp: t local_good_def split: if_splits\<close>)
qed

lemma step_sys_good: "\<lbrakk>sys_good s; orderly_step s l t\<rbrakk> \<Longrightarrow> sys_good t"
  unfolding orderly_step_def ctrl_step_def
  by (cases l)
    (auto simp del: enabled.simps perform.simps orderly.simps
      intro: new_good get_good post_good cancel_good claim_good settle_good drop_good wake_good release_good
      simp: perform.simps(1) bind_good)

text \<open>In a good system no thread that can go on finds its transaction freed.\<close>

lemma enabled_alive:
  assumes "sys_good s" and "enabled l s"
  shows "perform l s \<noteq> None"
proof -
  have alive: "objs (ctl s) a \<noteq> None" if "callers s a \<noteq> None \<or> claims s a \<noteq> None" for a
    using local_at [OF assms(1), of a] that by (auto simp: local_good_def split: option.splits)
  have notify: "velocitor_ctrl_transaction_notify a c \<noteq> None" if "objs c a \<noteq> None" for a c
    using that by (auto simp: velocitor_ctrl_transaction_notify_def velocitor_ctrl_oninfo_def obj_upd_def)
  show ?thesis
  proof (cases l)
    case (New a seq sync op payload)
    then show ?thesis using assms(2) by (simp add: velocitor_ctrl_transaction_alloc_def Let_def obj_upd_def)
  next
    case (Get a)
    then obtain x where "objs (ctl s) a = Some x" using assms(2) alive [of a] by auto
    then show ?thesis using Get by (simp add: send_get_def obj_upd_def)
  next
    case (Post a res)
    then obtain x where "objs (ctl s) a = Some x" using assms(2) alive [of a] by auto
    then show ?thesis using Post by (simp add: send_post_def)
  next
    case (Cancel a)
    then obtain x where "objs (ctl s) a = Some x" using assms(2) alive [of a] by auto
    then show ?thesis using Cancel by (simp add: cancel_claim_def Let_def)
  next
    case (Settle a how)
    then obtain x where "objs (ctl s) a = Some x" using assms(2) alive [of a] by auto
    then show ?thesis using Settle notify [of _ a] by (simp add: obj_upd_def)
  next
    case (Drop a)
    then obtain x where "objs (ctl s) a = Some x" using assms(2) alive [of a] by auto
    then show ?thesis using Drop by (simp add: velocitor_ctrl_transaction_release_def obj_upd_def)
  next
    case (Wake a)
    then obtain x where "objs (ctl s) a = Some x" using assms(2) alive [of a] by auto
    then show ?thesis using Wake by simp
  next
    case (Release a)
    then obtain x where "objs (ctl s) a = Some x" using assms(2) alive [of a] by auto
    then show ?thesis using Release by (simp add: velocitor_ctrl_transaction_release_def obj_upd_def)
  qed simp_all
qed

interpretation transactions: safe_machine orderly_step "\<lambda>_. True" sys_good
  by unfold_locales (rule step_sys_good)

section \<open>The calls are made of the steps\<close>

fun perform_all :: "action list \<Rightarrow> ctrl_sys \<Rightarrow> ctrl_sys option" where
  "perform_all [] s = Some s"
| "perform_all (l # ls) s = Option.bind (perform l s) (perform_all ls)"

lemma perform_all_append: "perform_all (ks @ ls) s = Option.bind (perform_all ks s) (perform_all ls)"
  by (induction ks arbitrary: s) (auto split: bind_splits)

lemma finish_steps:
  "map_option ctl (perform_all [Settle a how, Drop a] s) = finish (settled how) a (ctl s)"
  by (auto simp: finish_def obj_upd_def move_def claim_def split: option.splits)
    (auto simp: Option.bind_eq_None_conv velocitor_ctrl_transaction_notify_def obj_upd_def split: option.splits bind_splits)

lemma claim_steps:
  "map_option ctl (perform_all [Claim seq a, Settle a how, Drop a] s) = finish (settled how) a (idr_remove seq (ctl s))"
  using finish_steps [of a how "claim a (Some False) (s\<lparr>ctl := idr_remove seq (ctl s)\<rparr>)"] by simp

lemma settled_fun: "settled Stale = (\<lambda>t. t\<lparr>t_status := - ESTALE\<rparr>)" "settled Canceled = (\<lambda>t. t\<lparr>t_status := - ECANCELED\<rparr>)"
  "settled (Answered data) = answer_transaction data"
  by (simp_all add: fun_eq_iff)

definition remove_steps :: "(nat \<times> nat) list \<Rightarrow> action list" where
  "remove_steps es = Bind False # concat (map (\<lambda>(seq, a). [Claim seq a, Settle a Stale, Drop a]) es)"

lemma remove_inflight_steps:
  "map_option ctl (perform_all (concat (map (\<lambda>(seq, a). [Claim seq a, Settle a Stale, Drop a]) es)) s) = remove_inflight es (ctl s)"
proof (induction es arbitrary: s)
  case (Cons e es)
  obtain seq a where e: "e = (seq, a)" by fastforce
  have "perform_all (concat (map (\<lambda>(seq, a). [Claim seq a, Settle a Stale, Drop a]) (e # es))) s =
      Option.bind (perform_all [Claim seq a, Settle a Stale, Drop a] s)
        (perform_all (concat (map (\<lambda>(seq, a). [Claim seq a, Settle a Stale, Drop a]) es)))"
    unfolding perform_all_append [symmetric] by (simp add: e)
  also have "map_option ctl \<dots> = Option.bind (map_option ctl (perform_all [Claim seq a, Settle a Stale, Drop a] s)) (remove_inflight es)"
    using Cons.IH by (cases "perform_all [Claim seq a, Settle a Stale, Drop a] s") simp_all
  finally show ?case unfolding claim_steps settled_fun by (simp only: e remove_inflight.simps)
qed simp

definition send_steps :: "int \<Rightarrow> nat \<Rightarrow> bool \<Rightarrow> bool \<Rightarrow> action list" where
  "send_steps res a failed claimed =
     [Get a, Post a res] @ (if \<not> failed then [] else if claimed then [Cancel a, Settle a Canceled, Drop a] else [Cancel a])"

lemma request_send_steps:
  assumes "objs (ctl s) a = Some t" and "request_payload_len (cm_op (t_msg t)) = Some n"
    and "velocitor_ctrl_transaction_send res a (ctl s) = Some (c, err)"
  shows "map_option ctl (perform_all (send_steps res a (err \<noteq> 0) (idr_find (t_seq t) (ctl s) \<noteq> None)) s) = Some c"
proof -
  define c' where "c' = (ctl s)\<lparr>objs := (objs (ctl s))(a := Some (t\<lparr>t_refs := t_refs t + 1\<rparr>))\<rparr>"
  have get: "send_get a (ctl s) = Some c'" using assms(1) by (simp add: send_get_def obj_upd_def c'_def)
  obtain d where post: "send_post res n a c' = Some (d, err)"
    and c: "if err = 0 then c = d else velocitor_ctrl_transaction_cancel a d = Some c"
    using assms by (auto simp: velocitor_ctrl_transaction_send_def get split: bind_splits if_splits)
  have obj: "objs d a = Some (t\<lparr>t_refs := t_refs t + 1\<rparr>)" "idr_find (t_seq t) d = idr_find (t_seq t) (ctl s)"
    using post by (auto simp: send_post_def c'_def idr_find_def split: if_splits)
  define u where "u = move a (Some (if err \<noteq> 0 then Failed else Posted)) (move a (Some Referenced) (s\<lparr>ctl := d\<rparr>))"
  have two: "perform_all [Get a, Post a res] s = Some u"
    using assms(1,2) get post by (simp add: c'_def u_def move_def)
  have u: "ctl u = d" by (simp add: u_def)
  have claim: "cancel_claim a d = Some (idr_remove (t_seq t) d, idr_find (t_seq t) (ctl s) \<noteq> None)"
    using obj by (simp add: cancel_claim_def)
  show ?thesis
  proof (cases "err = 0")
    case True
    then show ?thesis using two c u by (simp add: send_steps_def)
  next
    case False
    define v where "v = move a (Some Leaving) (u\<lparr>ctl := idr_remove (t_seq t) d\<rparr>)"
    define w where "w = (if idr_find (t_seq t) (ctl s) \<noteq> None then claim a (Some False) v else v)"
    have three: "perform (Cancel a) u = Some w" using claim u by (auto simp: w_def v_def Let_def)
    define tail where "tail = (if idr_find (t_seq t) (ctl s) \<noteq> None then [Settle a Canceled, Drop a] else [])"
    have "send_steps res a (err \<noteq> 0) (idr_find (t_seq t) (ctl s) \<noteq> None) = [Get a, Post a res] @ [Cancel a] @ tail"
      using False by (simp add: send_steps_def tail_def)
    then have all: "perform_all (send_steps res a (err \<noteq> 0) (idr_find (t_seq t) (ctl s) \<noteq> None)) s = perform_all tail w"
      by (simp only: perform_all_append two) (simp only: append_Cons append_Nil perform_all.simps three bind.bind_lunit)
    have w: "ctl w = idr_remove (t_seq t) d" by (simp add: w_def v_def)
    have "map_option ctl (perform_all tail w) = Some c"
      using False c claim w finish_steps [of a Canceled w, unfolded settled_fun]
      by (auto simp: tail_def velocitor_ctrl_transaction_cancel_def simp del: perform.simps)
    then show ?thesis by (simp only: all)
  qed
qed

text \<open>C35. The interleaved pieces are the calls: running the pieces of an answer, of a removal or of a send one
  after the other, undisturbed, has exactly the effect of the whole call of \<open>ctrl.c\<close> or
  \<open>ctrl-transaction.c\<close> on the control channel, a use of freed memory included in the first two.\<close>

theorem ctrl_calls_are_steps:
  assumes "drvdata (ctl s)" and "16 \<le> length data" and "idr_find (unat (cm_seq (get_ctrl data))) (ctl s) = Some a"
    and "objs (ctl s) a = Some t" and "request_payload_len (cm_op (t_msg t)) = Some n"
    and "velocitor_ctrl_transaction_send res a (ctl s) = Some (c, err)"
  shows "map_option ctl (perform_all [Claim (unat (cm_seq (get_ctrl data))) a, Settle a (Answered data), Drop a] s) =
        velocitor_ctrl_rpmsg_callback data (ctl s)
    \<and> map_option ctl (perform_all (remove_steps (inflight (ctl s))) s) = velocitor_ctrl_rpmsg_remove (ctl s)
    \<and> map_option ctl (perform_all (send_steps res a (err \<noteq> 0) (idr_find (t_seq t) (ctl s) \<noteq> None)) s) = Some c"
proof -
  have "velocitor_ctrl_rpmsg_callback data (ctl s) =
      finish (answer_transaction data) a (idr_remove (unat (cm_seq (get_ctrl data))) (ctl s))"
    using assms(1-3) by (simp add: velocitor_ctrl_rpmsg_callback_def callback_claim_def)
  moreover have "velocitor_ctrl_rpmsg_remove (ctl s) = map_option ctl (perform_all (remove_steps (inflight (ctl s))) s)"
    using remove_inflight_steps [of "inflight (ctl s)" "s\<lparr>ctl := (ctl s)\<lparr>rpdev := False, drvdata := False\<rparr>\<rparr>"]
    by (simp add: remove_steps_def velocitor_ctrl_rpmsg_remove_def)
  ultimately show ?thesis
    using claim_steps [of _ a "Answered data" s, unfolded settled_fun] request_send_steps [OF assms(4-6)] by simp
qed

theorem ctrl_calls_are_steps_witness:
  "\<exists>s. ctl s = stat_sent \<and> map_option ctl (perform_all (remove_steps [(7, 0)]) s) = velocitor_ctrl_rpmsg_remove stat_sent
     \<and> map_option ctl (perform_all (send_steps 0 0 False True) s) =
         Some (stat_sent\<lparr>objs := [0 \<mapsto> stat_transaction\<lparr>t_refs := 3\<rparr>], sent := [put_ctrl (t_msg stat_transaction)]\<rparr>)"
proof -
  define s where "s = sys_init\<lparr>ctl := stat_sent\<rparr>"
  have s: "ctl s = stat_sent" by (simp add: s_def)
  have "velocitor_ctrl_transaction_send 0 0 stat_sent =
      Some (stat_sent\<lparr>objs := [0 \<mapsto> stat_transaction\<lparr>t_refs := 3\<rparr>], sent := [put_ctrl (t_msg stat_transaction)]\<rparr>, 0)"
    by (simp add: velocitor_ctrl_transaction_send_def stat_sent_def stat_transaction_def request_payload_len_def
        send_get_def send_post_def obj_upd_def velocitor_ctrl_zero_def numeral_3_eq_3)
  then show ?thesis
    using ctrl_calls_are_steps [of s "put_ctrl (t_msg stat_transaction)" 0 stat_transaction 0 0 _ 0] s
    by (intro exI [of _ s]) (simp add: s get_put_ctrl [of _ "[]", simplified] stat_sent_def stat_transaction_def idr_find_def
        request_payload_len_def)
qed

section \<open>Runs\<close>

text \<open>C2. Under any interleaving of any number of callers, answers and removals in which no entry is claimed
  before its caller has taken the reference of the send: no thread that can go on finds its
  transaction freed; a transaction in flight has not been notified and one that left the table and
  was settled has been notified exactly once; a caller that posted always gets to run again once the
  claim on its entry is settled; and when every caller has left and no claim is open, an empty
  table means that no transaction is left allocated.\<close>

theorem transactions_safe:
  assumes "run orderly_step sys_init ls s"
  shows "(\<forall>l. enabled l s \<longrightarrow> perform l s \<noteq> None)
     \<and> (\<forall>a t. objs (ctl s) a = Some t \<longrightarrow>
          t_notified t = (if in_flight (ctl s) a \<or> claims s a = Some False then 0 else 1))
     \<and> (\<forall>a. callers s a = Some Posted \<and> \<not> in_flight (ctl s) a \<and> claims s a \<noteq> Some False \<longrightarrow> enabled (Wake a) s)
     \<and> ((\<forall>a. callers s a = None \<and> claims s a = None) \<and> inflight (ctl s) = [] \<longrightarrow> (\<forall>a. objs (ctl s) a = None))"
proof -
  have good: "sys_good s" using transactions.run_good [OF assms init_good] by (simp add: list_all_iff)
  note at = local_at [OF good]
  have "t_notified t = (if in_flight (ctl s) a \<or> claims s a = Some False then 0 else 1)" if "objs (ctl s) a = Some t" for a t
    using at [of a] that by (simp add: local_good_def)
  moreover have "objs (ctl s) a = None" if "\<forall>a. callers s a = None \<and> claims s a = None" "inflight (ctl s) = []" for a
    using at [of a] that by (auto simp: local_good_def in_flight_def split: option.splits)
  ultimately show ?thesis using enabled_alive [OF good] by (auto split: option.split)
qed

theorem transactions_safe_witness:
  "\<exists>s. run orderly_step sys_init [Bind True, New 0 1 True 4 (replicate 16 0), Get 0, Post 0 0, Claim 1 0, Settle 0 Stale,
     Drop 0, Wake 0, Release 0] s \<and> objs (ctl s) 0 = None"
proof -
  define ls where "ls = [Bind True, New 0 1 True 4 (replicate 16 0), Get 0, Post 0 0, Claim 1 0, Settle 0 Stale, Drop 0, Wake 0, Release 0]"
  have "\<exists>s. run orderly_step sys_init ls s \<and> (\<forall>a. callers s a = None \<and> claims s a = None) \<and> inflight (ctl s) = []"
    by (simp add: ls_def orderly_step_def ctrl_step_def sys_init_def velocitor_ctrl_zero_def idr_find_def idr_remove_def
        velocitor_ctrl_transaction_alloc_def Let_def obj_upd_def request_payload_len_def send_get_def send_post_def
        velocitor_ctrl_transaction_notify_def velocitor_ctrl_transaction_release_def velocitor_ctrl_transaction_free_def)
  then obtain s where r: "run orderly_step sys_init ls s" and "\<forall>a. callers s a = None \<and> claims s a = None" "inflight (ctl s) = []"
    by blast
  then have "objs (ctl s) 0 = None" using transactions_safe [OF r] by blast
  with r show ?thesis unfolding ls_def by blast
qed

end
