(* ===== verification/Drv_Cdev.thy ===== *)
theory Drv_Cdev
  imports Drv_Ctrl_Run
begin

text \<open>
  The character device, \<open>cdev.c\<close>: opening, and the four ioctls, over the control channel and the handle
  table. What the kernel answers to the driver is the record \<open>kernel\<close>; the system between the
  posting of a request and the end of the wait is its function \<open>k_wait\<close>.
\<close>

section \<open>State\<close>

text \<open>\<open>cd_dev\<close>, \<open>cd_ctrl\<close> and \<open>usageFlags\<close> are the parts of \<open>struct velocitor_dev\<close> the file uses.\<close>

record cdev_state =
  cd_dev :: velocitor_dev
  cd_ctrl :: velocitor_ctrl
  usageFlags :: bool

text \<open>
  \<open>copy_struct_from_user ksize usize\<close> is the error or the \<open>ksize\<close> bytes of the kernel structure,
  \<open>copy_struct_to_user usize\<close>, given the structure, the error and \<open>ignored_trailing\<close>; \<open>k_object\<close>,
  \<open>k_seq\<close>, \<open>k_send\<close> are the answers of \<open>kzalloc\<close>, \<open>idr_alloc_cyclic\<close>, \<open>rpmsg_send\<close> to the
  transaction, \<open>k_entry\<close>, \<open>k_xa\<close>, \<open>k_jiffies\<close> what the insertion of a handle meets.
\<close>

record kernel =
  copy_struct_from_user :: "nat \<Rightarrow> nat \<Rightarrow> int + bytes"
  copy_struct_to_user :: "nat \<Rightarrow> bytes \<Rightarrow> int \<times> bool"
  k_object :: "nat option"
  k_seq :: int
  k_send :: int
  k_wait :: "cdev_state \<Rightarrow> cdev_state option"
  k_entry :: bool
  k_xa :: int
  k_jiffies :: u64

section \<open>Operations\<close>

definition velocitor_cdev_open :: "cdev_state \<Rightarrow> cdev_state \<times> int" where
  "velocitor_cdev_open d = (if usageFlags d then (d, - EBUSY) else (d\<lparr>usageFlags := True\<rparr>, 0))"

definition velocitor_cdev_release :: "cdev_state \<Rightarrow> cdev_state \<times> int" where
  "velocitor_cdev_release d = (d\<lparr>usageFlags := False\<rparr>, 0)"

definition velocitor_safe_copy_to_user :: "kernel \<Rightarrow> nat \<Rightarrow> bytes \<Rightarrow> int" where
  "velocitor_safe_copy_to_user K usize ksrc =
     (case copy_struct_to_user K usize ksrc of
        (err, ignored_trailing) \<Rightarrow> if err \<noteq> 0 then err else if ignored_trailing then - EMSGSIZE else 0)"

definition VEL_DEVICE_INFO_DOWN :: u32 where [simp]: "VEL_DEVICE_INFO_DOWN = 0"
definition VEL_DEVICE_INFO_BOOTING :: u32 where [simp]: "VEL_DEVICE_INFO_BOOTING = 1"
definition VEL_DEVICE_INFO_READY :: u32 where [simp]: "VEL_DEVICE_INFO_READY = 2"
definition VEL_DEVICE_INFO_CRASHED :: u32 where [simp]: "VEL_DEVICE_INFO_CRASHED = 3"

text \<open>Each ioctl yields its errno and the structure it handed to \<open>copy_struct_to_user\<close>, if any.\<close>

definition velocitor_cdev_ioctl_info ::
  "kernel \<Rightarrow> nat \<Rightarrow> 'h velocitor_state \<Rightarrow> cdev_state \<Rightarrow> 'h velocitor_state \<times> int \<times> bytes option" where
  "velocitor_cdev_ioctl_info K usize s d =
     (case readl s VEL_REG_FW_STATUS of (s, status) \<Rightarrow>
        let state = (if status = VEL_FW_STATUS_RESET then VEL_DEVICE_INFO_DOWN
                     else if status = VEL_FW_STATUS_VERIFIED then VEL_DEVICE_INFO_BOOTING
                     else if status = VEL_FW_STATUS_RUNNING then VEL_DEVICE_INFO_READY
                     else VEL_DEVICE_INFO_CRASHED);
            inf = put_le 4 state @ put_le 4 (rproc_generation (cd_dev d))
        in (s, velocitor_safe_copy_to_user K usize inf, Some inf))"

text \<open>
  What the three other ioctls do alike: allocate the transaction, fill the request, send it, wait. \<open>Inl\<close> is
  the failure to allocate; otherwise the transaction and the errno it got.
\<close>

definition cdev_transact ::
  "kernel \<Rightarrow> u16 \<Rightarrow> bytes \<Rightarrow> cdev_state \<Rightarrow> (cdev_state \<times> (int + nat \<times> int)) option" where
  "cdev_transact K op payload d =
     (case velocitor_ctrl_transaction_alloc (k_object K) (k_seq K) True (cd_ctrl d) of
        (c, Inl err) \<Rightarrow> Some (d\<lparr>cd_ctrl := c\<rparr>, Inl err)
      | (c, Inr a) \<Rightarrow>
          Option.bind
            (obj_upd a (\<lambda>t. t\<lparr>t_msg := (t_msg t)\<lparr>cm_op := op\<rparr>, t_payload := payload @ drop (length payload) (t_payload t)\<rparr>) c)
            (\<lambda>c. Option.bind (velocitor_ctrl_transaction_send (k_send K) a c) (\<lambda>(c, err).
              if err \<noteq> 0 then Some (d\<lparr>cd_ctrl := c\<rparr>, Inr (a, err))
              else Option.bind (k_wait K (d\<lparr>cd_ctrl := c\<rparr>)) (\<lambda>d.
                Option.bind (velocitor_ctrl_transaction_wait a (cd_ctrl d)) (\<lambda>err. Some (d, Inr (a, err)))))))"

definition cdev_put :: "nat \<Rightarrow> cdev_state \<Rightarrow> cdev_state option" where
  "cdev_put a d = map_option (\<lambda>c. d\<lparr>cd_ctrl := c\<rparr>) (velocitor_ctrl_transaction_release a (cd_ctrl d))"

definition answer_of :: "nat \<Rightarrow> cdev_state \<Rightarrow> bytes" where
  "answer_of a d = (case objs (cd_ctrl d) a of None \<Rightarrow> [] | Some t \<Rightarrow> t_answer t)"

definition velocitor_cdev_ioctl_stats ::
  "kernel \<Rightarrow> nat \<Rightarrow> cdev_state \<Rightarrow> (cdev_state \<times> int \<times> bytes option) option" where
  "velocitor_cdev_ioctl_stats K usize d =
     Option.bind (cdev_transact K VEL_OP_STAT [] d) (\<lambda>(d, r).
       case r of
         Inl err \<Rightarrow> Some (d, err, None)
       | Inr (a, err) \<Rightarrow>
           if err \<noteq> 0 then map_option (\<lambda>d. (d, err, None)) (cdev_put a d)
           else
             let ans = answer_of a d;
                 stats = put_le 4 (get_le 32 4 ans :: u32) @ put_le 4 (0 :: u32) @
                   concat (map (\<lambda>i. put_le 8 (get_le (16 * i) 8 ans :: u64) @ put_le 8 (get_le (16 * i + 8) 8 ans :: u64)) [0..<2])
             in map_option (\<lambda>d. (d, velocitor_safe_copy_to_user K usize stats, Some stats)) (cdev_put a d))"

definition get_alloc_resp :: "bytes \<Rightarrow> alloc_resp" where
  "get_alloc_resp bs = \<lparr>aresp_handle = get_le 0 4 bs, aresp_node = get_le 4 4 bs, aresp_generation = get_le 8 4 bs,
     aresp_reserved = get_le 12 4 bs, aresp_dev_offset = get_le 16 8 bs\<rparr>"

text \<open>\<open>struct velocitor_ioctl_alloc\<close>: size, node, dtype, then the handle at 16, in 32 bytes.\<close>

definition velocitor_cdev_ioctl_alloc ::
  "kernel \<Rightarrow> nat \<Rightarrow> cdev_state \<Rightarrow> (cdev_state \<times> int \<times> bytes option) option" where
  "velocitor_cdev_ioctl_alloc K usize d =
     (case copy_struct_from_user K 32 usize of
        Inl err \<Rightarrow> Some (d, err, None)
      | Inr u \<Rightarrow>
          let sz = get_le 0 8 u :: u64;
              payload = put_le 8 sz @ put_le 4 (get_le 12 4 u :: u32) @ put_le 4 (get_le 8 4 u :: u32)
          in Option.bind (cdev_transact K VEL_OP_ALLOC payload d) (\<lambda>(d, r).
            case r of
              Inl err \<Rightarrow> Some (d, err, None)
            | Inr (a, err) \<Rightarrow>
                if err \<noteq> 0 then map_option (\<lambda>d. (d, err, None)) (cdev_put a d)
                else
                  let resp = get_alloc_resp (answer_of a d) in
                  case velocitor_handles_insert (k_entry K) (k_xa K) (k_jiffies K) sz resp (handles (cd_dev d)) of
                    (t, err) \<Rightarrow>
                      let d = d\<lparr>cd_dev := (cd_dev d)\<lparr>handles := t\<rparr>\<rparr> in
                      if err \<noteq> 0 then map_option (\<lambda>d. (d, err, None)) (cdev_put a d)
                      else
                        let u = take 16 u @ put_le 4 (aresp_handle resp) @ put_le 4 (aresp_node resp) @
                              put_le 4 (aresp_generation resp) @ drop 28 u
                        in map_option (\<lambda>d. (d, velocitor_safe_copy_to_user K usize u, Some u)) (cdev_put a d)))"

text \<open>\<open>struct velocitor_ioctl_handle\<close>: addr, node, generation, 12 bytes.\<close>

definition velocitor_cdev_ioctl_free ::
  "kernel \<Rightarrow> nat \<Rightarrow> cdev_state \<Rightarrow> (cdev_state \<times> int \<times> bytes option) option" where
  "velocitor_cdev_ioctl_free K usize d =
     (case copy_struct_from_user K 12 usize of
        Inl err \<Rightarrow> Some (d, err, None)
      | Inr u \<Rightarrow>
          (case velocitor_handles_erase (get_le 8 4 u) (get_le 0 4 u) (handles (cd_dev d)) of
             (t, err) \<Rightarrow>
               let d = d\<lparr>cd_dev := (cd_dev d)\<lparr>handles := t\<rparr>\<rparr> in
               if err \<noteq> 0 then Some (d, err, None)
               else Option.bind (cdev_transact K VEL_OP_FREE (put_le 4 (get_le 0 4 u :: u32)) d) (\<lambda>(d, r).
                 case r of
                   Inl err \<Rightarrow> Some (d, err, None)
                 | Inr (a, err) \<Rightarrow> map_option (\<lambda>d. (d, err, None)) (cdev_put a d))))"

section \<open>Dispatch\<close>

definition VEL_DRV_MAGIC :: u32 where [simp]: "VEL_DRV_MAGIC = 0x76"
definition VEL_DRV_IOCTL_BASE :: u32 where [simp]: "VEL_DRV_IOCTL_BASE = 0x30"

definition ioc_nr :: "u32 \<Rightarrow> u32" where "ioc_nr cmd = cmd AND 0xff"
definition ioc_type :: "u32 \<Rightarrow> u32" where "ioc_type cmd = drop_bit 8 cmd AND 0xff"
definition ioc_size :: "u32 \<Rightarrow> nat" where "ioc_size cmd = unat (drop_bit 16 cmd AND 0x3fff)"

definition velocitor_cdev_ioctl ::
  "kernel \<Rightarrow> u32 \<Rightarrow> 'h velocitor_state \<Rightarrow> cdev_state \<Rightarrow> ('h velocitor_state \<times> cdev_state \<times> int \<times> bytes option) option" where
  "velocitor_cdev_ioctl K cmd s d =
     (if ioc_type cmd \<noteq> VEL_DRV_MAGIC then Some (s, d, - ENOTTY, None)
      else if ioc_nr cmd = VEL_DRV_IOCTL_BASE then
        (case velocitor_cdev_ioctl_info K (ioc_size cmd) s d of (s, r) \<Rightarrow> Some (s, d, r))
      else if ioc_nr cmd = VEL_DRV_IOCTL_BASE + 2 then
        map_option (Pair s) (velocitor_cdev_ioctl_alloc K (ioc_size cmd) d)
      else if ioc_nr cmd = VEL_DRV_IOCTL_BASE + 3 then
        map_option (Pair s) (velocitor_cdev_ioctl_free K (ioc_size cmd) d)
      else if ioc_nr cmd = VEL_DRV_IOCTL_BASE + 1 then
        map_option (Pair s) (velocitor_cdev_ioctl_stats K (ioc_size cmd) d)
      else Some (s, d, - ENOTTY, None))"

section \<open>The device on the other side\<close>

text \<open>The wait during which the device serves the newest request and the answer comes held.\<close>

definition served :: "'h velocitor_state \<Rightarrow> cdev_state \<Rightarrow> cdev_state option" where
  "served s d = map_option (\<lambda>c. d\<lparr>cd_ctrl := c\<rparr>)
     (velocitor_ctrl_rpmsg_callback (snd (device_answer s (last (sent (cd_ctrl d))))) (cd_ctrl d))"

text \<open>An undisturbed call: the kernel gives what is asked for, the channel is up, the device serves.\<close>

definition undisturbed :: "kernel \<Rightarrow> 'h velocitor_state \<Rightarrow> cdev_state \<Rightarrow> bool" where
  "undisturbed K s d \<longleftrightarrow> rpdev (cd_ctrl d) \<and> drvdata (cd_ctrl d) \<and> k_send K = 0 \<and> k_wait K = served s
     \<and> 1 \<le> k_seq K \<and> k_seq K < 2 ^ 31 \<and> idr_find (nat (k_seq K)) (cd_ctrl d) = None
     \<and> (\<exists>a. k_object K = Some a \<and> objs (cd_ctrl d) a = None)
     \<and> k_entry K \<and> k_xa K = 0 \<and> (\<forall>usize bs. copy_struct_to_user K usize bs = (0, False))"

text \<open>The request of a call, as the device receives it.\<close>

definition request_msg :: "kernel \<Rightarrow> u16 \<Rightarrow> ctrl_msg" where
  "request_msg K op = \<lparr>cm_seq = word_of_int (k_seq K), cm_op = op, cm_flags = 0, cm_status = 0, cm_reserved = 0\<rparr>"

lemma map_of_insort_new: "fst p \<notin> fst ` set xs \<Longrightarrow> map_of (insort_key fst p xs) = (map_of xs)(fst p \<mapsto> snd p)"
  by (induction xs) (auto simp: fun_eq_iff)

lemma device_answer_state:
  "ctrl_op s op (put_ctrl (request_msg K op) @ p) = (s', status, q) \<Longrightarrow> fst (device_answer s (put_ctrl (request_msg K op) @ p)) = s'"
  by (simp add: device_answer_def get_put_ctrl) (simp add: request_msg_def)

text \<open>The channel is as it was but for the messages sent, of which the device has served the new one.\<close>

definition channel_served :: "'h velocitor_state \<Rightarrow> 'h velocitor_state \<Rightarrow> cdev_state \<Rightarrow> cdev_state \<Rightarrow> bool" where
  "channel_served s s' d d' \<longleftrightarrow> objs (cd_ctrl d') = objs (cd_ctrl d) \<and> set (inflight (cd_ctrl d')) = set (inflight (cd_ctrl d))
     \<and> rpdev (cd_ctrl d') \<and> drvdata (cd_ctrl d') \<and> usageFlags d' = usageFlags d
     \<and> cd_dev d' = (cd_dev d)\<lparr>handles := handles (cd_dev d')\<rparr>
     \<and> (\<exists>m. sent (cd_ctrl d') = sent (cd_ctrl d) @ [m] \<and> fst (device_answer s m) = s')"

lemma transact_served:
  assumes "undisturbed K s d" and "request_payload_len op = Some n" and "length payload \<le> 16"
    and "pay = payload @ replicate (16 - length payload) 0"
    and "ctrl_op s op (put_ctrl (request_msg K op) @ take n pay) = (s', status, p)"
  shows "\<exists>a d' u. cdev_transact K op payload d = Some (d', Inr (a, sint status))
     \<and> cd_dev d' = cd_dev d \<and> usageFlags d' = usageFlags d \<and> objs (cd_ctrl d) a = None
     \<and> objs (cd_ctrl d') = (objs (cd_ctrl d))(a := Some u) \<and> t_refs u = 1
     \<and> rpdev (cd_ctrl d') \<and> drvdata (cd_ctrl d') \<and> set (inflight (cd_ctrl d')) = set (inflight (cd_ctrl d))
     \<and> sent (cd_ctrl d') = sent (cd_ctrl d) @ [put_ctrl (request_msg K op) @ take n pay]
     \<and> (status = 0 \<longrightarrow> answer_len op = Some (length p) \<and> t_answer u = p @ drop (length p) (replicate 40 0))
     \<and> (op = VEL_OP_ALLOC \<longrightarrow>
          (s', status, p) = (case velocitor_alloc_block s (get_alloc_req pay) of
             (s, Inl err) \<Rightarrow> (s, errno32 err, []) | (s, Inr r) \<Rightarrow> (s, 0, put_alloc_resp r)))
     \<and> (op = VEL_OP_FREE \<longrightarrow>
          (s', status, p) = (case velocitor_free_block s (get_le 0 4 pay) of (s, err) \<Rightarrow> (s, errno32 err, [])))"
proof -
  obtain a where a: "k_object K = Some a" "objs (cd_ctrl d) a = None" using assms(1) by (auto simp: undisturbed_def)
  define c where "c = cd_ctrl d"
  have k: "rpdev c" "drvdata c" "k_send K = 0" "1 \<le> k_seq K" "k_seq K < 2 ^ 31" "idr_find (nat (k_seq K)) c = None"
    "k_wait K = served s"
    using assms(1) by (simp_all add: undisturbed_def c_def)
  define t where "t = \<lparr>t_status = 0, t_msg = request_msg K op, t_payload = pay, t_answer = replicate 40 0,
    t_seq = nat (k_seq K), t_sync = True, t_notified = 0, t_refs = 2\<rparr>"
  define c1 where "c1 = c\<lparr>inflight := insort_key fst (nat (k_seq K), a) (inflight c), objs := (objs c)(a := Some t),
    sent := sent c @ [put_ctrl (request_msg K op) @ take n pay]\<rparr>"
  have seq: "unat (word_of_int (k_seq K) :: u32) = nat (k_seq K)"
    using k(4,5) by (simp add: unat_eq_nat_uint uint_word_of_int)
  define data where "data = put_ctrl (request_msg K op) @ take n pay"
  define answer where "answer = put_ctrl \<lparr>cm_seq = cm_seq (t_msg t), cm_op = cm_op (t_msg t), cm_flags = 0, cm_status = status,
    cm_reserved = 0\<rparr> @ p"
  have t: "t_refs t = 0 + 2" "t_sync t" "length (t_payload t) = 16" "t_notified t = 0" "t_answer t = replicate 40 0"
    "cm_seq (t_msg t) = word_of_int (k_seq K)" "cm_op (t_msg t) = op" "t_payload t = pay" "t_msg t = request_msg K op"
    using assms(3) by (simp_all add: t_def request_msg_def assms(4))
  have snd: "snd (device_answer s data) = answer"
    using assms(5) by (simp add: device_answer_def data_def get_put_ctrl answer_def t(9)) (simp add: request_msg_def)
  have free: "nat (k_seq K) \<notin> fst ` set (inflight c)" using k(6) by (simp add: idr_find_def map_of_eq_None_iff)
  have find: "idr_find (nat (k_seq K)) c1 = Some a"
    using free by (simp add: c1_def idr_find_def map_of_insort_new)
  have held: "set (filter (\<lambda>p. fst p \<noteq> nat (k_seq K)) (insort_key fst (nat (k_seq K), a) (inflight c))) = set (inflight c)"
    using free by (force simp: set_insort_key)
  obtain e u where cb: "velocitor_ctrl_rpmsg_callback answer c1 = Some e"
    and e: "e = (idr_remove (unat (cm_seq (t_msg t))) c1)\<lparr>objs := (objs c1)(a := Some u)\<rparr>"
    and u: "t_refs u = 1" "velocitor_ctrl_transaction_wait a e = Some (sint status)"
      "status = 0 \<longrightarrow> t_answer u = p @ drop (length p) (t_answer t) \<and> answer_len op = Some (length p)"
    and al: "op = VEL_OP_ALLOC \<longrightarrow>
          (s', status, p) = (case velocitor_alloc_block s (get_alloc_req pay) of
             (s, Inl err) \<Rightarrow> (s, errno32 err, []) | (s, Inr r) \<Rightarrow> (s, 0, put_alloc_resp r))"
    and fr: "op = VEL_OP_FREE \<longrightarrow>
          (s', status, p) = (case velocitor_free_block s (get_le 0 4 pay) of (s, err) \<Rightarrow> (s, errno32 err, []))"
    using device_answers [of c1 a t 0 n s s' status p answer] t k(2) find seq assms(2,5)
    by (auto simp: c1_def answer_def simp del: VEL_OP_ALLOC_def VEL_OP_FREE_def)
  have run: "cdev_transact K op payload d = Some (d\<lparr>cd_ctrl := e\<rparr>, Inr (a, sint status))"
  proof -
    define c0 where "c0 = fst (velocitor_ctrl_transaction_alloc (Some a) (k_seq K) True c)"
    have alloc: "velocitor_ctrl_transaction_alloc (k_object K) (k_seq K) True (cd_ctrl d) = (c0, Inr a)"
      using a(1) k(4) by (simp add: velocitor_ctrl_transaction_alloc_def Let_def c0_def c_def)
    define c2 where "c2 = c\<lparr>inflight := insort_key fst (nat (k_seq K), a) (inflight c), objs := (objs c)(a := Some (t\<lparr>t_refs := 1\<rparr>))\<rparr>"
    have fill: "obj_upd a (\<lambda>t. t\<lparr>t_msg := (t_msg t)\<lparr>cm_op := op\<rparr>, t_payload := payload @ drop (length payload) (t_payload t)\<rparr>) c0 = Some c2"
      using k(4) by (simp add: c0_def velocitor_ctrl_transaction_alloc_def Let_def obj_upd_def c2_def t_def assms(4) request_msg_def)
    have c1: "c1 = c\<lparr>inflight := insort_key fst (nat (k_seq K), a) (inflight c),
        objs := (objs c)(a := Some (t\<lparr>t_refs := Suc (Suc 0)\<rparr>)), sent := sent c @ [put_ctrl (request_msg K op) @ take n pay]\<rparr>"
      by (simp add: c1_def t_def numeral_2_eq_2)
    have send: "velocitor_ctrl_transaction_send (k_send K) a c2 = Some (c1, 0)"
      using assms(2) k(1,3) t
      by (simp add: velocitor_ctrl_transaction_send_def c2_def send_get_def send_post_def obj_upd_def c1)
    have wait: "k_wait K (d\<lparr>cd_ctrl := c1\<rparr>) = Some (d\<lparr>cd_ctrl := e\<rparr>)"
      using snd cb by (simp add: k(7) served_def c1_def data_def)
    show ?thesis
      unfolding cdev_transact_def alloc prod.case sum.case fill bind.bind_lunit send
      using wait u(2) by simp
  qed
  show ?thesis
    using run a(2) u al fr t(5) held k seq
    by (intro exI [of _ a] exI [of _ "d\<lparr>cd_ctrl := e\<rparr>"] exI [of _ u])
      (auto simp: e c1_def idr_remove_def t(6) c_def)
qed

section \<open>The driver's handles are the device's\<close>

text \<open>
  Driver and device agree on the session: same generation, and the entries of the driver's table are
  exactly the live allocations of the device, on the same node and at the same place, with a size
  that is at most the device's.
\<close>

definition mirrors :: "velocitor_handles \<Rightarrow> 'h velocitor_state \<Rightarrow> bool" where
  "mirrors t s \<longleftrightarrow> table_good t \<and> heap_ok s \<and> h_generation t = generation s
     \<and> (\<forall>h. rel_option (\<lambda>e b. vh_node e = a_node b \<and> vh_dev_offset e = a_offset b \<and> vh_size e \<le> a_size b)
          (map_of (h_entries t) h) (heap_lookup s h))"

lemma mirrors_same: "\<lbrakk>mirrors t s; heap_of s' = heap_of s; generation s' = generation s\<rbrakk> \<Longrightarrow> mirrors t s'"
  using heap_lookup_cong [of s' s] heap_ok_cong [of s' s] by (simp add: mirrors_def)

lemma mirrors_known:
  assumes "mirrors t s"
  shows "map_of (h_entries t) h = None \<longleftrightarrow> heap_lookup s h = None"
proof -
  have "rel_option (\<lambda>e b. vh_node e = a_node b \<and> vh_dev_offset e = a_offset b \<and> vh_size e \<le> a_size b)
      (map_of (h_entries t) h) (heap_lookup s h)"
    using assms by (simp add: mirrors_def)
  then show ?thesis by (cases "map_of (h_entries t) h"; cases "heap_lookup s h") simp_all
qed

lemma mirrors_reset: "mirrors \<lparr>h_entries = [], h_generation = generation (velocitor_alloc_reset s), h_objects = 0\<rparr> (velocitor_alloc_reset s)"
  using alloc_reset_heap_ok [of s]
  by (simp add: mirrors_def table_good_def heap_lookup_def velocitor_alloc_reset_def word_le_nat_alt)
    (metis One_nat_def Suc_leI unat_gt_0)

lemma size_rounded: "n \<le> VEL_MEM_SIZE \<Longrightarrow> n \<le> ROUND_UP n 256"
  using round_bounds(1) [of "unat n"] unat_ROUND_UP [of n] by (simp add: word_le_nat_alt)

lemma mirrors_insert:
  assumes "mirrors t s" and "velocitor_alloc_block s req = (s', Inr r)"
  shows "\<exists>u. velocitor_handles_insert True 0 j (areq_size req) r t = (u, 0) \<and> mirrors u s'
     \<and> map_of (h_entries u) = (map_of (h_entries t))(aresp_handle r \<mapsto>
         \<lparr>vh_handle = aresp_handle r, vh_generation = aresp_generation r, vh_size = areq_size req,
           vh_node = aresp_node r, vh_dev_offset = aresp_dev_offset r, vh_refcount = 1, vh_created = j\<rparr>)
     \<and> heap_lookup s (aresp_handle r) = None"
proof -
  have ok: "heap_ok s" using assms(1) by (simp add: mirrors_def)
  then have "next_handle s \<noteq> 0" by (auto simp: heap_ok_def Let_def)
  then obtain node sz where b: "sz = ROUND_UP (areq_size req) 256" "areq_size req \<le> VEL_MEM_SIZE"
      "next_handle s \<le> VEL_MAX_HANDLES" "s' = heap_push s node sz"
      "r = \<lparr>aresp_handle = next_handle s, aresp_node = word_of_nat node, aresp_generation = generation s,
            aresp_reserved = 0, aresp_dev_offset = node_bump s node\<rparr>"
    using alloc_block_Inr [OF assms(2)] by metis
  have new: "heap_lookup s (next_handle s) = None" by (simp add: heap_lookup_def)
  then have fresh: "map_of (h_entries t) (next_handle s) = None"
    using assms(1) by (auto simp: mirrors_def dest: spec [of _ "next_handle s"])
  define e where "e = \<lparr>vh_handle = aresp_handle r, vh_generation = aresp_generation r, vh_size = areq_size req,
    vh_node = aresp_node r, vh_dev_offset = aresp_dev_offset r, vh_refcount = 1, vh_created = j\<rparr>"
  define u where "u = t\<lparr>h_entries := (next_handle s, e) # h_entries t, h_objects := h_objects t + 1\<rparr>"
  have ins: "velocitor_handles_insert True 0 j (areq_size req) r t = (u, 0)"
    using fresh assms(1) by (simp add: velocitor_handles_insert_def xa_insert_def u_def e_def b(5) mirrors_def Let_def)
  have "table_good u" using insert_good [OF _ ins] assms(1) by (simp add: mirrors_def)
  moreover have "heap_ok s'" using alloc_block_heap_ok [OF ok assms(2)] by simp
  moreover have "h_generation u = generation s'" using assms(1) by (simp add: u_def b(4) heap_push_def mirrors_def)
  moreover have look: "heap_lookup s' = (heap_lookup s)(next_handle s \<mapsto>
      \<lparr>a_offset = node_bump s node, a_size = sz, a_node = word_of_nat node, a_live = 1\<rparr>)"
    unfolding b(4) by (rule heap_push_lookup(3) [OF ok]) (use b(3) in simp)
  moreover have "vh_size e \<le> sz" using b(2) size_rounded [of "areq_size req"] by (simp add: e_def b(1))
  ultimately have "mirrors u s'"
    using assms(1) unfolding mirrors_def by (simp add: u_def) (simp add: e_def b(5))
  then show ?thesis using ins new by (intro exI [of _ u]) (simp add: u_def e_def b(5))
qed

lemma mirrors_erase:
  assumes "mirrors t s" and "velocitor_handles_erase (generation s) h t = (u, 0)" and "velocitor_free_block s h = (s', err)"
  shows "mirrors u s' \<and> err = 0"
proof -
  have ok: "heap_ok s" using assms(1) by (simp add: mirrors_def)
  have there: "map_of (h_entries t) h \<noteq> None"
    using assms(1,2) by (auto simp: velocitor_handles_erase_def mirrors_def Let_def split: option.splits)
  have u: "map_of (h_entries u) = (map_of (h_entries t))(h := None)" "h_generation u = generation s"
    using assms(1,2) by (auto simp: velocitor_handles_erase_def mirrors_def Let_def map_of_filter_key split: option.splits)
  have "heap_lookup s h \<noteq> None" using there mirrors_known [OF assms(1)] by simp
  then have err: "err = 0" using heap_free_lookup(1) [OF ok, of h] assms(3) by (simp add: heap_free_op_def)
  have "heap_lookup s' = (heap_lookup s)(h := None)" using heap_free_lookup(3) [OF ok, of h] assms(3) by (simp add: heap_free_op_def)
  moreover have "generation s' = generation s" using assms(3) err by (auto simp: velocitor_free_block_def split: if_splits)
  moreover have "table_good u" using erase_good [OF _ assms(2)] assms(1) by (simp add: mirrors_def)
  moreover have "heap_ok s'" using free_block_heap_ok [OF ok assms(3)] by simp
  ultimately show ?thesis using u assms(1) err unfolding mirrors_def by simp
qed

section \<open>Properties\<close>

lemma request_bytes:
  "get_alloc_req (put_le 8 (a :: u64) @ put_le 4 (b :: u32) @ put_le 4 (c :: u32) @ r) = \<lparr>areq_size = a, areq_dtype = b, areq_node = c\<rparr>"
  "get_le 0 4 (put_le 4 (b :: u32) @ r) = b"
  by (simp_all add: get_alloc_req_def get_le_skip)

lemma get_put_alloc_resp_whole: "aresp_reserved r = 0 \<Longrightarrow> get_alloc_resp (put_alloc_resp r @ bs) = r"
  by (cases r) (simp add: get_alloc_resp_def put_alloc_resp_def get_le_skip)

lemma sint_errno: "e \<in> {0, - EINVAL, - ENOMEM} \<Longrightarrow> sint (errno32 e) = e"
proof -
  have "sint (errno32 0) = 0" "sint (errno32 (- 22)) = - 22" "sint (errno32 (- 12)) = - 12" by code_simp+
  then show "e \<in> {0, - EINVAL, - ENOMEM} \<Longrightarrow> sint (errno32 e) = e" by auto
qed

lemma alloc_block_generation: "velocitor_alloc_block s req = (t, res) \<Longrightarrow> generation t = generation s"
  by (auto simp: velocitor_alloc_block_def Let_def velocitor_error_set_def velocitor_error_qualify_def split: if_splits prod.splits)

lemma put_done:
  "\<lbrakk>objs (cd_ctrl d) a = Some u; t_refs u = 1\<rbrakk> \<Longrightarrow>
     cdev_put a d = Some (d\<lparr>cd_ctrl := (cd_ctrl d)\<lparr>objs := (objs (cd_ctrl d))(a := None)\<rparr>\<rparr>)"
  by (simp add: cdev_put_def velocitor_ctrl_transaction_release_def velocitor_ctrl_transaction_free_def)

lemma alloc_served:
  assumes "undisturbed K s d" and "copy_struct_from_user K 32 usize = Inr u" and "mirrors (handles (cd_dev d)) s"
    and "req = \<lparr>areq_size = get_le 0 8 u, areq_dtype = get_le 12 4 u, areq_node = get_le 8 4 u\<rparr>"
    and "velocitor_alloc_block s req = (s', res)"
  shows "\<exists>d' err out. velocitor_cdev_ioctl_alloc K usize d = Some (d', err, out)
     \<and> mirrors (handles (cd_dev d')) s' \<and> channel_served s s' d d'
     \<and> (case res of
          Inl e \<Rightarrow> err = e \<and> out = None \<and> handles (cd_dev d') = handles (cd_dev d)
        | Inr r \<Rightarrow> err = 0
            \<and> out = Some (take 16 u @ put_le 4 (aresp_handle r) @ put_le 4 (aresp_node r) @ put_le 4 (aresp_generation r) @ drop 28 u)
            \<and> map_of (h_entries (handles (cd_dev d'))) = (map_of (h_entries (handles (cd_dev d))))(aresp_handle r \<mapsto>
                \<lparr>vh_handle = aresp_handle r, vh_generation = aresp_generation r, vh_size = areq_size req, vh_node = aresp_node r,
                  vh_dev_offset = aresp_dev_offset r, vh_refcount = 1, vh_created = k_jiffies K\<rparr>)
            \<and> heap_lookup s (aresp_handle r) = None)"
proof -
  define pay where "pay = put_le 8 (get_le 0 8 u :: u64) @ put_le 4 (get_le 12 4 u :: u32) @ put_le 4 (get_le 8 4 u :: u32)"
  have pay: "length pay = 16" "get_alloc_req pay = req"
    using request_bytes(1) [where r = "[]"] by (simp_all add: pay_def assms(4))
  obtain s2 status p where op: "ctrl_op s VEL_OP_ALLOC (put_ctrl (request_msg K VEL_OP_ALLOC) @ take 16 pay) = (s2, status, p)"
    by (metis prod_cases3)
  from transact_served [OF assms(1) _ _ _ op, of pay] pay obtain a e t where
    run: "cdev_transact K VEL_OP_ALLOC pay d = Some (e, Inr (a, sint status))"
    and e: "cd_dev e = cd_dev d" "objs (cd_ctrl d) a = None" "objs (cd_ctrl e) = (objs (cd_ctrl d))(a := Some t)" "t_refs t = 1"
      "set (inflight (cd_ctrl e)) = set (inflight (cd_ctrl d))" "rpdev (cd_ctrl e)" "drvdata (cd_ctrl e)" "usageFlags e = usageFlags d"
      "sent (cd_ctrl e) = sent (cd_ctrl d) @ [put_ctrl (request_msg K VEL_OP_ALLOC) @ take 16 pay]"
    and ok: "status = 0 \<Longrightarrow> t_answer t = p @ drop (length p) (replicate 40 0)"
    and dev: "(s2, status, p) = (case velocitor_alloc_block s req of
             (s, Inl err) \<Rightarrow> (s, errno32 err, []) | (s, Inr r) \<Rightarrow> (s, 0, put_alloc_resp r))"
    by (auto simp: request_payload_len_def)
  have s2: "s2 = s'" using dev assms(5) by (auto split: sum.splits)
  have ch: "channel_served s s' d f" if "cd_ctrl f = (cd_ctrl e)\<lparr>objs := objs (cd_ctrl d)\<rparr>" "usageFlags f = usageFlags e"
    "cd_dev f = (cd_dev d)\<lparr>handles := handles (cd_dev f)\<rparr>" for f
    using e(5-9) that device_answer_state [OF op] s2 unfolding channel_served_def by auto
  have put: "cdev_put a f = Some (f\<lparr>cd_ctrl := (cd_ctrl f)\<lparr>objs := objs (cd_ctrl d)\<rparr>\<rparr>)" if "cd_ctrl f = cd_ctrl e" for f
    using put_done [of f a t] e(2-4) that by (simp add: fun_upd_idem)
  show ?thesis
  proof (cases res)
    case (Inl err)
    have err: "err \<in> {- EINVAL, - ENOMEM}" using alloc_block_err assms(5) Inl by blast
    have st: "status = errno32 err" using dev assms(5) Inl by simp
    then have "sint status = err" using sint_errno [of err] err by simp
    moreover have "mirrors (handles (cd_dev d)) s'"
      using mirrors_same [OF assms(3)] alloc_block_Inl alloc_block_generation assms(5) Inl by blast
    ultimately show ?thesis using run put [of e] err Inl assms(2) e(1) ch
      by (auto simp: velocitor_cdev_ioctl_alloc_def pay_def [symmetric] Let_def)
  next
    case (Inr r)
    have st: "status = 0" "p = put_alloc_resp r" using dev assms(5) Inr by simp_all
    have "aresp_reserved r = 0" using assms(5) Inr by (auto simp: velocitor_alloc_block_def Let_def split: if_splits prod.splits)
    then have ans: "get_alloc_resp (answer_of a e) = r"
      using ok st e(3) get_put_alloc_resp_whole by (simp add: answer_of_def)
    obtain v where v: "velocitor_handles_insert True 0 (k_jiffies K) (areq_size req) r (handles (cd_dev d)) = (v, 0)" "mirrors v s'"
      and map: "map_of (h_entries v) = (map_of (h_entries (handles (cd_dev d))))(aresp_handle r \<mapsto>
         \<lparr>vh_handle = aresp_handle r, vh_generation = aresp_generation r, vh_size = areq_size req,
           vh_node = aresp_node r, vh_dev_offset = aresp_dev_offset r, vh_refcount = 1, vh_created = k_jiffies K\<rparr>)"
      and new: "heap_lookup s (aresp_handle r) = None"
      using mirrors_insert [OF assms(3) assms(5) [unfolded Inr]] by blast
    have K: "k_entry K" "k_xa K = 0" "velocitor_safe_copy_to_user K usize bs = 0" for bs
      using assms(1) by (simp_all add: undisturbed_def velocitor_safe_copy_to_user_def)
    show ?thesis
      using run put st ans v map new K Inr assms(2,4) e(1) ch
      by (simp add: velocitor_cdev_ioctl_alloc_def pay_def [symmetric] Let_def)
  qed
qed

text \<open>C4. An undisturbed allocation through the character device, end to end: from the bytes the caller
  passed, over the request the driver composes, the device's allocator and its answer, to the handle
  table and the structure handed back. Undisturbed means that the kernel gives the transaction, its
  identifier and the table entry, the channel is up and takes the message, the copy to the user
  succeeds, and during the wait the device serves this request and nobody else acts. Then, from a state
  where the driver's table mirrors the device: if the device refuses, the ioctl returns its errno, hands
  nothing back and leaves the table alone; if it grants, the ioctl returns 0, the structure carries the
  device's handle, node and generation, and the table has gained exactly that handle, which the device
  had not live before. Either way driver and device mirror each other again, and no transaction is left
  behind.\<close>

theorem cdev_alloc_mirrors:
  assumes "undisturbed K s d" and "copy_struct_from_user K 32 usize = Inr u" and "mirrors (handles (cd_dev d)) s"
    and "req = \<lparr>areq_size = get_le 0 8 u, areq_dtype = get_le 12 4 u, areq_node = get_le 8 4 u\<rparr>"
    and "velocitor_alloc_block s req = (s', res)"
  shows "\<exists>d' err out. velocitor_cdev_ioctl_alloc K usize d = Some (d', err, out)
     \<and> mirrors (handles (cd_dev d')) s' \<and> objs (cd_ctrl d') = objs (cd_ctrl d) \<and> set (inflight (cd_ctrl d')) = set (inflight (cd_ctrl d))
     \<and> (case res of
          Inl e \<Rightarrow> err = e \<and> out = None \<and> handles (cd_dev d') = handles (cd_dev d)
        | Inr r \<Rightarrow> err = 0
            \<and> out = Some (take 16 u @ put_le 4 (aresp_handle r) @ put_le 4 (aresp_node r) @ put_le 4 (aresp_generation r) @ drop 28 u)
            \<and> map_of (h_entries (handles (cd_dev d'))) = (map_of (h_entries (handles (cd_dev d))))(aresp_handle r \<mapsto>
                \<lparr>vh_handle = aresp_handle r, vh_generation = aresp_generation r, vh_size = areq_size req, vh_node = aresp_node r,
                  vh_dev_offset = aresp_dev_offset r, vh_refcount = 1, vh_created = k_jiffies K\<rparr>)
            \<and> heap_lookup s (aresp_handle r) = None)"
  using alloc_served [OF assms] unfolding channel_served_def by blast

lemma free_served:
  assumes "undisturbed K s d" and "copy_struct_from_user K 12 usize = Inr u" and "mirrors (handles (cd_dev d)) s"
    and "h = get_le 0 4 u" and "gen = get_le 8 4 u" and "velocitor_free_block s h = (s', res)"
  shows "(gen \<noteq> generation s \<longrightarrow> velocitor_cdev_ioctl_free K usize d = Some (d, - ESTALE, None))
     \<and> (gen = generation s \<and> heap_lookup s h = None \<longrightarrow>
          (\<exists>d'. velocitor_cdev_ioctl_free K usize d = Some (d', - EINVAL, None) \<and> cd_ctrl d' = cd_ctrl d
             \<and> mirrors (handles (cd_dev d')) s
             \<and> map_of (h_entries (handles (cd_dev d'))) = map_of (h_entries (handles (cd_dev d)))))
     \<and> (gen = generation s \<and> heap_lookup s h \<noteq> None \<longrightarrow>
          (\<exists>d'. velocitor_cdev_ioctl_free K usize d = Some (d', 0, None) \<and> mirrors (handles (cd_dev d')) s'
             \<and> heap_lookup s' = (heap_lookup s)(h := None) \<and> channel_served s s' d d'
             \<and> map_of (h_entries (handles (cd_dev d'))) = (map_of (h_entries (handles (cd_dev d))))(h := None)))"
proof -
  let ?t = "handles (cd_dev d)"
  have same: "map_of (h_entries ?t) h = None \<longleftrightarrow> heap_lookup s h = None"
    by (rule mirrors_known [OF assms(3)])
  have gen: "h_generation ?t = generation s" using assms(3) by (simp add: mirrors_def)
  have dev: "d\<lparr>cd_dev := (cd_dev d)\<lparr>handles := handles (cd_dev d)\<rparr>\<rparr> = d" by simp
  obtain v err where er: "velocitor_handles_erase gen h ?t = (v, err)" by fastforce
  have er2: "velocitor_handles_erase (get_le 8 4 u) (get_le 0 4 u) ?t = (v, err)" using er assms(4,5) by simp
  have stale: "velocitor_cdev_ioctl_free K usize d = Some (d, - ESTALE, None)" if "gen \<noteq> generation s"
  proof -
    have "v = ?t" "err = - ESTALE" using er that gen by (auto simp: velocitor_handles_erase_def)
    then show ?thesis by (simp add: velocitor_cdev_ioctl_free_def assms(2) er2)
  qed
  have unknown: "\<exists>d'. velocitor_cdev_ioctl_free K usize d = Some (d', - EINVAL, None) \<and> cd_ctrl d' = cd_ctrl d
       \<and> mirrors (handles (cd_dev d')) s
       \<and> map_of (h_entries (handles (cd_dev d'))) = map_of (h_entries ?t)" if "gen = generation s" "heap_lookup s h = None"
  proof -
    have v: "err = - EINVAL" "map_of (h_entries v) = map_of (h_entries ?t)" "h_generation v = generation s"
      using er that gen same
      by (auto simp: velocitor_handles_erase_def Let_def map_of_filter_key fun_upd_idem split: option.splits)
    have "table_good v" using erase_good [OF _ er] assms(3) by (simp add: mirrors_def)
    then have "mirrors v s" using assms(3) v by (simp add: mirrors_def)
    with v show ?thesis by (simp add: velocitor_cdev_ioctl_free_def assms(2) er2)
  qed
  have known: "\<exists>d'. velocitor_cdev_ioctl_free K usize d = Some (d', 0, None) \<and> mirrors (handles (cd_dev d')) s'
       \<and> heap_lookup s' = (heap_lookup s)(h := None) \<and> channel_served s s' d d'
       \<and> map_of (h_entries (handles (cd_dev d'))) = (map_of (h_entries ?t))(h := None)" if g: "gen = generation s" "heap_lookup s h \<noteq> None"
  proof -
    have err: "err = 0" "map_of (h_entries v) = (map_of (h_entries ?t))(h := None)"
      using er g gen same by (auto simp: velocitor_handles_erase_def Let_def map_of_filter_key split: option.splits)
    have m: "mirrors v s'" "res = 0" using mirrors_erase [OF assms(3) _ assms(6)] er err g by auto
    have look: "heap_lookup s' = (heap_lookup s)(h := None)"
      using heap_free_lookup(3) [of s h] assms(3,6) by (simp add: mirrors_def heap_free_op_def)
    define d1 where "d1 = d\<lparr>cd_dev := (cd_dev d)\<lparr>handles := v\<rparr>\<rparr>"
    have und: "undisturbed K s d1" using assms(1) by (simp add: undisturbed_def d1_def)
    let ?pay = "put_le 4 (get_le 0 4 u :: u32) @ replicate 12 0"
    obtain s2 status p where op: "ctrl_op s VEL_OP_FREE (put_ctrl (request_msg K VEL_OP_FREE) @ take 8 ?pay) = (s2, status, p)"
      by (metis prod_cases3)
    from transact_served [OF und _ _ _ op, of "put_le 4 (get_le 0 4 u :: u32)"] request_bytes(2) obtain a e t where
      run: "cdev_transact K VEL_OP_FREE (put_le 4 (get_le 0 4 u :: u32)) d1 = Some (e, Inr (a, sint status))"
      and e: "cd_dev e = cd_dev d1" "objs (cd_ctrl d1) a = None" "objs (cd_ctrl e) = (objs (cd_ctrl d1))(a := Some t)" "t_refs t = 1"
        "set (inflight (cd_ctrl e)) = set (inflight (cd_ctrl d1))" "rpdev (cd_ctrl e)" "drvdata (cd_ctrl e)" "usageFlags e = usageFlags d1"
        "sent (cd_ctrl e) = sent (cd_ctrl d1) @ [put_ctrl (request_msg K VEL_OP_FREE) @ take 8 ?pay]"
      and st: "(s2, status, p) = (case velocitor_free_block s h of (s, err) \<Rightarrow> (s, errno32 err, []))"
      by (auto simp: request_payload_len_def assms(4))
    have "s2 = s'" using st assms(6) by simp
    then have ch: "channel_served s s' d f" if "cd_ctrl f = (cd_ctrl e)\<lparr>objs := objs (cd_ctrl d)\<rparr>" "usageFlags f = usageFlags e"
      "cd_dev f = (cd_dev d)\<lparr>handles := handles (cd_dev f)\<rparr>" for f
      using e(5-9) that device_answer_state [OF op] unfolding channel_served_def by (auto simp: d1_def)
    have "status = errno32 0" using st assms(6) m(2) by simp
    then have "sint status = 0" using sint_errno [of 0] by simp
    moreover have "cdev_put a e = Some (e\<lparr>cd_ctrl := (cd_ctrl e)\<lparr>objs := objs (cd_ctrl d)\<rparr>\<rparr>)"
      using put_done [of e a t] e(2-4) by (simp add: fun_upd_idem d1_def)
    ultimately show ?thesis using run m(1) look err e(1) ch
      by (simp add: velocitor_cdev_ioctl_free_def assms(2) er2 d1_def)
  qed
  show ?thesis using stale unknown known by blast
qed


lemma filter_insort_fresh:
  "k \<notin> fst ` set xs \<Longrightarrow> filter (\<lambda>p. fst p \<noteq> k) (insort_key fst (k, a) xs) = xs"
  by (induction xs) (auto simp: filter_id_conv)

text \<open>The kernel, or the channel, lets no request through: no object, no identifier, no channel, no transport.\<close>

definition unsent :: "kernel \<Rightarrow> cdev_state \<Rightarrow> int \<Rightarrow> bool" where
  "unsent K d err \<longleftrightarrow>
     (case k_object K of
        None \<Rightarrow> err = - ENOMEM
      | Some a \<Rightarrow>
          if k_seq K < 0 then err = k_seq K
          else objs (cd_ctrl d) a = None \<and> idr_find (nat (k_seq K)) (cd_ctrl d) = None
            \<and> (if rpdev (cd_ctrl d) then k_send K \<noteq> 0 \<and> err = k_send K else err = - ENODEV))"

lemma transact_unsent:
  assumes "unsent K d err" and "request_payload_len op = Some n"
  shows "\<exists>e r. cdev_transact K op p d = Some (e, r)
     \<and> (case r of Inl x \<Rightarrow> x = err \<and> e = d | Inr (a, x) \<Rightarrow> x = err \<and> cdev_put a e = Some d)"
proof (cases "k_object K = None \<or> k_seq K < 0")
  case True
  then show ?thesis using assms(1)
    by (auto simp: unsent_def cdev_transact_def velocitor_ctrl_transaction_alloc_def split: option.splits)
next
  case False
  then obtain a where a: "k_object K = Some a" and seq: "0 \<le> k_seq K" by auto
  let ?c = "cd_ctrl d" and ?q = "nat (k_seq K)"
  have fresh: "objs ?c a = None" "?q \<notin> fst ` set (inflight ?c)"
    and err: "err \<noteq> 0" "rpdev ?c \<longrightarrow> k_send K \<noteq> 0 \<and> err = k_send K" "\<not> rpdev ?c \<longrightarrow> err = - ENODEV"
    using assms(1) a seq by (auto simp: unsent_def idr_find_def map_of_eq_None_iff split: if_splits)
  define t where "t = \<lparr>t_status = 0,
    t_msg = \<lparr>cm_seq = word_of_int (k_seq K), cm_op = op, cm_flags = 0, cm_status = 0, cm_reserved = 0\<rparr>,
    t_payload = p @ drop (length p) (replicate 16 0), t_answer = replicate 40 0, t_seq = ?q, t_sync = True, t_notified = 0, t_refs = 1\<rparr>"
  have t: "t_refs t = 1" "t_notified t = 0" "t_sync t" "t_seq t = ?q" "cm_op (t_msg t) = op" by (simp_all add: t_def)
  define c1 where "c1 = ?c\<lparr>inflight := insort_key fst (?q, a) (inflight ?c), objs := (objs ?c)(a := Some t)\<rparr>"
  define c2 where "c2 = ?c\<lparr>objs := (objs ?c)(a := Some (t\<lparr>t_status := - ECANCELED, t_notified := 1, t_refs := 1\<rparr>))\<rparr>"
  have idem: "(objs ?c)(a := None) = objs ?c" using fresh(1) by (simp add: fun_upd_idem)
  have found: "idr_find ?q c1 \<noteq> None"
    by (simp add: c1_def idr_find_def map_of_eq_None_iff set_insort_key)
  have send: "velocitor_ctrl_transaction_send (k_send K) a c1 = Some (c2, err)"
    using found t err assms(2) filter_insort_fresh [OF fresh(2), of a]
    by (auto simp: velocitor_ctrl_transaction_send_def send_get_def send_post_def obj_upd_def c1_def c2_def
        velocitor_ctrl_transaction_cancel_def cancel_claim_def finish_def idr_remove_def idr_find_def
        velocitor_ctrl_transaction_notify_def velocitor_ctrl_transaction_release_def)
  have "cdev_transact K op p d = Some (d\<lparr>cd_ctrl := c2\<rparr>, Inr (a, err))"
    using send a seq err(1)
    by (simp add: cdev_transact_def velocitor_ctrl_transaction_alloc_def Let_def obj_upd_def c1_def t_def)
  moreover have "cdev_put a (d\<lparr>cd_ctrl := c2\<rparr>) = Some d"
    by (simp add: cdev_put_def velocitor_ctrl_transaction_release_def velocitor_ctrl_transaction_free_def c2_def idem)
  ultimately show ?thesis by simp
qed

text \<open>C39. A free that cannot be sent loses the device's memory: the handle leaves the driver's table before
  the request is made, so when the kernel has no memory or no identifier for the transaction, the
  channel is gone, or the transport refuses the message, the ioctl reports that error and leaves the
  channel as it was, while the block is still live on the device; and every later attempt to free it,
  however well the kernel does, is refused as an unknown handle without a message to the device.\<close>

theorem cdev_failed_free_leaks:
  assumes "mirrors (handles (cd_dev d)) s" and "heap_lookup s h \<noteq> None" and "unsent K d err"
    and "copy_struct_from_user K 12 usize = Inr u" and "h = get_le 0 4 u" and "generation s = get_le 8 4 u"
  shows "\<exists>d'. velocitor_cdev_ioctl_free K usize d = Some (d', err, None) \<and> cd_ctrl d' = cd_ctrl d
     \<and> map_of (h_entries (handles (cd_dev d'))) h = None \<and> \<not> mirrors (handles (cd_dev d')) s
     \<and> (\<forall>K'. copy_struct_from_user K' 12 usize = Inr u \<longrightarrow>
          (\<exists>e. velocitor_cdev_ioctl_free K' usize d' = Some (e, - EINVAL, None) \<and> cd_ctrl e = cd_ctrl d))"
proof -
  let ?t = "handles (cd_dev d)"
  have gen: "h_generation ?t = generation s" using assms(1) by (simp add: mirrors_def)
  have there: "map_of (h_entries ?t) h \<noteq> None" using assms(2) mirrors_known [OF assms(1)] by simp
  obtain v where er: "velocitor_handles_erase (get_le 8 4 u) (get_le 0 4 u) ?t = (v, 0)"
    and v: "map_of (h_entries v) = (map_of (h_entries ?t))(h := None)" "h_generation v = generation s"
    using there gen assms(5,6) by (auto simp: velocitor_handles_erase_def Let_def map_of_filter_key split: option.splits)
  define d' where "d' = d\<lparr>cd_dev := (cd_dev d)\<lparr>handles := v\<rparr>\<rparr>"
  have "cd_ctrl d' = cd_ctrl d" by (simp add: d'_def)
  then have "unsent K d' err" using assms(3) by (simp only: unsent_def)
  from transact_unsent [OF this, of VEL_OP_FREE 8 "put_le 4 (get_le 0 4 u :: u32)"] obtain e r
    where "cdev_transact K VEL_OP_FREE (put_le 4 (get_le 0 4 u :: u32)) d' = Some (e, r)"
      "case r of Inl x \<Rightarrow> x = err \<and> e = d' | Inr (a, x) \<Rightarrow> x = err \<and> cdev_put a e = Some d'"
    by (auto simp: request_payload_len_def)
  then have "velocitor_cdev_ioctl_free K usize d = Some (d', err, None)"
    using assms(4) er by (auto simp: velocitor_cdev_ioctl_free_def d'_def split: sum.splits)
  moreover have "\<not> mirrors (handles (cd_dev d')) s"
    using v(1) assms(2) unfolding mirrors_def d'_def by (auto dest!: spec [of _ h])
  moreover have "\<exists>e. velocitor_cdev_ioctl_free K' usize d' = Some (e, - EINVAL, None) \<and> cd_ctrl e = cd_ctrl d"
    if "copy_struct_from_user K' 12 usize = Inr u" for K'
  proof -
    have "snd (velocitor_handles_erase (get_le 8 4 u) (get_le 0 4 u) v) = - EINVAL"
      using v assms(5,6) by (simp add: velocitor_handles_erase_def Let_def)
    then show ?thesis
      using that by (simp add: velocitor_cdev_ioctl_free_def d'_def case_prod_beta Let_def)
  qed
  ultimately show ?thesis using v(1) by (intro exI [of _ d']) (simp add: d'_def)
qed

text \<open>A freshly booted card, and a session whose calls go undisturbed.\<close>

definition booted :: "unit velocitor_state" where
  "booted = velocitor_alloc_reset (velocitor_new ())"

definition session :: "velocitor_handles \<Rightarrow> cdev_state" where
  "session t = \<lparr>cd_dev = drv_zero\<lparr>handles := t\<rparr>,
     cd_ctrl = velocitor_ctrl_zero\<lparr>rpdev := True, drvdata := True\<rparr>, usageFlags = True\<rparr>"

definition calm :: "'h velocitor_state \<Rightarrow> bytes \<Rightarrow> kernel" where
  "calm s u = \<lparr>copy_struct_from_user = (\<lambda>ksize usize. Inr u), copy_struct_to_user = (\<lambda>usize bs. (0, False)),
     k_object = Some 3, k_seq = 1, k_send = 0, k_wait = served s, k_entry = True, k_xa = 0, k_jiffies = 0\<rparr>"

lemma calm_undisturbed: "undisturbed (calm s u) s (session t)"
  by (simp add: undisturbed_def calm_def session_def velocitor_ctrl_zero_def idr_find_def)

definition fresh_table :: "velocitor_handles" where
  "fresh_table = \<lparr>h_entries = [], h_generation = generation booted, h_objects = 0\<rparr>"

lemma booted_mirrors: "mirrors fresh_table booted"
  unfolding fresh_table_def booted_def by (rule mirrors_reset)

definition ask_100 :: bytes where
  "ask_100 = put_le 8 (100 :: u64) @ put_le 4 (0 :: u32) @ put_le 4 (0 :: u32) @ replicate 16 0"

lemma booted_alloc:
  "\<exists>r. velocitor_alloc_block booted \<lparr>areq_size = 100, areq_dtype = 0, areq_node = 0\<rparr> = (one_block, Inr r) \<and> aresp_handle r = 1"
proof -
  let ?req = "\<lparr>areq_size = 100, areq_dtype = 0, areq_node = 0\<rparr>"
  have "fst (velocitor_alloc_block booted ?req) = one_block"
    by (simp add: one_block_def heap_alloc_op_def booted_def split: prod.splits sum.splits)
  moreover have "\<exists>r. snd (velocitor_alloc_block booted ?req) = Inr r \<and> aresp_handle r = 1"
    by (simp add: booted_def velocitor_alloc_block_def Let_def velocitor_alloc_reset_def velocitor_new_def
        velocitor_alloc_pick_node_def ROUND_UP_256 velocitor_node_free_def velocitor_node_end_def velocitor_node_base_def)
  ultimately show ?thesis by (metis prod.collapse)
qed

theorem cdev_alloc_mirrors_witness:
  "\<exists>d' out. velocitor_cdev_ioctl_alloc (calm booted ask_100) 32 (session fresh_table) = Some (d', 0, Some out)
     \<and> mirrors (handles (cd_dev d')) one_block \<and> map_of (h_entries (handles (cd_dev d'))) 1 \<noteq> None"
proof -
  have "\<lparr>areq_size = get_le 0 8 ask_100, areq_dtype = get_le 12 4 ask_100, areq_node = get_le 8 4 ask_100\<rparr> =
      \<lparr>areq_size = 100, areq_dtype = 0, areq_node = 0\<rparr>"
    by (simp add: ask_100_def get_le_skip)
  then obtain r where r: "velocitor_alloc_block booted
      \<lparr>areq_size = get_le 0 8 ask_100, areq_dtype = get_le 12 4 ask_100, areq_node = get_le 8 4 ask_100\<rparr> = (one_block, Inr r)"
    "aresp_handle r = 1"
    using booted_alloc by metis
  have "copy_struct_from_user (calm booted ask_100) 32 32 = Inr ask_100" "mirrors (handles (cd_dev (session fresh_table))) booted"
    using booted_mirrors by (simp_all add: calm_def session_def)
  from cdev_alloc_mirrors [OF calm_undisturbed this refl r(1)] r(2) show ?thesis by auto
qed

definition free_1 :: "'h velocitor_state \<Rightarrow> bytes" where
  "free_1 s = put_le 4 (1 :: u32) @ put_le 4 (0 :: u32) @ put_le 4 (generation s)"

lemma free_1_fields: "get_le 0 4 (free_1 s) = (1 :: u32)" "get_le 8 4 (free_1 s) = generation s"
  by (simp_all add: free_1_def get_le_skip)

lemma one_block_live: "heap_lookup one_block 1 \<noteq> None"
proof -
  have "\<not> (2 :: u32) \<le> 1" by code_simp
  then show ?thesis by (simp add: heap_lookup_def one_block_simps)
qed

lemma session_with_block: "\<exists>t. mirrors t one_block"
  using booted_alloc mirrors_insert [OF booted_mirrors] by blast


theorem cdev_failed_free_leaks_witness:
  "\<exists>t d'. velocitor_cdev_ioctl_free (calm one_block (free_1 one_block)) 12
       ((session t)\<lparr>cd_ctrl := (cd_ctrl (session t))\<lparr>rpdev := False\<rparr>\<rparr>) = Some (d', - 19, None)
     \<and> \<not> mirrors (handles (cd_dev d')) one_block"
proof -
  obtain t where t: "mirrors t one_block" using session_with_block by blast
  let ?K = "calm one_block (free_1 one_block)" and ?d = "(session t)\<lparr>cd_ctrl := (cd_ctrl (session t))\<lparr>rpdev := False\<rparr>\<rparr>"
  have "copy_struct_from_user ?K 12 12 = Inr (free_1 one_block)" "mirrors (handles (cd_dev ?d)) one_block"
    "unsent ?K ?d (- 19)"
    using t by (simp_all add: calm_def session_def unsent_def velocitor_ctrl_zero_def idr_find_def)
  from cdev_failed_free_leaks [OF this(2) _ this(3) this(1) refl] show ?thesis
    using one_block_live by (auto simp: free_1_fields)
qed

lemma stats_served:
  assumes "undisturbed K s d"
  shows "\<exists>d'. velocitor_cdev_ioctl_stats K usize d = Some (d', 0, Some (put_le 4 (live_handles s) @ put_le 4 (0 :: u32) @
       put_le 8 (velocitor_node_end 0 - velocitor_node_base 0) @ put_le 8 (velocitor_node_free s 0) @
       put_le 8 (velocitor_node_end 1 - velocitor_node_base 1) @ put_le 8 (velocitor_node_free s 1)))
     \<and> cd_dev d' = cd_dev d \<and> channel_served s s d d'"
proof -
  obtain s2 status p where op: "ctrl_op s VEL_OP_STAT (put_ctrl (request_msg K VEL_OP_STAT) @ take 0 (replicate 16 0)) = (s2, status, p)"
    by (metis prod_cases3)
  have st: "s2 = s" "status = 0" "p = put_stat (velocitor_stat_fill s)" using op by (auto simp: ctrl_op_def Let_def)
  have ps: "put_stat (velocitor_stat_fill s) =
      put_le 8 (velocitor_node_end 0 - velocitor_node_base 0) @ put_le 8 (velocitor_node_free s 0) @
      put_le 8 (velocitor_node_end 1 - velocitor_node_base 1) @ put_le 8 (velocitor_node_free s 1) @
      put_le 4 (live_handles s) @ put_le 4 (0 :: u32)"
    by (simp add: put_stat_def velocitor_stat_fill_def upt_rec)
  from transact_served [OF assms _ _ _ op, of "[]"] obtain a e t where
    run: "cdev_transact K VEL_OP_STAT [] d = Some (e, Inr (a, sint status))"
    and e: "cd_dev e = cd_dev d" "objs (cd_ctrl d) a = None" "objs (cd_ctrl e) = (objs (cd_ctrl d))(a := Some t)" "t_refs t = 1"
      "set (inflight (cd_ctrl e)) = set (inflight (cd_ctrl d))" "rpdev (cd_ctrl e)" "drvdata (cd_ctrl e)" "usageFlags e = usageFlags d"
      "sent (cd_ctrl e) = sent (cd_ctrl d) @ [put_ctrl (request_msg K VEL_OP_STAT) @ take 0 (replicate 16 0)]"
    and ok: "status = 0 \<Longrightarrow> t_answer t = p @ drop (length p) (replicate 40 0)"
    by (auto simp: request_payload_len_def)
  have ans: "answer_of a e = put_stat (velocitor_stat_fill s)" using ok st e(3) by (simp add: answer_of_def)
  have put: "cdev_put a e = Some (e\<lparr>cd_ctrl := (cd_ctrl e)\<lparr>objs := objs (cd_ctrl d)\<rparr>\<rparr>)"
    using put_done [of e a t] e(2-4) by (simp add: fun_upd_idem)
  have K: "velocitor_safe_copy_to_user K usize bs = 0" for bs
    using assms by (simp add: undisturbed_def velocitor_safe_copy_to_user_def)
  have run: "velocitor_cdev_ioctl_stats K usize d = Some (e\<lparr>cd_ctrl := (cd_ctrl e)\<lparr>objs := objs (cd_ctrl d)\<rparr>\<rparr>, 0,
      Some (put_le 4 (live_handles s) @ put_le 4 (0 :: u32) @
       put_le 8 (velocitor_node_end 0 - velocitor_node_base 0) @ put_le 8 (velocitor_node_free s 0) @
       put_le 8 (velocitor_node_end 1 - velocitor_node_base 1) @ put_le 8 (velocitor_node_free s 1)))"
    using run st by (simp add: velocitor_cdev_ioctl_stats_def put ans Let_def K ps get_le_skip upt_rec)
  moreover have "channel_served s s d (e\<lparr>cd_ctrl := (cd_ctrl e)\<lparr>objs := objs (cd_ctrl d)\<rparr>\<rparr>)"
    using e(1,5-9) device_answer_state [OF op] st(1) unfolding channel_served_def by auto
  ultimately show ?thesis using e(1) by (intro exI [of _ "e\<lparr>cd_ctrl := (cd_ctrl e)\<lparr>objs := objs (cd_ctrl d)\<rparr>\<rparr>"]) simp
qed

text \<open>STATS and the dispatch: a command of another magic or number is \<open>-ENOTTY\<close> and changes nothing; the
  STATS command, however its size bits are set, hands back the device's count of live handles and,
  per node, its capacity and what is still free, and leaves no transaction behind.\<close>

theorem cdev_stats_exact:
  assumes "undisturbed K s d"
  shows "\<exists>d'. velocitor_cdev_ioctl_stats K usize d = Some (d', 0, Some (put_le 4 (live_handles s) @ put_le 4 (0 :: u32) @
       put_le 8 (velocitor_node_end 0 - velocitor_node_base 0) @ put_le 8 (velocitor_node_free s 0) @
       put_le 8 (velocitor_node_end 1 - velocitor_node_base 1) @ put_le 8 (velocitor_node_free s 1)))
     \<and> cd_dev d' = cd_dev d \<and> objs (cd_ctrl d') = objs (cd_ctrl d) \<and> set (inflight (cd_ctrl d')) = set (inflight (cd_ctrl d))
     \<and> (ioc_type cmd = VEL_DRV_MAGIC \<and> ioc_nr cmd = 0x31 \<and> ioc_size cmd = usize \<longrightarrow>
          velocitor_cdev_ioctl K cmd s d = map_option (Pair s) (velocitor_cdev_ioctl_stats K usize d))
     \<and> (ioc_type cmd \<noteq> VEL_DRV_MAGIC \<or> ioc_nr cmd \<notin> {0x30, 0x31, 0x32, 0x33} \<longrightarrow>
          velocitor_cdev_ioctl K cmd s d = Some (s, d, - ENOTTY, None))"
  using stats_served [OF assms] by (auto simp: velocitor_cdev_ioctl_def channel_served_def)

theorem cdev_stats_exact_witness:
  "\<exists>d'. velocitor_cdev_ioctl_stats (calm one_block []) 40 (session fresh_table) = Some (d', 0, Some (put_le 4 (1 :: u32) @ put_le 4 (0 :: u32) @
       put_le 8 (velocitor_node_end 0 - velocitor_node_base 0) @ put_le 8 (velocitor_node_free one_block 0) @
       put_le 8 (velocitor_node_end 1 - velocitor_node_base 1) @ put_le 8 (velocitor_node_free one_block 1)))"
  using cdev_stats_exact [OF calm_undisturbed [of one_block "[]" fresh_table], of 40] by (simp add: one_block_simps) blast

end
