(* ===== verification/Drv_Data.thy ===== *)
theory Drv_Data
  imports Drv_Cdev
begin

text \<open>
  The driver's data plane: \<open>data.c\<close>, \<open>data-transaction.c\<close> and \<open>data-virtio.c\<close>. Per engine there are
  \<open>VEL_DATA_INFLIGHT\<close> slots of coherent memory, an IDA of the slots in use and a virtqueue, which is here
  the list of the slots it holds, oldest first.
\<close>

section \<open>State\<close>

text \<open>\<open>struct velocitor_data_transaction\<close>, its union used as \<open>copy\<close>, the only operation sent.\<close>

record data_transaction =
  dt_header :: vel_req_hdr
  dt_copy :: vel_copy_hdr
  dt_response :: vel_resp
  dt_slot_idx :: int
  dt_engine :: u16

record velocitor_data =
  dq_mem :: "nat \<Rightarrow> nat \<Rightarrow> data_transaction"
  dq_slots :: "nat \<Rightarrow> nat list"
  dq_ring :: "nat \<Rightarrow> nat list"
  dd_seq :: u32

definition zero_transaction :: data_transaction where
  "zero_transaction = \<lparr>dt_header = \<lparr>rq_seq = 0, rq_generation = 0, rq_op = 0, rq_flags = 0\<rparr>,
     dt_copy = \<lparr>cp_handle = 0, cp_offset = 0, cp_dma_addr = 0, cp_len = 0\<rparr>,
     dt_response = \<lparr>rs_seq = 0, rs_status = 0, rs_cycles = 0, rs_far_accesses = 0, rs_engine = 0\<rparr>,
     dt_slot_idx = 0, dt_engine = 0\<rparr>"

definition slot_upd :: "nat \<Rightarrow> nat \<Rightarrow> (data_transaction \<Rightarrow> data_transaction) \<Rightarrow> velocitor_data \<Rightarrow> velocitor_data" where
  "slot_upd e i f d = d\<lparr>dq_mem := (dq_mem d)(e := (dq_mem d e)(i := f (dq_mem d e i)))\<rparr>"

section \<open>Slots\<close>

text \<open>\<open>ida_free\<close> of the slot and the engine the transaction itself names.\<close>

definition velocitor_data_transaction_reset :: "nat \<Rightarrow> nat \<Rightarrow> velocitor_data \<Rightarrow> velocitor_data" where
  "velocitor_data_transaction_reset e i d =
     (let slot = dt_slot_idx (dq_mem d e i);
          engine = unat (dt_engine (dq_mem d e i));
          d = slot_upd e i (\<lambda>_. zero_transaction) d;
          d = slot_upd e i (\<lambda>t. t\<lparr>dt_slot_idx := - 1\<rparr>) d
      in if slot \<noteq> - 1 then d\<lparr>dq_slots := (dq_slots d)(engine := filter (\<lambda>j. int j \<noteq> slot) (dq_slots d engine))\<rparr> else d)"

text \<open>\<open>index\<close> is what \<open>ida_alloc_max\<close> answers.\<close>

definition velocitor_data_transaction_init :: "int \<Rightarrow> nat \<Rightarrow> velocitor_data \<Rightarrow> velocitor_data \<times> (int + nat)" where
  "velocitor_data_transaction_init index engine d =
     (if index < 0 then (d, Inl index)
      else
        let i = nat index;
            d = d\<lparr>dq_slots := (dq_slots d)(engine := i # dq_slots d engine)\<rparr>;
            seq = dd_seq d;
            d = d\<lparr>dd_seq := dd_seq d + 1\<rparr>
        in (slot_upd engine i (\<lambda>t. t\<lparr>dt_header := (dt_header t)\<lparr>rq_seq := seq\<rparr>, dt_slot_idx := index,
                                     dt_engine := word_of_nat engine\<rparr>) d, Inr i))"

section \<open>Requests\<close>

text \<open>\<open>res\<close> is what \<open>virtqueue_add_sgs\<close> answers.\<close>

definition velocitor_data_transaction_kick :: "int \<Rightarrow> nat \<Rightarrow> nat \<Rightarrow> velocitor_data \<Rightarrow> velocitor_data \<times> int" where
  "velocitor_data_transaction_kick res e i d =
     (if res \<noteq> 0 then (velocitor_data_transaction_reset e i d, res)
      else (d\<lparr>dq_ring := (dq_ring d)(e := dq_ring d e @ [i])\<rparr>, 0))"

definition driver_data_copy ::
  "int \<Rightarrow> int \<Rightarrow> u32 \<Rightarrow> u16 \<Rightarrow> velocitor_handle \<Rightarrow> u64 \<Rightarrow> u64 \<Rightarrow> u64 \<Rightarrow> velocitor_data \<Rightarrow> velocitor_data \<times> int" where
  "driver_data_copy index res engine op block offset host_addr len d =
     (if engine \<ge> VEL_ENGINES \<or> op \<noteq> VEL_DATA_OP_COPY_H2D \<and> op \<noteq> VEL_DATA_OP_COPY_D2H then (d, - EINVAL)
      else if offset + len < offset \<or> offset + len > vh_size block then (d, - EINVAL)
      else case velocitor_data_transaction_init index (unat engine) d of
        (d, Inl err) \<Rightarrow> (d, err)
      | (d, Inr i) \<Rightarrow>
          let d = slot_upd (unat engine) i (\<lambda>t. t\<lparr>
                 dt_header := (dt_header t)\<lparr>rq_op := op, rq_generation := vh_generation block\<rparr>,
                 dt_copy := \<lparr>cp_handle = vh_handle block, cp_offset = offset, cp_dma_addr = host_addr, cp_len = len\<rparr>\<rparr>) d
          in velocitor_data_transaction_kick res (unat engine) i d)"

text \<open>The readable buffer of the chain, \<open>sizeof(struct vel_req_hdr) + sizeof(struct vel_copy_hdr)\<close> from the slot on.\<close>

definition request_buffer :: "data_transaction \<Rightarrow> bytes" where
  "request_buffer t = put_req (dt_header t) @ put_copy (dt_copy t)"

section \<open>Completions\<close>

definition velocitor_data_complete :: "nat \<Rightarrow> nat \<Rightarrow> velocitor_data \<Rightarrow> velocitor_data" where
  "velocitor_data_complete e i d = d"

text \<open>The callback of a virtqueue; \<open>used\<close> is what \<open>virtqueue_get_buf\<close> yields until it is empty.\<close>

fun velocitor_data_virtio_callback :: "nat \<Rightarrow> nat list \<Rightarrow> velocitor_data \<Rightarrow> velocitor_data" where
  "velocitor_data_virtio_callback e [] d = d"
| "velocitor_data_virtio_callback e (i # used) d =
     (let d = d\<lparr>dq_ring := (dq_ring d)(e := remove1 i (dq_ring d e))\<rparr>;
          d = velocitor_data_complete e i d
      in velocitor_data_virtio_callback e used (velocitor_data_transaction_reset e i d))"

text \<open>The inner loop of the removal: \<open>virtqueue_detach_unused_buf\<close> yields what the queue still holds.\<close>

fun detach_unused :: "nat \<Rightarrow> nat list \<Rightarrow> velocitor_data \<Rightarrow> velocitor_data" where
  "detach_unused e [] d = d"
| "detach_unused e (i # held) d =
     (let d = d\<lparr>dq_ring := (dq_ring d)(e := remove1 i (dq_ring d e))\<rparr>;
          d = slot_upd e i (\<lambda>t. t\<lparr>dt_response := (dt_response t)\<lparr>rs_status := put_errno (- ESTALE)\<rparr>\<rparr>) d;
          d = velocitor_data_complete e i d
      in detach_unused e held (velocitor_data_transaction_reset e i d))"

definition velocitor_data_virtio_remove :: "velocitor_data \<Rightarrow> velocitor_data" where
  "velocitor_data_virtio_remove d = fold (\<lambda>e d. detach_unused e (dq_ring d e) d) [0..<VEL_ENGINES] d"

definition velocitor_data_virtio_probe :: "bool \<Rightarrow> int \<Rightarrow> velocitor_data \<Rightarrow> velocitor_data \<times> int" where
  "velocitor_data_virtio_probe found res d =
     (if \<not> found then (d, - ENODEV) else if res \<noteq> 0 then (d, res) else (d\<lparr>dq_ring := (\<lambda>e. [])\<rparr>, 0))"

text \<open>
  One iteration of the initialisation; \<open>mem_ok\<close> and \<open>action_err\<close> are the answers of \<open>dmam_alloc_coherent\<close>,
  whose memory is zeroed, and of \<open>devm_add_action_or_reset\<close>.
\<close>

definition data_initialize1 :: "bool \<Rightarrow> int \<Rightarrow> nat \<Rightarrow> velocitor_data \<Rightarrow> velocitor_data \<times> int" where
  "data_initialize1 mem_ok action_err i d =
     (let d = d\<lparr>dq_slots := (dq_slots d)(i := [])\<rparr> in
      if \<not> mem_ok then (d, - ENOMEM)
      else (d\<lparr>dq_mem := (dq_mem d)(i := (\<lambda>j. zero_transaction\<lparr>dt_slot_idx := - 1\<rparr>))\<rparr>, action_err))"

definition velocitor_data_initialize ::
  "(nat \<Rightarrow> bool) \<Rightarrow> (nat \<Rightarrow> int) \<Rightarrow> velocitor_data \<Rightarrow> velocitor_data \<times> int" where
  "velocitor_data_initialize mem_ok action_err d =
     (case data_initialize1 (mem_ok 0) (action_err 0) 0 d of
        (d, err) \<Rightarrow> if err \<noteq> 0 then (d, err) else data_initialize1 (mem_ok 1) (action_err 1) 1 d)"

definition data_ready :: velocitor_data where
  "data_ready = fst (velocitor_data_initialize (\<lambda>_. True) (\<lambda>_. 0)
     \<lparr>dq_mem = (\<lambda>e i. zero_transaction), dq_slots = (\<lambda>e. []), dq_ring = (\<lambda>e. []), dd_seq = 0\<rparr>)"

lemmas data_ready_defs = data_ready_def velocitor_data_initialize_def data_initialize1_def Let_def

section \<open>The invariant\<close>

text \<open>
  The slots in use are the slots the virtqueue holds, each once, each in range and labelled with its own
  position; every other slot is clean.
\<close>

definition engine_good :: "nat \<Rightarrow> nat list \<Rightarrow> nat list \<Rightarrow> (nat \<Rightarrow> data_transaction) \<Rightarrow> bool" where
  "engine_good e ring slots m \<longleftrightarrow> distinct ring \<and> set slots = set ring \<and> (\<forall>i \<in> set ring. i < VEL_DATA_INFLIGHT)
     \<and> (\<forall>i < VEL_DATA_INFLIGHT. if i \<in> set ring then dt_slot_idx (m i) = int i \<and> dt_engine (m i) = word_of_nat e
          else m i = zero_transaction\<lparr>dt_slot_idx := - 1\<rparr>)"

definition slots_good :: "velocitor_data \<Rightarrow> bool" where
  "slots_good d \<longleftrightarrow> (\<forall>e < VEL_ENGINES. engine_good e (dq_ring d e) (dq_slots d e) (dq_mem d e))"

text \<open>The same with one slot taken and not in the ring.\<close>

definition slot_open :: "nat \<Rightarrow> nat \<Rightarrow> velocitor_data \<Rightarrow> bool" where
  "slot_open e i d \<longleftrightarrow> e < VEL_ENGINES \<and> engine_good e (i # dq_ring d e) (dq_slots d e) (dq_mem d e)
     \<and> (\<forall>k < VEL_ENGINES. k \<noteq> e \<longrightarrow> engine_good k (dq_ring d k) (dq_slots d k) (dq_mem d k))"

lemma initialize_slots: "slots_good data_ready"
  by (simp add: slots_good_def engine_good_def data_ready_defs less_2_cases_iff)

lemma ready_empty: "k < VEL_ENGINES \<Longrightarrow> dq_ring data_ready k = [] \<and> dq_slots data_ready k = []"
  by (auto simp: data_ready_defs less_2_cases_iff)

lemma reset_slot:
  assumes "slot_open e i d"
  shows "velocitor_data_transaction_reset e i d =
    d\<lparr>dq_mem := (dq_mem d)(e := (dq_mem d e)(i := zero_transaction\<lparr>dt_slot_idx := - 1\<rparr>)),
      dq_slots := (dq_slots d)(e := filter (\<lambda>j. j \<noteq> i) (dq_slots d e))\<rparr>"
proof -
  have "dt_slot_idx (dq_mem d e i) = int i" "dt_engine (dq_mem d e i) = word_of_nat e"
    using assms by (simp_all add: slot_open_def engine_good_def)
  moreover have "unat (word_of_nat e :: u16) = e" using assms by (simp add: slot_open_def unat_of_nat)
  ultimately show ?thesis by (simp add: velocitor_data_transaction_reset_def Let_def slot_upd_def)
qed

lemma reset_open:
  assumes "slot_open e i d"
  shows "slots_good (velocitor_data_transaction_reset e i d)"
  using assms unfolding reset_slot [OF assms] by (auto simp: slot_open_def slots_good_def engine_good_def)

lemma init_open:
  assumes "slots_good d" and "e < VEL_ENGINES" and "0 \<le> index \<longrightarrow> index < VEL_DATA_INFLIGHT \<and> nat index \<notin> set (dq_slots d e)"
    and "velocitor_data_transaction_init index e d = (u, r)"
  shows "case r of Inl err \<Rightarrow> u = d \<and> err = index \<and> index < 0
    | Inr i \<Rightarrow> slot_open e i u \<and> int i = index \<and> dq_ring u = dq_ring d \<and> dd_seq u = dd_seq d + 1
        \<and> dq_mem u e i = zero_transaction\<lparr>dt_header := (dt_header zero_transaction)\<lparr>rq_seq := dd_seq d\<rparr>, dt_slot_idx := index,
            dt_engine := word_of_nat e\<rparr>"
proof (cases "index < 0")
  case True
  then show ?thesis using assms(4) by (auto simp: velocitor_data_transaction_init_def)
next
  case False
  define i where "i = nat index"
  have i: "i < 128" "i \<notin> set (dq_slots d e)" "int i = index" using False assms(3) by (simp_all add: i_def nat_less_iff)
  have g: "engine_good e (dq_ring d e) (dq_slots d e) (dq_mem d e)" using assms(1,2) by (simp add: slots_good_def)
  then have z: "dq_mem d e i = zero_transaction\<lparr>dt_slot_idx := - 1\<rparr>" "i \<notin> set (dq_ring d e)" using i by (simp_all add: engine_good_def)
  have u: "u = d\<lparr>dq_slots := (dq_slots d)(e := i # dq_slots d e), dd_seq := dd_seq d + 1,
      dq_mem := (dq_mem d)(e := (dq_mem d e)(i := zero_transaction\<lparr>dt_header := (dt_header zero_transaction)\<lparr>rq_seq := dd_seq d\<rparr>,
        dt_slot_idx := index, dt_engine := word_of_nat e\<rparr>))\<rparr>" "r = Inr i"
    using assms(4) False z(1) by (auto simp: velocitor_data_transaction_init_def Let_def slot_upd_def i_def)
  have "slot_open e i u"
    using g z(2) i assms(1,2) by (auto simp: slot_open_def engine_good_def slots_good_def u(1))
  then show ?thesis using i(3) by (simp add: u)
qed

lemma fill_open:
  assumes "slot_open e i d" and "\<And>t. dt_slot_idx (f t) = dt_slot_idx t \<and> dt_engine (f t) = dt_engine t"
  shows "slot_open e i (slot_upd e i f d)"
  using assms by (auto simp: slot_open_def slot_upd_def engine_good_def)

lemma kick_good:
  assumes "slot_open e i d"
  shows "slots_good (fst (velocitor_data_transaction_kick res e i d))"
  using assms reset_open [OF assms]
  by (auto simp: velocitor_data_transaction_kick_def slot_open_def slots_good_def engine_good_def)

lemma take_open:
  assumes "slots_good d" and "e < VEL_ENGINES" and "i \<in> set (dq_ring d e)"
  shows "slot_open e i (d\<lparr>dq_ring := (dq_ring d)(e := remove1 i (dq_ring d e))\<rparr>)"
proof -
  have "engine_good e (dq_ring d e) (dq_slots d e) (dq_mem d e)" using assms(1,2) by (simp add: slots_good_def)
  then show ?thesis using assms by (auto simp: slot_open_def slots_good_def engine_good_def)
qed

section \<open>Operations keep it\<close>

lemma reset_overwrites:
  assumes "\<And>t. dt_slot_idx (f t) = dt_slot_idx t \<and> dt_engine (f t) = dt_engine t"
  shows "velocitor_data_transaction_reset e i (slot_upd e i f d) = velocitor_data_transaction_reset e i d"
  using assms by (simp add: velocitor_data_transaction_reset_def Let_def slot_upd_def)

text \<open>Apart from the status nobody reads any more, detaching a buffer is completing it.\<close>

lemma detach_completes: "detach_unused e held d = velocitor_data_virtio_callback e held d"
  by (induction held arbitrary: d) (simp_all add: Let_def velocitor_data_complete_def reset_overwrites)

lemma callback_slots:
  assumes "slots_good d" and "e < VEL_ENGINES" and "distinct used" and "set used \<subseteq> set (dq_ring d e)"
  shows "slots_good (velocitor_data_virtio_callback e used d)
     \<and> dq_ring (velocitor_data_virtio_callback e used d) = (dq_ring d)(e := filter (\<lambda>i. i \<notin> set used) (dq_ring d e))"
  using assms
proof (induction used arbitrary: d)
  case (Cons i used)
  define d' where "d' = d\<lparr>dq_ring := (dq_ring d)(e := remove1 i (dq_ring d e))\<rparr>"
  have op: "slot_open e i d'" unfolding d'_def using Cons.prems by (intro take_open) simp_all
  define u where "u = velocitor_data_transaction_reset e i d'"
  have "distinct (dq_ring d e)" using Cons.prems(1,2) by (simp add: slots_good_def engine_good_def)
  then have ring: "dq_ring u = (dq_ring d)(e := filter (\<lambda>j. j \<noteq> i) (dq_ring d e))"
    unfolding u_def reset_slot [OF op] by (simp add: d'_def distinct_remove1_removeAll removeAll_filter_not_eq) (simp add: eq_commute)
  have "slots_good u" unfolding u_def by (rule reset_open [OF op])
  moreover have "set used \<subseteq> set (dq_ring u e)" using Cons.prems(3,4) by (auto simp: ring)
  ultimately have "slots_good (velocitor_data_virtio_callback e used u)
      \<and> dq_ring (velocitor_data_virtio_callback e used u) = (dq_ring u)(e := filter (\<lambda>i. i \<notin> set used) (dq_ring u e))"
    by (intro Cons.IH) (use Cons.prems(2,3) in simp_all)
  then show ?case
    by (simp add: Let_def velocitor_data_complete_def d'_def [symmetric] u_def [symmetric] ring conj_commute)
qed simp

lemma remove_slots:
  assumes "slots_good d"
  shows "slots_good (velocitor_data_virtio_remove d)
     \<and> (\<forall>e < VEL_ENGINES. dq_ring (velocitor_data_virtio_remove d) e = [])"
proof -
  have one: "slots_good (detach_unused e (dq_ring u e) u) \<and> dq_ring (detach_unused e (dq_ring u e) u) = (dq_ring u)(e := [])"
    if "slots_good u" "e < VEL_ENGINES" for u e
    using callback_slots [OF that, of "dq_ring u e"] that
    by (simp add: detach_completes slots_good_def engine_good_def)
  have two: "velocitor_data_virtio_remove d = (let u = detach_unused 0 (dq_ring d 0) d in detach_unused 1 (dq_ring u 1) u)"
    by (simp add: velocitor_data_virtio_remove_def upt_rec Let_def)
  show ?thesis
    using one [OF assms, of 0] one [of "detach_unused 0 (dq_ring d 0) d" 1]
    by (simp add: two Let_def less_2_cases_iff)
qed

lemma copy_slots:
  assumes "slots_good d" and "engine < VEL_ENGINES \<longrightarrow> 0 \<le> index \<longrightarrow> index < VEL_DATA_INFLIGHT \<and> nat index \<notin> set (dq_slots d (unat engine))"
  shows "slots_good (fst (driver_data_copy index res engine op block offset addr len d))"
proof (cases "engine < VEL_ENGINES")
  case True
  then have e: "unat engine < 2" by (simp add: word_less_nat_alt)
  obtain u r where i: "velocitor_data_transaction_init index (unat engine) d = (u, r)" by fastforce
  from init_open [OF assms(1) _ _ i] e assms(2) True show ?thesis
    using assms(1)
    by (auto simp: driver_data_copy_def i Let_def split: sum.splits intro!: kick_good fill_open)
qed (use assms(1) in \<open>simp add: driver_data_copy_def not_less\<close>)

text \<open>The request of an accepted copy.\<close>

lemma copy_accepted:
  assumes "slots_good d" and "engine < VEL_ENGINES" and "op = VEL_DATA_OP_COPY_H2D \<or> op = VEL_DATA_OP_COPY_D2H"
    and "\<not> offset + len < offset" and "offset + len \<le> vh_size block"
    and "0 \<le> index" and "index < VEL_DATA_INFLIGHT" and "nat index \<notin> set (dq_slots d (unat engine))"
  shows "\<exists>d'. driver_data_copy index res engine op block offset addr len d = (d', res)
     \<and> dq_ring d' = (if res = 0 then (dq_ring d)(unat engine := dq_ring d (unat engine) @ [nat index]) else dq_ring d)
     \<and> (res = 0 \<longrightarrow>
          dt_header (dq_mem d' (unat engine) (nat index)) = \<lparr>rq_seq = dd_seq d, rq_generation = vh_generation block, rq_op = op, rq_flags = 0\<rparr>
        \<and> dt_copy (dq_mem d' (unat engine) (nat index)) =
            \<lparr>cp_handle = vh_handle block, cp_offset = offset, cp_dma_addr = addr, cp_len = len\<rparr>)"
proof -
  have e: "unat engine < 2" using assms(2) by (simp add: word_less_nat_alt)
  obtain u r where init: "velocitor_data_transaction_init index (unat engine) d = (u, r)" by fastforce
  from init_open [OF assms(1) _ _ init] e assms(6-8) obtain i where
    i: "r = Inr i" "slot_open (unat engine) i u" "int i = index" "dq_ring u = dq_ring d"
      "dt_header (dq_mem u (unat engine) i) = \<lparr>rq_seq = dd_seq d, rq_generation = 0, rq_op = 0, rq_flags = 0\<rparr>"
    by (auto simp: zero_transaction_def split: sum.splits)
  define f :: "data_transaction \<Rightarrow> data_transaction" where "f = (\<lambda>t. t\<lparr>dt_header := (dt_header t)\<lparr>rq_op := op, rq_generation := vh_generation block\<rparr>,
    dt_copy := \<lparr>cp_handle = vh_handle block, cp_offset = offset, cp_dma_addr = addr, cp_len = len\<rparr>\<rparr>)"
  define v where "v = slot_upd (unat engine) i f u"
  have run: "driver_data_copy index res engine op block offset addr len d = velocitor_data_transaction_kick res (unat engine) i v"
    using assms(2-5) by (auto simp: driver_data_copy_def init i(1) Let_def v_def f_def not_le)
  have "slot_open (unat engine) i v" unfolding v_def by (rule fill_open [OF i(2)]) (simp add: f_def)
  note reset = reset_slot [OF this]
  have ring: "dq_ring v = dq_ring d" by (simp add: v_def slot_upd_def i(4))
  have "nat index = i" using i(3) by simp
  then show ?thesis
    unfolding run velocitor_data_transaction_kick_def using i(5) ring
    by (simp add: reset) (simp add: v_def slot_upd_def f_def)
qed

lemma copy_ring:
  assumes "slots_good d" and "engine < VEL_ENGINES" and "op = VEL_DATA_OP_COPY_H2D \<or> op = VEL_DATA_OP_COPY_D2H"
    and "\<not> offset + len < offset" and "offset + len \<le> vh_size block"
    and "0 \<le> index" and "index < VEL_DATA_INFLIGHT" and "nat index \<notin> set (dq_slots d (unat engine))"
  shows "dq_ring (fst (driver_data_copy index res engine op block offset addr len d)) =
    (if res = 0 then (dq_ring d)(unat engine := dq_ring d (unat engine) @ [nat index]) else dq_ring d)"
  using copy_accepted [OF assms, of res addr] by force

section \<open>Runs\<close>

datatype data_action =
    Copy int int u32 u16 velocitor_handle u64 u64 u64
  | Used nat "nat list"
  | Unbound

text \<open>
  The IDA answers with a free slot or an error, the virtqueue returns buffers it holds. A copy may come at any
  time, also after the removal, when the driver has no queue any more: the relation has more runs than the driver.
\<close>

fun data_step :: "velocitor_data \<Rightarrow> data_action \<Rightarrow> velocitor_data \<Rightarrow> bool" where
  "data_step d (Copy index res engine op block offset addr len) u \<longleftrightarrow>
     (0 \<le> index \<longrightarrow> index < VEL_DATA_INFLIGHT \<and> nat index \<notin> set (dq_slots d (unat engine)))
     \<and> u = fst (driver_data_copy index res engine op block offset addr len d)"
| "data_step d (Used e used) u \<longleftrightarrow>
     e < VEL_ENGINES \<and> distinct used \<and> set used \<subseteq> set (dq_ring d e) \<and> u = velocitor_data_virtio_callback e used d"
| "data_step d Unbound u \<longleftrightarrow> u = velocitor_data_virtio_remove d"

interpretation data_plane: safe_machine data_step "\<lambda>_. True" slots_good
proof (unfold_locales, goal_cases)
  case (1 d l u)
  then show ?case by (cases l) (auto intro: copy_slots simp: callback_slots remove_slots)
qed

text \<open>C12. No slot of the data plane is lost or used twice: whatever sequence of copies (with any failure of
  the IDA or of the virtqueue), completions and channel removals, the slots in use are exactly the
  buffers the virtqueue holds, each once, each labelled with its own position, and every other slot
  is wiped; so at most 128 requests per engine are outstanding, and removing the channel leaves every
  slot free.\<close>

theorem data_slots_sound:
  assumes "run data_step data_ready ls d"
  shows "slots_good d
     \<and> (\<forall>e < VEL_ENGINES. distinct (dq_ring d e) \<and> set (dq_slots d e) = set (dq_ring d e) \<and> length (dq_ring d e) \<le> VEL_DATA_INFLIGHT
         \<and> dq_slots (velocitor_data_virtio_remove d) e = []
         \<and> (\<forall>i < VEL_DATA_INFLIGHT. dq_mem (velocitor_data_virtio_remove d) e i = zero_transaction\<lparr>dt_slot_idx := - 1\<rparr>))"
proof -
  have good: "slots_good d" using data_plane.run_good [OF assms initialize_slots] by (simp add: list_all_iff)
  have "length (dq_ring d e) \<le> 128" "distinct (dq_ring d e)" "set (dq_slots d e) = set (dq_ring d e)" if "e < 2" for e
  proof -
    have e: "distinct (dq_ring d e)" "\<forall>i \<in> set (dq_ring d e). i < 128" and s: "set (dq_slots d e) = set (dq_ring d e)"
      using good that by (simp_all add: slots_good_def engine_good_def)
    then have "card (set (dq_ring d e)) \<le> card {..< 128 :: nat}" by (intro card_mono) auto
    with e(1) show "length (dq_ring d e) \<le> 128" by (simp add: distinct_card)
    show "distinct (dq_ring d e)" "set (dq_slots d e) = set (dq_ring d e)" using e s by simp_all
  qed
  moreover have "dq_slots (velocitor_data_virtio_remove d) e = []
      \<and> (\<forall>i < 128. dq_mem (velocitor_data_virtio_remove d) e i = zero_transaction\<lparr>dt_slot_idx := - 1\<rparr>)" if "e < 2" for e
  proof -
    have "engine_good e [] (dq_slots (velocitor_data_virtio_remove d) e) (dq_mem (velocitor_data_virtio_remove d) e)"
      using remove_slots [OF good] that by (auto simp: slots_good_def)
    then show ?thesis by (simp add: engine_good_def)
  qed
  ultimately show ?thesis using good by simp
qed

definition small_block :: velocitor_handle where
  "small_block = \<lparr>vh_handle = 1, vh_generation = 1, vh_size = 100, vh_node = 0, vh_dev_offset = 0x1000000, vh_refcount = 1, vh_created = 0\<rparr>"

theorem data_slots_sound_witness:
  "\<exists>d. run data_step data_ready [Copy 0 0 1 1 small_block 0 0x5000 100, Copy 1 (- 28) 1 1 small_block 0 0x5000 100,
     Copy 1 0 1 2 small_block 50 0x5000 50, Used 1 [0]] d \<and> slots_good d \<and> dq_ring d 1 = [1]"
proof -
  define d1 where "d1 = fst (driver_data_copy 0 0 1 1 small_block 0 0x5000 100 data_ready)"
  define d2 where "d2 = fst (driver_data_copy 1 (- 28) 1 1 small_block 0 0x5000 100 d1)"
  define d3 where "d3 = fst (driver_data_copy 1 0 1 2 small_block 50 0x5000 50 d2)"
  define d4 where "d4 = velocitor_data_virtio_callback 1 [0] d3"
  have ini: "slots_good data_ready" "dq_ring data_ready 1 = []" "dq_slots data_ready 1 = []"
    using initialize_slots by (simp_all add: data_ready_defs)
  have g1: "slots_good d1" unfolding d1_def by (rule copy_slots) (simp_all add: ini [simplified])
  have r1: "dq_ring d1 1 = [0]" unfolding d1_def by (subst copy_ring) (simp_all add: ini [simplified] small_block_def)
  have s1: "set (dq_slots d1 1) = {0}" using g1 r1 by (simp add: slots_good_def engine_good_def)
  have g2: "slots_good d2" unfolding d2_def by (rule copy_slots) (simp_all add: g1 s1 [simplified])
  have r2: "dq_ring d2 1 = [0]" unfolding d2_def by (subst copy_ring) (simp_all add: g1 s1 [simplified] r1 [simplified] small_block_def)
  have s2: "set (dq_slots d2 1) = {0}" using g2 r2 by (simp add: slots_good_def engine_good_def)
  have g3: "slots_good d3" unfolding d3_def by (rule copy_slots) (simp_all add: g2 s2 [simplified])
  have r3: "dq_ring d3 1 = [0, 1]" unfolding d3_def by (subst copy_ring) (simp_all add: g2 s2 [simplified] r2 [simplified] small_block_def)
  have "dq_ring d4 1 = [1]" using callback_slots [OF g3, of 1 "[0]"] r3 by (simp add: d4_def)
  moreover have r: "run data_step data_ready [Copy 0 0 1 1 small_block 0 0x5000 100, Copy 1 (- 28) 1 1 small_block 0 0x5000 100,
     Copy 1 0 1 2 small_block 50 0x5000 50, Used 1 [0]] d4"
    using ini(3) s1 s2 r3 by (simp add: d1_def [symmetric] d2_def [symmetric] d3_def [symmetric] d4_def [symmetric]
        del: velocitor_data_virtio_callback.simps) (simp add: d4_def del: velocitor_data_virtio_callback.simps)
  ultimately show ?thesis using data_slots_sound [OF r] by blast
qed

section \<open>From the driver's request to the device's copy\<close>

text \<open>C11. A copy the driver accepts is a copy the device performs: when driver and device mirror each other
  and the request names an entry of the handle table, the buffer the driver queues is read by the
  device as exactly that copy, of a live block and inside it, never as stale, unknown or out of
  bounds; it answers 0 and moves exactly the bytes named when the host range is reachable, and only
  an empty copy, which the driver lets through, is refused with \<open>-EINVAL\<close>.\<close>

theorem accepted_copy_performed:
  assumes "slots_good d" and "mirrors t s" and "map_of (h_entries t) h = Some block"
    and "0 \<le> index \<longrightarrow> index < VEL_DATA_INFLIGHT \<and> nat index \<notin> set (dq_slots d (unat engine))"
    and "driver_data_copy index 0 engine op block offset addr len d = (d', 0)"
    and "unat addr + unat len \<le> 2 ^ VEL_DMA_BITS" and "n = unat len"
  shows "\<exists>i b. dq_ring d' (unat engine) = dq_ring d (unat engine) @ [i] \<and> heap_lookup s h = Some b
     \<and> length (request_buffer (dq_mem d' (unat engine) i)) = VEL_REQ_HDR_SIZE + VEL_COPY_HDR_SIZE
     \<and> data_op B s q (request_buffer (dq_mem d' (unat engine) i)) =
         velocitor_data_copy B s q op \<lparr>cp_handle = h, cp_offset = offset, cp_dma_addr = addr, cp_len = len\<rparr>
     \<and> (len = 0 \<longrightarrow> data_op B s q (request_buffer (dq_mem d' (unat engine) i)) = (s, - EINVAL, 0, 0))
     \<and> (0 < len \<and> snd (pci_dma_read B (host s) addr n)
          \<and> snd (pci_dma_write B (host s) addr (mem_load (mem s) (unat (a_offset b) + unat offset) n)) \<longrightarrow>
          (\<exists>u cost. data_op B s q (request_buffer (dq_mem d' (unat engine) i)) = (u, 0, cost)
             \<and> (op = VEL_DATA_OP_COPY_H2D \<longrightarrow> 
                  mem u = mem_store (mem s) (unat (a_offset b) + unat offset) (fst (pci_dma_read B (host s) addr n)) \<and> host u = host s)
             \<and> (op = VEL_DATA_OP_COPY_D2H \<longrightarrow> mem u = mem s
                  \<and> host u = fst (pci_dma_write B (host s) addr (mem_load (mem s) (unat (a_offset b) + unat offset) n)))))"
proof -
  have acc: "engine < VEL_ENGINES" "op = VEL_DATA_OP_COPY_H2D \<or> op = VEL_DATA_OP_COPY_D2H" "\<not> offset + len < offset"
    "offset + len \<le> vh_size block" "0 \<le> index"
    using assms(5) by (auto simp: driver_data_copy_def velocitor_data_transaction_init_def not_le not_less split: if_splits)
  have idx: "index < VEL_DATA_INFLIGHT" "nat index \<notin> set (dq_slots d (unat engine))" using assms(4) acc(5) by simp_all
  define hdr where "hdr = \<lparr>cp_handle = h, cp_offset = offset, cp_dma_addr = addr, cp_len = len\<rparr>"
  have tab: "vh_handle block = h" "vh_generation block = generation s"
    using table_good_entry [of t h block] assms(2,3) by (simp_all add: mirrors_def)
  have "rel_option (\<lambda>e b. vh_node e = a_node b \<and> vh_dev_offset e = a_offset b \<and> vh_size e \<le> a_size b)
      (map_of (h_entries t) h) (heap_lookup s h)"
    using assms(2) by (simp add: mirrors_def)
  then obtain b where b: "heap_lookup s h = Some b" "vh_size block \<le> a_size b"
    using assms(3) by (cases "heap_lookup s h") auto
  have room: "unat offset + unat len \<le> unat (a_size b)"
    using range_ok [OF acc(3,4)] b(2) by (simp add: word_le_nat_alt)
  define x where "x = dq_mem d' (unat engine) (nat index)"
  have ring: "dq_ring d' (unat engine) = dq_ring d (unat engine) @ [nat index]"
    and x: "dt_header x = \<lparr>rq_seq = dd_seq d, rq_generation = generation s, rq_op = op, rq_flags = 0\<rparr>" "dt_copy x = hdr"
    using copy_accepted [OF assms(1) acc idx, of 0 addr] assms(5) tab by (auto simp: x_def hdr_def)
  have op: "data_op B s q (request_buffer x) = velocitor_data_copy B s q op hdr"
    using acc(2) by (auto simp: data_op_def request_buffer_def get_put_wire x Let_def)
  have empty: "velocitor_data_copy B s q op hdr = (s, - EINVAL, 0, 0)" if "len = 0"
    using that b(1) copy_in_range [OF room] by (simp add: velocitor_data_copy_def data_handle_cases hdr_def not_less)
  define bs where "bs = fst (pci_dma_read B (host s) addr n)"
  define w where "w = fst (pci_dma_write B (host s) addr (mem_load (mem s) (unat (a_offset b) + unat offset) n))"
  have moves: "\<exists>u cost. velocitor_data_copy B s q op hdr = (u, 0, cost)
       \<and> (op = VEL_DATA_OP_COPY_H2D \<longrightarrow> mem u = mem_store (mem s) (unat (a_offset b) + unat offset) bs \<and> host u = host s)
       \<and> (op = VEL_DATA_OP_COPY_D2H \<longrightarrow> mem u = mem s \<and> host u = w)"
    if "0 < len" "snd (pci_dma_read B (host s) addr n)"
      "snd (pci_dma_write B (host s) addr (mem_load (mem s) (unat (a_offset b) + unat offset) n))"
    using copy_effect [of s hdr b "unat (a_offset b) + unat offset" n B bs w, OF _ _ _ _ _ _ _ _ refl, of q] b(1) room assms(6,7) that acc(2)
    by (auto simp: hdr_def bs_def w_def prod_eq_iff)
  have len: "length (request_buffer x) = VEL_REQ_HDR_SIZE + VEL_COPY_HDR_SIZE" by (simp add: request_buffer_def)
  show ?thesis
    using ring b(1) len op empty moves
    by (intro exI [of _ "nat index"] exI [of _ b]) (simp add: x_def [symmetric] hdr_def [symmetric] bs_def [symmetric] w_def [symmetric])
qed

lemma store_session:
  "\<exists>s t block. mirrors t (s :: store velocitor_state) \<and> map_of (h_entries t) 1 = Some block \<and> vh_size block = 100"
proof -
  define z where "z = velocitor_alloc_reset (velocitor_new (\<lambda>_ :: nat. 0 :: u8))"
  have "\<exists>s r. velocitor_alloc_block z \<lparr>areq_size = 100, areq_dtype = 0, areq_node = 0\<rparr> = (s, Inr r) \<and> aresp_handle r = 1"
    by (simp add: z_def velocitor_alloc_block_def Let_def velocitor_alloc_reset_def velocitor_new_def
        velocitor_alloc_pick_node_def ROUND_UP_256 velocitor_node_free_def velocitor_node_end_def velocitor_node_base_def)
  then obtain s r where "velocitor_alloc_block z \<lparr>areq_size = 100, areq_dtype = 0, areq_node = 0\<rparr> = (s, Inr r)" and r: "aresp_handle r = 1"
    by blast
  moreover have "mirrors \<lparr>h_entries = [], h_generation = generation z, h_objects = 0\<rparr> z" unfolding z_def by (rule mirrors_reset)
  ultimately obtain u where u: "mirrors u s" "map_of (h_entries u) 1 = Some \<lparr>vh_handle = aresp_handle r, vh_generation = aresp_generation r,
      vh_size = 100, vh_node = aresp_node r, vh_dev_offset = aresp_dev_offset r, vh_refcount = 1, vh_created = 0\<rparr>"
    using mirrors_insert [of "\<lparr>h_entries = [], h_generation = generation z, h_objects = 0\<rparr>" z
        "\<lparr>areq_size = 100, areq_dtype = 0, areq_node = 0\<rparr>" s r 0] by auto
  show ?thesis by (rule exI [of _ s], rule exI [of _ u]) (simp add: u)
qed

theorem accepted_copy_performed_witness:
  "\<exists>(s :: store velocitor_state) t block d' i u cost. mirrors t s
     \<and> driver_data_copy 0 0 0 1 block 0 0x5000 4 data_ready = (d', 0)
     \<and> data_op ram_bus s 2 (request_buffer (dq_mem d' 0 i)) = (u, 0, cost)"
proof -
  obtain s :: "store velocitor_state" and t block where
    m: "mirrors t s" "map_of (h_entries t) 1 = Some block" "vh_size block = 100" using store_session by blast
  have free: "nat 0 \<notin> set (dq_slots data_ready (unat (0 :: u32)))" by (simp add: data_ready_defs)
  have "\<exists>d'. driver_data_copy 0 0 0 1 block 0 0x5000 4 data_ready = (d', 0)"
    using copy_accepted [OF initialize_slots, where engine = 0 and op = 1 and offset = 0 and len = 4 and block = block
        and index = 0 and res = 0 and addr = "0x5000"] m(3) free by auto
  then obtain d' where d': "driver_data_copy 0 0 0 1 block 0 0x5000 4 data_ready = (d', 0)" by blast
  have "0 \<le> (0 :: int) \<longrightarrow> 0 < (VEL_DATA_INFLIGHT :: int) \<and> nat 0 \<notin> set (dq_slots data_ready (unat (0 :: u32)))"
    using free by simp
  note p = accepted_copy_performed [OF initialize_slots m(1,2) this d' _ refl, where B = ram_bus and q = 2]
  have bus: "snd (pci_dma_read ram_bus x y z)" "snd (pci_dma_write ram_bus x y v)" for x y z v by (simp_all add: ram_bus_def)
  have "\<exists>i u cost. data_op ram_bus s 2 (request_buffer (dq_mem d' 0 i)) = (u, 0, cost)"
    using p bus by fastforce
  then show ?thesis using m(1) d' by blast
qed

end
