(* ===== verification/Drv_Life.thy ===== *)
theory Drv_Life
  imports Drv_Rproc Drv_Data
begin

text \<open>
  The life of the driver on a card: \<open>velocitor_pci_probe\<close> of \<open>lifecycle.c\<close> with the initialisers of all
  modules it calls, what the driver core releases when the probe fails or the card goes, and loading and unloading
  of the module. The model follows every resource the driver acquires; what the kernel answers to
  each acquisition is an argument, and so is booting the remote processor.
\<close>

section \<open>Resources\<close>

datatype resource =
    R_card | R_debugfs | R_enabled | R_bar nat | R_counters_lock | R_window_lock | R_dma_lock | R_pool
  | R_vring_lock | R_name nat | R_ring nat | R_vectors | R_irq_config | R_irq_ring nat | R_irq_error
  | R_ctrl_lock | R_inflight | R_slots nat | R_queue nat | R_dtrace_lock
  | R_rproc | R_rsc | R_rproc_added | R_region | R_cdev | R_node

text \<open>The card as the modules of the driver see it: the device, and the parts of \<open>struct velocitor_dev\<close>.\<close>

record 'h card =
  c_dev :: "'h velocitor_state"
  c_drv :: velocitor_dev
  c_ctrl :: velocitor_ctrl
  c_data :: velocitor_data

text \<open>
  \<open>a_acquire\<close> is 0, or the errno of the call that acquires the resource (for a call that yields a pointer,
  any other value is \<open>NULL\<close>); \<open>a_action\<close> is the answer of \<open>devm_add_action_or_reset\<close> for it;
  \<open>a_dma\<close> the DMA address of coherent memory; \<open>a_irq\<close> is \<open>pci_irq_vector\<close>, \<open>a_mask\<close>
  \<open>dma_set_mask_and_coherent\<close>, \<open>a_boot\<close> \<open>rproc_boot\<close>.
\<close>

record 'h answers =
  a_acquire :: "resource \<Rightarrow> int"
  a_action :: "resource \<Rightarrow> int"
  a_dma :: "resource \<Rightarrow> u64"
  a_irq :: "nat \<Rightarrow> int"
  a_mask :: int
  a_boot :: "'h card \<Rightarrow> 'h card \<times> int"

text \<open>
  \<open>p_held\<close> is what the driver holds, \<open>p_devres\<close> what the driver core will release by itself, both newest first;
  \<open>p_irqs\<close> is \<open>vqs[i].irq\<close>; \<open>p_rproc\<close> and \<open>p_debugfs\<close> say whether the pointers \<open>rproc.handle\<close>
  and \<open>debugfs\<close> are set.
\<close>

record 'h probe =
  p_card :: "'h card"
  p_irqs :: "nat \<Rightarrow> int"
  p_rproc :: bool
  p_debugfs :: bool
  p_held :: "resource list"
  p_devres :: "resource list"

section \<open>Acquiring\<close>

type_synonym 'h initialiser = "'h probe \<Rightarrow> 'h probe \<times> int"

text \<open>\<open>if ((err = f(dev))) return err;\<close> one after the other.\<close>

fun steps :: "'h initialiser list \<Rightarrow> 'h initialiser" where
  "steps [] p = (p, 0)"
| "steps (f # fs) p = (case f p of (p, err) \<Rightarrow> if err \<noteq> 0 then (p, err) else steps fs p)"

text \<open>A managed acquisition, answering an errno or a pointer.\<close>

definition devm :: "'h answers \<Rightarrow> resource \<Rightarrow> 'h initialiser" where
  "devm K r p = (if a_acquire K r \<noteq> 0 then (p, a_acquire K r) else (p\<lparr>p_held := r # p_held p, p_devres := r # p_devres p\<rparr>, 0))"

definition devm_ptr :: "'h answers \<Rightarrow> resource \<Rightarrow> 'h initialiser" where
  "devm_ptr K r p = (if a_acquire K r \<noteq> 0 then (p, - ENOMEM) else (p\<lparr>p_held := r # p_held p, p_devres := r # p_devres p\<rparr>, 0))"

text \<open>An unmanaged acquisition, and \<open>devm_add_action_or_reset\<close>, which releases it at once when it fails.\<close>

definition acquire :: "'h answers \<Rightarrow> resource \<Rightarrow> 'h initialiser" where
  "acquire K r p = (if a_acquire K r \<noteq> 0 then (p, a_acquire K r) else (p\<lparr>p_held := r # p_held p\<rparr>, 0))"

definition hold :: "resource \<Rightarrow> 'h initialiser" where
  "hold r p = (p\<lparr>p_held := r # p_held p\<rparr>, 0)"

definition devm_add_action_or_reset :: "'h answers \<Rightarrow> resource \<Rightarrow> 'h initialiser" where
  "devm_add_action_or_reset K r p =
     (if a_action K r \<noteq> 0 then (p\<lparr>p_held := remove1 r (p_held p)\<rparr>, a_action K r)
      else (p\<lparr>p_devres := r # p_devres p\<rparr>, 0))"

text \<open>An initialiser that also writes fields of the card.\<close>

definition writing :: "('h card \<Rightarrow> 'h card) \<Rightarrow> 'h initialiser \<Rightarrow> 'h initialiser" where
  "writing f g p = (case g p of (p, err) \<Rightarrow> (p\<lparr>p_card := f (p_card p)\<rparr>, err))"

definition writing_drv :: "(velocitor_dev \<Rightarrow> velocitor_dev) \<Rightarrow> 'h initialiser \<Rightarrow> 'h initialiser" where
  "writing_drv f = writing (\<lambda>c. c\<lparr>c_drv := f (c_drv c)\<rparr>)"

section \<open>The initialisers\<close>

definition velocitor_debugfs_initialize :: "'h answers \<Rightarrow> 'h initialiser" where
  "velocitor_debugfs_initialize K p =
     steps [hold R_debugfs, devm_add_action_or_reset K R_debugfs] (p\<lparr>p_debugfs := True\<rparr>)"

definition map_bar0 :: "'h pci_bus \<Rightarrow> 'h answers \<Rightarrow> 'h initialiser" where
  "map_bar0 B K = steps [devm K (R_bar 0),
     \<lambda>p. case initialize_bar0 B (c_dev (p_card p)) of (s, err) \<Rightarrow> (p\<lparr>p_card := (p_card p)\<lparr>c_dev := s\<rparr>\<rparr>, err)]"

definition initialize_bar2 :: "'h answers \<Rightarrow> 'h initialiser" where
  "initialize_bar2 K = devm K (R_bar 2)"

definition identity_initialize :: "'h initialiser" where
  "identity_initialize p =
     (case velocitor_identity_initialize (c_dev (p_card p)) of (s, i) \<Rightarrow>
        (p\<lparr>p_card := (p_card p)\<lparr>c_dev := s, c_drv := (c_drv (p_card p))\<lparr>identity := i\<rparr>\<rparr>\<rparr>, 0))"

definition velocitor_counters_initialize :: "'h answers \<Rightarrow> 'h initialiser" where
  "velocitor_counters_initialize K = steps [devm K R_counters_lock]"

definition velocitor_window_initialize :: "'h answers \<Rightarrow> 'h initialiser" where
  "velocitor_window_initialize K = steps [devm K R_window_lock]"

text \<open>A field that holds an address is written only where the allocation succeeded.\<close>

definition granted :: "'h answers \<Rightarrow> resource \<Rightarrow> u64 option" where
  "granted K r = (if a_acquire K r = 0 then Some (a_dma K r) else None)"

definition velocitor_dma_initialize :: "'h answers \<Rightarrow> 'h initialiser" where
  "velocitor_dma_initialize K = steps [devm K R_dma_lock, \<lambda>p. (p, a_mask K),
     writing_drv (\<lambda>d. case granted K R_pool of None \<Rightarrow> d | Some a \<Rightarrow> d\<lparr>pool_dma := a\<rparr>) (devm_ptr K R_pool)]"

definition vring_initialize :: "'h answers \<Rightarrow> 'h initialiser" where
  "vring_initialize K =
     writing_drv (\<lambda>d. fst (velocitor_vring_initialize (a_acquire K R_vring_lock) (\<lambda>i. a_acquire K (R_name i) = 0)
         (\<lambda>i. granted K (R_ring i)) d))
       (steps [devm K R_vring_lock, devm_ptr K (R_name 0), devm_ptr K (R_ring 0), devm_ptr K (R_name 1), devm_ptr K (R_ring 1),
          devm_ptr K (R_name 2), devm_ptr K (R_ring 2), devm_ptr K (R_name 3), devm_ptr K (R_ring 3)])"

definition request_ring_irq :: "'h answers \<Rightarrow> nat \<Rightarrow> 'h initialiser" where
  "request_ring_irq K i p = devm K (R_irq_ring i) (p\<lparr>p_irqs := (p_irqs p)(i := a_irq K (vr_vector (vqs (c_drv (p_card p)) i)))\<rparr>)"

definition velocitor_irq_initialize :: "'h answers \<Rightarrow> 'h initialiser" where
  "velocitor_irq_initialize K = steps [steps [acquire K R_vectors, devm_add_action_or_reset K R_vectors],
     devm K R_irq_config, request_ring_irq K 0, request_ring_irq K 1, request_ring_irq K 2, request_ring_irq K 3,
     devm K R_irq_error]"

definition ctrl_initialize :: "'h answers \<Rightarrow> 'h initialiser" where
  "ctrl_initialize K =
     writing (\<lambda>c. c\<lparr>c_ctrl := fst (velocitor_ctrl_initialize (a_acquire K R_ctrl_lock) (a_action K R_inflight) (c_ctrl c))\<rparr>)
       (steps [devm K R_ctrl_lock, steps [hold R_inflight, devm_add_action_or_reset K R_inflight]])"

definition data_initialize :: "'h answers \<Rightarrow> 'h initialiser" where
  "data_initialize K =
     writing (\<lambda>c. c\<lparr>c_data := fst (velocitor_data_initialize (\<lambda>i. a_acquire K (R_slots i) = 0) (\<lambda>i. a_action K (R_queue i)) (c_data c))\<rparr>)
       (steps [devm_ptr K (R_slots 0), steps [hold (R_queue 0), devm_add_action_or_reset K (R_queue 0)],
               devm_ptr K (R_slots 1), steps [hold (R_queue 1), devm_add_action_or_reset K (R_queue 1)]])"

definition velocitor_dtrace_initialize :: "'h answers \<Rightarrow> 'h initialiser" where
  "velocitor_dtrace_initialize K = steps [devm K R_dtrace_lock]"

definition velocitor_remoteproc_initialize :: "'h answers \<Rightarrow> 'h initialiser" where
  "velocitor_remoteproc_initialize K = steps
     [\<lambda>p. devm_ptr K R_rproc (p\<lparr>p_rproc := (a_acquire K R_rproc = 0)\<rparr>),
      writing_drv (\<lambda>d. case granted K R_rsc of None \<Rightarrow> d | Some a \<Rightarrow> d\<lparr>rsc_dma := a\<rparr>) (devm_ptr K R_rsc),
      devm K R_rproc_added,
      \<lambda>p. case a_boot K (p_card p) of (c, err) \<Rightarrow> (p\<lparr>p_card := c\<rparr>, err)]"

definition velocitor_cdev_initialize :: "'h answers \<Rightarrow> 'h initialiser" where
  "velocitor_cdev_initialize K = steps
     [steps [acquire K R_region, devm_add_action_or_reset K R_region],
      steps [acquire K R_cdev, devm_add_action_or_reset K R_cdev],
      steps [acquire K R_node, devm_add_action_or_reset K R_node]]"

section \<open>Probe and removal\<close>

definition card_zero :: "'h velocitor_state \<Rightarrow> 'h card" where
  "card_zero s = \<lparr>c_dev = s, c_drv = drv_zero, c_ctrl = velocitor_ctrl_zero,
     c_data = \<lparr>dq_mem = (\<lambda>e i. zero_transaction), dq_slots = (\<lambda>e. []), dq_ring = (\<lambda>e. []), dd_seq = 0\<rparr>\<rparr>"

definition unbound :: "'h velocitor_state \<Rightarrow> 'h probe" where
  "unbound s = \<lparr>p_card = card_zero s, p_irqs = (\<lambda>i. 0), p_rproc = False, p_debugfs = False, p_held = [], p_devres = []\<rparr>"

definition velocitor_pci_probe :: "'h pci_bus \<Rightarrow> 'h answers \<Rightarrow> 'h initialiser" where
  "velocitor_pci_probe B K = steps
     [devm_ptr K R_card,
      \<lambda>p. (fst (velocitor_debugfs_initialize K p), 0),
      devm K R_enabled,
      map_bar0 B K,
      initialize_bar2 K,
      identity_initialize,
      velocitor_counters_initialize K,
      velocitor_window_initialize K,
      velocitor_dma_initialize K,
      vring_initialize K,
      velocitor_irq_initialize K,
      ctrl_initialize K,
      data_initialize K,
      velocitor_dtrace_initialize K,
      velocitor_remoteproc_initialize K,
      velocitor_cdev_initialize K]"

text \<open>The driver core: the newest release action, and all of them. \<open>velocitor_pci_remove\<close> does nothing before.\<close>

definition devres_release :: "'h probe \<Rightarrow> 'h probe" where
  "devres_release p =
     (case p_devres p of [] \<Rightarrow> p | r # rs \<Rightarrow> p\<lparr>p_held := remove1 r (p_held p), p_devres := rs\<rparr>)"

definition devres_release_all :: "'h probe \<Rightarrow> 'h probe" where
  "devres_release_all p = (devres_release ^^ length (p_devres p)) p"

definition velocitor_pci_remove :: "'h probe \<Rightarrow> 'h probe" where
  "velocitor_pci_remove p = p"

text \<open>
  The two handlers that go through \<open>rproc.handle\<close>: the notifyid passed to \<open>rproc_vq_interrupt\<close>, whether a crash
  is reported. \<open>None\<close> is an access through the pointer to a remote processor that was freed.
\<close>

definition irq_queue_event :: "nat \<Rightarrow> 'h probe \<Rightarrow> u32 option option" where
  "irq_queue_event i p =
     (if \<not> p_rproc p then Some None
      else if R_rproc \<notin> set (p_held p) then None
      else Some (Some (vr_notifyid (vqs (c_drv (p_card p)) i))))"

definition error_event_report :: "'h probe \<Rightarrow> bool option" where
  "error_event_report p =
     (if \<not> p_rproc p then Some False else if R_rproc \<notin> set (p_held p) then None else Some True)"

section \<open>Loading and unloading the module\<close>

datatype registration = M_debugfs | M_class | M_rpmsg | M_virtio | M_pci

text \<open>The labels of \<open>init_\<close>, each falling through to the next.\<close>

definition error_debugfs :: "registration list \<Rightarrow> registration list" where
  "error_debugfs m = remove1 M_debugfs m"

definition error_class :: "registration list \<Rightarrow> registration list" where
  "error_class m = error_debugfs (remove1 M_class m)"

definition error_rpmsg :: "registration list \<Rightarrow> registration list" where
  "error_rpmsg m = error_class (remove1 M_rpmsg m)"

definition error_virtio :: "registration list \<Rightarrow> registration list" where
  "error_virtio m = error_rpmsg (remove1 M_virtio m)"

definition init_module :: "(registration \<Rightarrow> int) \<Rightarrow> registration list \<times> int" where
  "init_module ans =
     (let m = [M_debugfs] in
      if ans M_class \<noteq> 0 then (error_debugfs m, ans M_class)
      else let m = M_class # m in
      if ans M_rpmsg \<noteq> 0 then (error_class m, ans M_rpmsg)
      else let m = M_rpmsg # m in
      if ans M_virtio \<noteq> 0 then (error_rpmsg m, ans M_virtio)
      else let m = M_virtio # m in
      if ans M_pci \<noteq> 0 then (error_virtio m, ans M_pci)
      else (M_pci # m, 0))"

definition exit_module :: "registration list \<Rightarrow> registration list" where
  "exit_module m = remove1 M_debugfs (remove1 M_class (remove1 M_virtio (remove1 M_rpmsg (remove1 M_pci m))))"

lemma module_unwinds:
  "init_module ans = (m, err) \<Longrightarrow> (if err \<noteq> 0 then m = [] else distinct m \<and> set m = {M_debugfs, M_class, M_rpmsg, M_virtio, M_pci} \<and> exit_module m = [])"
  by (auto simp: init_module_def error_debugfs_def error_class_def error_rpmsg_def error_virtio_def exit_module_def Let_def split: if_splits)

section \<open>What an initialiser leaves\<close>

text \<open>
  Where the driver core knows of everything held, it still does, and what was added is an initial piece
  of the list \<open>rs\<close>, in that order, and all of it on success.
\<close>

definition follows :: "resource list \<Rightarrow> 'h initialiser \<Rightarrow> bool" where
  "follows rs f \<longleftrightarrow> (\<forall>p. p_held p = p_devres p \<longrightarrow> (\<exists>n \<le> length rs. p_held (fst (f p)) = rev (take n rs) @ p_held p
     \<and> p_devres (fst (f p)) = p_held (fst (f p)) \<and> (snd (f p) = 0 \<longrightarrow> n = length rs)))"

lemma follows_nil: "follows [] (steps [])"
  by (simp add: follows_def)

lemma follows_cons:
  assumes "follows rs f" and "follows rss (steps fs)"
  shows "follows (rs @ rss) (steps (f # fs))"
  unfolding follows_def
proof (intro allI impI)
  fix p :: "'a probe"
  assume p: "p_held p = p_devres p"
  obtain q err where f: "f p = (q, err)" by fastforce
  obtain n where n: "n \<le> length rs" "p_held q = rev (take n rs) @ p_held p" "p_devres q = p_held q" "err = 0 \<longrightarrow> n = length rs"
    using assms(1) p f unfolding follows_def by force
  show "\<exists>n \<le> length (rs @ rss). p_held (fst (steps (f # fs) p)) = rev (take n (rs @ rss)) @ p_held p
     \<and> p_devres (fst (steps (f # fs) p)) = p_held (fst (steps (f # fs) p)) \<and> (snd (steps (f # fs) p) = 0 \<longrightarrow> n = length (rs @ rss))"
  proof (cases "err = 0")
    case True
    obtain k where k: "k \<le> length rss" "p_held (fst (steps fs q)) = rev (take k rss) @ p_held q"
      "p_devres (fst (steps fs q)) = p_held (fst (steps fs q))" "snd (steps fs q) = 0 \<longrightarrow> k = length rss"
      using assms(2) n(3) unfolding follows_def by force
    then show ?thesis using n f True by (intro exI [of _ "length rs + k"]) simp
  next
    case False
    then show ?thesis using n f by (intro exI [of _ n]) simp
  qed
qed

lemma follows_devm: "follows [r] (devm K r)" "follows [r] (devm_ptr K r)"
  unfolding follows_def
  by (auto simp: devm_def devm_ptr_def intro: exI [of _ 0] exI [of _ "Suc 0"])

lemma follows_action:
  "follows [r] (steps [acquire K r, devm_add_action_or_reset K r])"
  "follows [r] (steps [hold r, devm_add_action_or_reset K r])"
  unfolding follows_def
  by (auto simp: acquire_def hold_def devm_add_action_or_reset_def intro: exI [of _ 0] exI [of _ "Suc 0"])

lemma follows_writing: "follows rs g \<Longrightarrow> follows rs (writing f g)"
  unfolding follows_def by (auto simp: writing_def split: prod.split) force


text \<open>A step that acquires nothing.\<close>

lemma follows_plain: "(\<And>p. p_held (fst (f p)) = p_held p \<and> p_devres (fst (f p)) = p_devres p) \<Longrightarrow> follows [] f"
  by (simp add: follows_def)

lemma follows_parts:
  "follows [] (\<lambda>p. case initialize_bar0 B (c_dev (p_card p)) of (s, err) \<Rightarrow> (p\<lparr>p_card := (p_card p)\<lparr>c_dev := s\<rparr>\<rparr>, err))"
  "follows [] identity_initialize"
  "follows [] (\<lambda>p. (p, a_mask K))"
  "follows [] (\<lambda>p. case a_boot K (p_card p) of (c, err) \<Rightarrow> (p\<lparr>p_card := c\<rparr>, err))"
  "follows [R_irq_ring i] (request_ring_irq K i)"
  "follows [R_rproc] (\<lambda>p. devm_ptr K R_rproc (p\<lparr>p_rproc := (a_acquire K R_rproc = 0)\<rparr>))"
  by (auto simp: follows_def identity_initialize_def request_ring_irq_def devm_def devm_ptr_def split: prod.split
      intro: exI [of _ 0] exI [of _ "Suc 0"])

definition ring_resources :: "resource list" where
  "ring_resources = [R_vring_lock, R_name 0, R_ring 0, R_name 1, R_ring 1, R_name 2, R_ring 2, R_name 3, R_ring 3]"

definition irq_resources :: "resource list" where
  "irq_resources = [R_vectors, R_irq_config, R_irq_ring 0, R_irq_ring 1, R_irq_ring 2, R_irq_ring 3, R_irq_error]"

lemma follows_debugfs: "follows (if a_action K R_debugfs = 0 then [R_debugfs] else []) (\<lambda>p. (fst (velocitor_debugfs_initialize K p), 0))"
  by (auto simp: follows_def velocitor_debugfs_initialize_def hold_def devm_add_action_or_reset_def intro: exI [of _ "Suc 0"])

text \<open>The order of a whole probe. Only the debugfs directory may be missing: its failure is not looked at.\<close>

definition probe_order :: "'h answers \<Rightarrow> resource list" where
  "probe_order K = R_card # (if a_action K R_debugfs = 0 then [R_debugfs] else []) @
     [R_enabled, R_bar 0, R_bar 2, R_counters_lock, R_window_lock, R_dma_lock, R_pool] @ ring_resources @ irq_resources @
     [R_ctrl_lock, R_inflight, R_slots 0, R_queue 0, R_slots 1, R_queue 1, R_dtrace_lock, R_rproc, R_rsc, R_rproc_added,
      R_region, R_cdev, R_node]"

lemma follows_modules:
  "follows [R_bar 0] (map_bar0 B K)"
  "follows [R_bar 2] (initialize_bar2 K)"
  "follows [R_counters_lock] (velocitor_counters_initialize K)"
  "follows [R_window_lock] (velocitor_window_initialize K)"
  "follows [R_dma_lock, R_pool] (velocitor_dma_initialize K)"
  "follows ring_resources (vring_initialize K)"
  "follows irq_resources (velocitor_irq_initialize K)"
  "follows [R_ctrl_lock, R_inflight] (ctrl_initialize K)"
  "follows [R_slots 0, R_queue 0, R_slots 1, R_queue 1] (data_initialize K)"
  "follows [R_dtrace_lock] (velocitor_dtrace_initialize K)"
  "follows [R_rproc, R_rsc, R_rproc_added] (velocitor_remoteproc_initialize K)"
  "follows [R_region, R_cdev, R_node] (velocitor_cdev_initialize K)"
proof -
  have join: "follows us (steps (f # fs))" if "follows rs f" "follows rss (steps fs)" "us = rs @ rss" for us rs rss f and fs :: "'a initialiser list"
    using follows_cons [OF that(1,2)] that(3) by simp
  note parts = follows_devm follows_action follows_writing follows_parts follows_nil
  show "follows [R_bar 0] (map_bar0 B K)" unfolding map_bar0_def by (rule join parts)+ simp_all
  show "follows [R_bar 2] (initialize_bar2 K)" unfolding initialize_bar2_def by (rule parts)
  show "follows [R_counters_lock] (velocitor_counters_initialize K)"
    unfolding velocitor_counters_initialize_def by (rule join parts)+ simp_all
  show "follows [R_window_lock] (velocitor_window_initialize K)"
    unfolding velocitor_window_initialize_def by (rule join parts)+ simp_all
  show "follows [R_dma_lock, R_pool] (velocitor_dma_initialize K)"
    unfolding velocitor_dma_initialize_def writing_drv_def by (rule join parts)+ simp_all
  show "follows ring_resources (vring_initialize K)"
    unfolding vring_initialize_def writing_drv_def ring_resources_def by (rule join parts)+ simp_all
  show "follows irq_resources (velocitor_irq_initialize K)"
    unfolding velocitor_irq_initialize_def irq_resources_def by (rule follows_action join parts)+ simp_all
  show "follows [R_ctrl_lock, R_inflight] (ctrl_initialize K)"
    unfolding ctrl_initialize_def by (rule follows_action join parts)+ simp_all
  show "follows [R_slots 0, R_queue 0, R_slots 1, R_queue 1] (data_initialize K)"
    unfolding data_initialize_def by (rule follows_action join parts)+ simp_all
  show "follows [R_dtrace_lock] (velocitor_dtrace_initialize K)"
    unfolding velocitor_dtrace_initialize_def by (rule join parts)+ simp_all
  show "follows [R_rproc, R_rsc, R_rproc_added] (velocitor_remoteproc_initialize K)"
    unfolding velocitor_remoteproc_initialize_def writing_drv_def by (rule join parts)+ simp_all
  show "follows [R_region, R_cdev, R_node] (velocitor_cdev_initialize K)"
    unfolding velocitor_cdev_initialize_def by (rule follows_action join parts)+ simp_all
qed


lemma follows_probe: "follows (probe_order K) (velocitor_pci_probe B K)"
proof -
  have join: "follows us (steps (f # fs))" if "follows rs f" "follows rss (steps fs)" "us = rs @ rss" for us rs rss f and fs :: "'a initialiser list"
    using follows_cons [OF that(1,2)] that(3) by simp
  show ?thesis
    unfolding velocitor_pci_probe_def
    by (rule follows_modules follows_debugfs follows_devm follows_parts(2) join follows_nil)+ (simp_all add: probe_order_def)
qed

lemma probe_prefix:
  assumes "velocitor_pci_probe B K (unbound s) = (p, err)"
  shows "\<exists>n \<le> length (probe_order K). p_held p = rev (take n (probe_order K)) \<and> (err = 0 \<longrightarrow> n = length (probe_order K))"
    and "p_devres p = p_held p"
proof -
  have "p_held (unbound s) = p_devres (unbound s)" "p_held (unbound s) = []" by (simp_all add: unbound_def)
  then have "\<exists>n \<le> length (probe_order K). p_held p = rev (take n (probe_order K)) \<and> p_devres p = p_held p
      \<and> (err = 0 \<longrightarrow> n = length (probe_order K))"
    using follows_probe [of K B, unfolded follows_def, rule_format, of "unbound s"] assms by simp
  then show "\<exists>n \<le> length (probe_order K). p_held p = rev (take n (probe_order K)) \<and> (err = 0 \<longrightarrow> n = length (probe_order K))"
    and "p_devres p = p_held p" by blast+
qed

lemma release_held:
  "p_held p = p_devres p \<Longrightarrow> k \<le> length (p_devres p) \<Longrightarrow>
     p_held ((devres_release ^^ k) p) = drop k (p_held p) \<and> p_devres ((devres_release ^^ k) p) = drop k (p_held p)
     \<and> p_card ((devres_release ^^ k) p) = p_card p \<and> p_rproc ((devres_release ^^ k) p) = p_rproc p"
proof (induction k)
  case (Suc k)
  define q where "q = (devres_release ^^ k) p"
  have k: "p_held q = drop k (p_held p)" "p_devres q = drop k (p_held p)" "p_card q = p_card p" "p_rproc q = p_rproc p"
    using Suc by (simp_all add: q_def)
  have "drop k (p_held p) = p_held p ! k # drop (Suc k) (p_held p)" using Suc.prems by (simp add: Cons_nth_drop_Suc)
  with k have "p_held (devres_release q) = drop (Suc k) (p_held p) \<and> p_devres (devres_release q) = drop (Suc k) (p_held p)
      \<and> p_card (devres_release q) = p_card p \<and> p_rproc (devres_release q) = p_rproc p"
    by (simp add: devres_release_def)
  then show ?case by (simp add: q_def)
qed simp

lemma steps_append:
  "steps (fs @ gs) u = (case steps fs u of (v, err) \<Rightarrow> if err \<noteq> 0 then (v, err) else steps gs v)"
  by (induction fs arbitrary: u) (auto split: prod.split)

text \<open>Who writes \<open>rproc.handle\<close>.\<close>

definition keeps_rproc :: "'h initialiser \<Rightarrow> bool" where
  "keeps_rproc f \<longleftrightarrow> (\<forall>p. p_rproc (fst (f p)) = p_rproc p)"

lemma keeps_steps: "list_all keeps_rproc fs \<Longrightarrow> keeps_rproc (steps fs)"
  unfolding keeps_rproc_def
proof (rule allI)
  fix p :: "'a probe"
  show "list_all (\<lambda>f. \<forall>p. p_rproc (fst (f p)) = p_rproc p) fs \<Longrightarrow> p_rproc (fst (steps fs p)) = p_rproc p"
    by (induction fs arbitrary: p) (auto simp: split_beta)
qed

lemma keeps_basic [simp]:
  "keeps_rproc (acquire K r)" "keeps_rproc (devm_add_action_or_reset K r)" "keeps_rproc (devm K r)" "keeps_rproc (devm_ptr K r)"
  by (simp_all add: keeps_rproc_def acquire_def devm_add_action_or_reset_def devm_def devm_ptr_def)

lemma probe_sets_rproc:
  assumes "velocitor_pci_probe B K q = (p, 0)"
  shows "p_rproc p"
proof -
  define fs where "fs = [devm_ptr K R_card, \<lambda>p. (fst (velocitor_debugfs_initialize K p), 0), devm K R_enabled,
     map_bar0 B K, initialize_bar2 K, identity_initialize, velocitor_counters_initialize K, velocitor_window_initialize K,
     velocitor_dma_initialize K, vring_initialize K, velocitor_irq_initialize K, ctrl_initialize K, data_initialize K,
     velocitor_dtrace_initialize K]"
  have "velocitor_pci_probe B K = steps (fs @ [velocitor_remoteproc_initialize K, velocitor_cdev_initialize K])"
    by (simp add: velocitor_pci_probe_def fs_def)
  then obtain u v where uv: "velocitor_remoteproc_initialize K u = (v, 0)" "velocitor_cdev_initialize K v = (p, 0)"
    using assms by (auto simp: steps_append split: prod.splits if_splits)
  have "p_rproc v"
    using uv(1) by (auto simp: velocitor_remoteproc_initialize_def devm_def devm_ptr_def writing_drv_def writing_def
        split: prod.splits if_splits)
  moreover have "keeps_rproc (velocitor_cdev_initialize K)"
    by (simp add: velocitor_cdev_initialize_def keeps_steps)
  ultimately show ?thesis using uv(2) by (metis fst_conv keeps_rproc_def)
qed

text \<open>
  The probe does not look at the result of \<open>velocitor_debugfs_initialize\<close>: when the release action cannot be
  registered the directory is removed at once, its pointer stays in \<open>debugfs\<close>, and the probe goes on and succeeds.
\<close>

lemma debugfs_failure_ignored:
  assumes "a_action K R_debugfs \<noteq> 0"
  shows "R_debugfs \<notin> set (p_held (fst (velocitor_debugfs_initialize K (unbound s))))
     \<and> p_debugfs (fst (velocitor_debugfs_initialize K (unbound s)))
     \<and> (velocitor_pci_probe B K (unbound s) = (p, 0) \<longrightarrow> R_debugfs \<notin> set (p_held p))"
proof -
  have "R_debugfs \<notin> set (p_held p)" if "velocitor_pci_probe B K (unbound s) = (p, 0)"
    using probe_prefix [OF that] assms by (auto simp: probe_order_def ring_resources_def irq_resources_def)
  then show ?thesis using assms
    by (simp add: velocitor_debugfs_initialize_def hold_def devm_add_action_or_reset_def unbound_def)
qed

section \<open>Properties\<close>

text \<open>C9. Whatever the kernel answers, and wherever the probe stops: what the driver then holds is an initial piece
  of one fixed list, each thing once, all of it known to the driver core, and all of the list if
  the probe succeeds. So after a failed probe, and after the removal that follows a successful one,
  the core's releases take everything back, newest first, and nothing is left.\<close>

theorem probe_unwinds:
  assumes "velocitor_pci_probe B K (unbound s) = (p, err)"
  shows "distinct (probe_order K) \<and> p_devres p = p_held p
     \<and> (\<exists>n \<le> length (probe_order K). p_held p = rev (take n (probe_order K)) \<and> (err = 0 \<longrightarrow> n = length (probe_order K)))
     \<and> (\<forall>k \<le> length (p_held p). p_held ((devres_release ^^ k) (velocitor_pci_remove p)) = drop k (p_held p))
     \<and> p_held (devres_release_all (velocitor_pci_remove p)) = []"
proof -
  have "distinct (probe_order K)" by (simp add: probe_order_def ring_resources_def irq_resources_def)
  moreover have "p_held ((devres_release ^^ k) p) = drop k (p_held p)" if "k \<le> length (p_held p)" for k
    using release_held [of p k] probe_prefix(2) [OF assms] that by simp
  ultimately show ?thesis
    using probe_prefix [OF assms] by (simp add: velocitor_pci_remove_def devres_release_all_def)
qed

text \<open>C38. Between a successful probe and the end of the card there is a moment at which the remote processor is
  freed while the interrupt handlers are still registered and \<open>rproc.handle\<close> still points to it: an
  interrupt of any ring, or of an error, then goes through a dangling pointer. Before the first
  release every ring's interrupt is answered with its notifyid.\<close>

theorem unbind_leaves_dangling_rproc:
  assumes "velocitor_pci_probe B K (unbound s) = (p, 0)"
  shows "\<exists>k. let q = (devres_release ^^ k) p in R_irq_error \<in> set (p_held q) \<and> error_event_report q = None
     \<and> (\<forall>i < VEL_VRINGS_COUNT. R_irq_ring i \<in> set (p_held q) \<and> irq_queue_event i q = None
          \<and> irq_queue_event i p = Some (Some (vr_notifyid (vqs (c_drv (p_card p)) i))))"
proof -
  have held: "p_held p = rev (probe_order K)" "p_devres p = p_held p"
    using probe_prefix [OF assms] by auto
  define q where "q = (devres_release ^^ 6) p"
  have rproc: "p_rproc p" by (rule probe_sets_rproc [OF assms])
  have "p_held q = drop 6 (rev (probe_order K))" "p_rproc q"
    using release_held [of p 6] held rproc by (simp_all add: probe_order_def q_def)
  then have "R_irq_error \<in> set (p_held q)" "R_rproc \<notin> set (p_held q)" "R_irq_ring ` {0, 1, 2, 3} \<subseteq> set (p_held q)" "p_rproc q"
    by (simp_all add: probe_order_def irq_resources_def ring_resources_def)
  moreover have "R_rproc \<in> set (p_held p)" by (simp add: held probe_order_def)
  moreover have "i \<in> {0, 1, 2, 3}" if "i < VEL_VRINGS_COUNT" for i :: nat using that by auto
  ultimately have "R_irq_error \<in> set (p_held q) \<and> error_event_report q = None
     \<and> (\<forall>i < VEL_VRINGS_COUNT. R_irq_ring i \<in> set (p_held q) \<and> irq_queue_event i q = None
          \<and> irq_queue_event i p = Some (Some (vr_notifyid (vqs (c_drv (p_card p)) i))))"
    using rproc by (auto simp: irq_queue_event_def error_event_report_def)
  then show ?thesis unfolding Let_def q_def by (rule exI)
qed

section \<open>A probe that succeeds\<close>

text \<open>The card as \<open>rproc_boot\<close> finds it when the kernel granted everything.\<close>

definition handed_card :: "'h answers \<Rightarrow> 'h velocitor_state \<Rightarrow> 'h card" where
  "handed_card K s =
     \<lparr>c_dev = s\<lparr>scratch := 0x12345678\<rparr>,
      c_drv = drv_zero\<lparr>
        identity := \<lparr>id_minor = ucast (VEL_VERSION :: u32), id_major = ucast (drop_bit 16 (VEL_VERSION :: u32)),
          id_nodes = VEL_NODES, id_engines = VEL_ENGINES, id_mem_size = VEL_MEM_SIZE, id_caps = 7\<rparr>,
        pool_dma := a_dma K R_pool,
        vqs := (\<lambda>i. \<lparr>vr_index = i, vr_vector = i + 1, vr_notifyid = - 1,
                 vr_dma = if i < VEL_VRINGS_COUNT then a_dma K (R_ring i) else 0\<rparr>),
        rsc_dma := a_dma K R_rsc\<rparr>,
      c_ctrl = velocitor_ctrl_zero, c_data = data_ready\<rparr>"

definition grants :: "'h answers \<Rightarrow> bool" where
  "grants K \<longleftrightarrow> a_acquire K = (\<lambda>_. 0) \<and> a_action K = (\<lambda>_. 0) \<and> a_mask K = 0"

lemma granted_steps:
  assumes "grants K"
  shows "devm K r p = (p\<lparr>p_held := r # p_held p, p_devres := r # p_devres p\<rparr>, 0)"
    "devm_ptr K r p = (p\<lparr>p_held := r # p_held p, p_devres := r # p_devres p\<rparr>, 0)"
    "acquire K r p = (p\<lparr>p_held := r # p_held p\<rparr>, 0)"
    "devm_add_action_or_reset K r p = (p\<lparr>p_devres := r # p_devres p\<rparr>, 0)"
    "granted K r = Some (a_dma K r)"
  using assms by (simp_all add: grants_def devm_def devm_ptr_def acquire_def devm_add_action_or_reset_def granted_def)

lemma rings_granted:
  "fst (velocitor_vring_initialize 0 (\<lambda>i. True) (\<lambda>i. Some (f i)) d) = d\<lparr>vqs := (\<lambda>i.
     if i < VEL_VRINGS_COUNT then \<lparr>vr_index = i, vr_vector = i + 1, vr_notifyid = - 1, vr_dma = f i\<rparr> else vqs d i)\<rparr>"
proof -
  have r: "v\<lparr>vr_index := i, vr_vector := j, vr_notifyid := n, vr_dma := a\<rparr> = \<lparr>vr_index = i, vr_vector = j, vr_notifyid = n, vr_dma = a\<rparr>"
    for v :: velocitor_vring and i j n a by (cases v) simp
  have upd: "(vqs d)(0 := x 0, 1 := x 1, 2 := x 2, 3 := x 3) = (\<lambda>i. if i < 4 then x i else vqs d i)" for x
    by (auto simp: fun_eq_iff less_Suc_eq numeral_eq_Suc)
  have "vring_initialize_from (\<lambda>i. True) (\<lambda>i. Some (f i)) [0, 1, 2, 3] d = (d\<lparr>vqs := (vqs d)(
      0 := \<lparr>vr_index = 0, vr_vector = 0 + 1, vr_notifyid = - 1, vr_dma = f 0\<rparr>, 1 := \<lparr>vr_index = 1, vr_vector = 1 + 1, vr_notifyid = - 1, vr_dma = f 1\<rparr>,
      2 := \<lparr>vr_index = 2, vr_vector = 2 + 1, vr_notifyid = - 1, vr_dma = f 2\<rparr>, 3 := \<lparr>vr_index = 3, vr_vector = 3 + 1, vr_notifyid = - 1, vr_dma = f 3\<rparr>)\<rparr>, 0)"
    by (simp add: velocitor_vring_initialize1_def r)
  moreover have "[0 ..< 4] = [0, 1, 2, 3 :: nat]" by (simp add: upt_rec)
  ultimately show ?thesis
    by (simp add: velocitor_vring_initialize_def upd [of "\<lambda>i. \<lparr>vr_index = i, vr_vector = i + 1, vr_notifyid = - 1, vr_dma = f i\<rparr>", simplified])
qed

lemma granted_setup:
  assumes "grants K"
  shows "\<exists>p. steps [devm_ptr K R_card, \<lambda>p. (fst (velocitor_debugfs_initialize K p), 0), devm K R_enabled,
     map_bar0 B K, initialize_bar2 K, identity_initialize, velocitor_counters_initialize K, velocitor_window_initialize K,
     velocitor_dma_initialize K, vring_initialize K, velocitor_irq_initialize K, ctrl_initialize K, data_initialize K,
     velocitor_dtrace_initialize K] (unbound s) = (p, 0)
    \<and> (p_card p)\<lparr>c_drv := (c_drv (p_card p))\<lparr>rsc_dma := a_dma K R_rsc\<rparr>\<rparr> = handed_card K s
    \<and> (\<forall>i < VEL_VRINGS_COUNT. p_irqs p i = a_irq K (i + 1)) \<and> p_debugfs p"
proof -
  have K: "a_acquire K = (\<lambda>_. 0)" "a_action K = (\<lambda>_. 0)" "a_mask K = 0" using assms by (simp_all add: grants_def)
  have four: "i = 0 \<or> i = 1 \<or> i = 2 \<or> i = 3" if "i < 4" for i :: nat using that by linarith
  note parts = velocitor_debugfs_initialize_def map_bar0_def initialize_bar2_def identity_initialize_def
    velocitor_counters_initialize_def velocitor_window_initialize_def velocitor_dma_initialize_def
    vring_initialize_def velocitor_irq_initialize_def request_ring_irq_def ctrl_initialize_def data_initialize_def
    velocitor_dtrace_initialize_def
  show ?thesis
    unfolding parts writing_drv_def writing_def hold_def
    by (simp add: granted_steps [OF assms] K probe_identifies rings_granted unbound_def card_zero_def cong: if_cong)
      (auto dest: four simp: handed_card_def drv_zero_def data_ready_def velocitor_ctrl_initialize_def velocitor_ctrl_zero_def fun_eq_iff)
qed


text \<open>
  \<open>rproc_boot\<close> over the driver's operations: \<open>load\<close> is what the core's ELF loader does to the card's memory and to the
  host's copy of the table, \<open>tbl\<close> the table it cached; then it calls \<open>start\<close>.
\<close>

definition start_boot ::
  "'h pci_bus \<Rightarrow> ('h velocitor_state \<Rightarrow> 'h velocitor_state) \<Rightarrow> (u64 \<Rightarrow> nat \<Rightarrow> 'h \<Rightarrow> 'h) \<Rightarrow> bytes \<Rightarrow> u32 \<Rightarrow>
     ('h velocitor_state \<Rightarrow> 'h velocitor_state) \<Rightarrow> 'h card \<Rightarrow> 'h card \<times> int" where
  "start_boot B env memset0 tbl n load c =
     (case velocitor_rproc_start B env memset0 (Some tbl) n (c_drv c) (load (c_dev c)) of
        (d, s, err) \<Rightarrow> (c\<lparr>c_drv := d, c_dev := s\<rparr>, err))"

lemma granted_probe:
  assumes "grants K" and "a_boot K (handed_card K s) = (c, 0)"
  shows "\<exists>p. velocitor_pci_probe B K (unbound s) = (p, 0) \<and> p_card p = c \<and> (\<forall>i < VEL_VRINGS_COUNT. p_irqs p i = a_irq K (i + 1))"
proof -
  define fs where "fs = [devm_ptr K R_card, \<lambda>p. (fst (velocitor_debugfs_initialize K p), 0), devm K R_enabled,
     map_bar0 B K, initialize_bar2 K, identity_initialize, velocitor_counters_initialize K, velocitor_window_initialize K,
     velocitor_dma_initialize K, vring_initialize K, velocitor_irq_initialize K, ctrl_initialize K, data_initialize K,
     velocitor_dtrace_initialize K]"
  obtain p where p: "steps fs (unbound s) = (p, 0)" "(p_card p)\<lparr>c_drv := (c_drv (p_card p))\<lparr>rsc_dma := a_dma K R_rsc\<rparr>\<rparr> = handed_card K s"
    "\<forall>i < VEL_VRINGS_COUNT. p_irqs p i = a_irq K (i + 1)"
    using granted_setup [OF assms(1), of B s] unfolding fs_def by blast
  have "velocitor_pci_probe B K = steps (fs @ [velocitor_remoteproc_initialize K, velocitor_cdev_initialize K])"
    by (simp add: velocitor_pci_probe_def fs_def)
  then have "velocitor_pci_probe B K (unbound s) = steps [velocitor_remoteproc_initialize K, velocitor_cdev_initialize K] p"
    using p(1) by (simp add: steps_append)
  moreover have "a_acquire K = (\<lambda>_. 0)" using assms(1) by (simp add: grants_def)
  ultimately show ?thesis
    using p(2,3) assms(2)
    by (simp add: velocitor_remoteproc_initialize_def velocitor_cdev_initialize_def granted_steps [OF assms(1)] writing_drv_def writing_def)
qed


text \<open>A kernel that grants everything, with the generator's firmware.\<close>

definition generous :: "store answers" where
  "generous = \<lparr>a_acquire = (\<lambda>_. 0), a_action = (\<lambda>_. 0),
     a_dma = (\<lambda>r. case r of R_ring i \<Rightarrow> word_of_nat (0x100000 * (i + 1)) | R_rsc \<Rightarrow> 0x10000 | _ \<Rightarrow> 0x800000),
     a_irq = (\<lambda>v. 40 + int v), a_mask = 0,
     a_boot = start_boot ram_bus quick_boot host_memset0 filled_table 220
       (\<lambda>s. s\<lparr>mem := loaded_image, host := host loaded_device\<rparr>)\<rparr>"



text \<open>A kernel out of coherent memory for the last ring, and one whose boot does nothing.\<close>

definition no_last_ring :: "unit answers" where
  "no_last_ring = \<lparr>a_acquire = (\<lambda>r. if r = R_ring 3 then 1 else 0), a_action = (\<lambda>_. 0), a_dma = (\<lambda>_. 0x800000),
     a_irq = (\<lambda>v. 40 + int v), a_mask = 0, a_boot = (\<lambda>c. (c, 0))\<rparr>"

definition idle_boot :: "unit answers" where
  "idle_boot = no_last_ring\<lparr>a_acquire := (\<lambda>_. 0)\<rparr>"

theorem probe_unwinds_witness:
  "\<exists>p. velocitor_pci_probe no_bus no_last_ring (unbound (velocitor_new ())) = (p, - ENOMEM) \<and> length (p_held p) = 17
     \<and> p_held (devres_release_all (velocitor_pci_remove p)) = []"
proof -
  define p where "p = fst (velocitor_pci_probe no_bus no_last_ring (unbound (velocitor_new ())))"
  have "velocitor_pci_probe no_bus no_last_ring (unbound (velocitor_new ())) = (p, - ENOMEM) \<and> length (p_held p) = 17"
    unfolding p_def
    by (simp add: velocitor_pci_probe_def velocitor_debugfs_initialize_def map_bar0_def initialize_bar2_def identity_initialize_def
        velocitor_counters_initialize_def velocitor_window_initialize_def velocitor_dma_initialize_def vring_initialize_def
        writing_drv_def writing_def hold_def devm_def devm_ptr_def devm_add_action_or_reset_def no_last_ring_def granted_def
        probe_identifies unbound_def)
  then show ?thesis using probe_unwinds [of no_bus no_last_ring "velocitor_new ()" p] by blast
qed

theorem unbind_leaves_dangling_rproc_witness:
  "\<exists>p k. velocitor_pci_probe no_bus idle_boot (unbound (velocitor_new ())) = (p, 0)
     \<and> irq_queue_event 0 ((devres_release ^^ k) p) = None \<and> irq_queue_event 0 p = Some (Some (- 1))"
proof -
  have g: "grants idle_boot" by (simp add: grants_def idle_boot_def no_last_ring_def)
  have "a_boot idle_boot (handed_card idle_boot (velocitor_new ())) = (handed_card idle_boot (velocitor_new ()), 0)"
    by (simp add: idle_boot_def no_last_ring_def)
  from granted_probe [OF g this] obtain p where p: "velocitor_pci_probe no_bus idle_boot (unbound (velocitor_new ())) = (p, 0)"
    "p_card p = handed_card idle_boot (velocitor_new ())" by blast
  have "vr_notifyid (vqs (c_drv (p_card p)) 0) = - 1" by (simp add: p(2) handed_card_def)
  moreover obtain k where "\<forall>i < VEL_VRINGS_COUNT. irq_queue_event i ((devres_release ^^ k) p) = None
      \<and> irq_queue_event i p = Some (Some (vr_notifyid (vqs (c_drv (p_card p)) i)))"
    using unbind_leaves_dangling_rproc [OF p(1)] unfolding Let_def by blast
  ultimately show ?thesis using p(1) by (intro exI [of _ p] exI [of _ k]) simp
qed

end
