(* ===== verification/C_Text.thy ===== *)
theory C_Text
  imports Vel_Trace
begin

text \<open>
  Reading numbers, as the C library does for \<open>runtime/src/scan.c\<close>: the conversion \<open>%li\<close> of \<open>fscanf\<close>, which takes the base
  from the prefix, and \<open>strtoul\<close> in base 10; and that they undo the formats \<open>%u\<close> and \<open>0x%08x\<close>.
\<close>

section \<open>Definitions\<close>

definition is_space :: "u8 \<Rightarrow> bool" where
  "is_space b \<longleftrightarrow> b \<in> {9, 10, 11, 12, 13, 32}"

definition digit_val :: "u8 \<Rightarrow> nat option" where
  "digit_val b =
     (let n = unat b in
      if 48 \<le> n \<and> n \<le> 57 then Some (n - 48)
      else if 97 \<le> n \<and> n \<le> 102 then Some (n - 87)
      else if 65 \<le> n \<and> n \<le> 70 then Some (n - 55) else None)"

definition digit_in :: "nat \<Rightarrow> u8 \<Rightarrow> bool" where
  "digit_in base b = (case digit_val b of None \<Rightarrow> False | Some v \<Rightarrow> v < base)"

definition num_of :: "nat \<Rightarrow> bytes \<Rightarrow> nat" where
  "num_of base ds = foldl (\<lambda>n b. base * n + (case digit_val b of None \<Rightarrow> 0 | Some v \<Rightarrow> v)) 0 ds"

definition scan_digits :: "nat \<Rightarrow> bytes \<Rightarrow> nat option" where
  "scan_digits base bs = (let ds = takeWhile (digit_in base) bs in if ds = [] then None else Some (num_of base ds))"

text \<open>The base from the prefix: \<open>0x\<close> is 16, \<open>0\<close> is 8.\<close>

definition scan_base0 :: "bytes \<Rightarrow> nat option" where
  "scan_base0 bs =
     (if take 1 bs = [48] then
        (if take 1 (drop 1 bs) = [120] \<or> take 1 (drop 1 bs) = [88] then scan_digits 16 (drop 2 bs) else scan_digits 8 bs)
      else scan_digits 10 bs)"

definition unsign :: "bytes \<Rightarrow> bool \<times> bytes" where
  "unsign bs = (if take 1 bs = [45] then (True, tl bs) else if take 1 bs = [43] then (False, tl bs) else (False, bs))"

text \<open>Out of range values saturate.\<close>

definition fscanf_i64 :: "bytes \<Rightarrow> u64 option" where
  "fscanf_i64 bs =
     (case unsign (dropWhile is_space bs) of (neg, bs) \<Rightarrow>
        map_option (\<lambda>n. word_of_int (if neg then max (- (2 ^ 63)) (- int n) else min (2 ^ 63 - 1) (int n))) (scan_base0 bs))"

definition strtoul10 :: "bytes \<Rightarrow> u64" where
  "strtoul10 bs =
     (case unsign (dropWhile is_space bs) of (neg, bs) \<Rightarrow>
        (case scan_digits 10 bs of
           None \<Rightarrow> 0
         | Some n \<Rightarrow> if n \<ge> 2 ^ 64 then - 1 else if neg then - word_of_nat n else word_of_nat n))"

section \<open>Reading what was printed\<close>

lemma small_u8: "n < 256 \<Longrightarrow> unat (word_of_nat n :: u8) = n"
  by (simp add: unat_of_nat take_bit_nat_eq_self)

lemma digit_dec: "d < 10 \<Longrightarrow> digit_val (word_of_nat (48 + d)) = Some d"
  using small_u8 [of "48 + d"] by (simp add: digit_val_def Let_def del: of_nat_add)

lemma digit_hex: "d < 16 \<Longrightarrow> digit_val (hex_digit d) = Some d"
  using small_u8 [of "48 + d"] small_u8 [of "87 + d"] by (simp add: digit_val_def hex_digit_def Let_def del: of_nat_add)

lemma digit_zero: "digit_val 48 = Some 0" "1 < base \<Longrightarrow> digit_in base 48"
  by (simp_all add: digit_val_def digit_in_def)

lemma num_of_append: "num_of base (ds @ [b]) = base * num_of base ds + (case digit_val b of None \<Rightarrow> 0 | Some v \<Rightarrow> v)"
  by (simp add: num_of_def)

lemma num_of_zeros: "num_of base (replicate k 48 @ ds) = num_of base ds"
  by (induction k) (simp_all add: num_of_def digit_val_def)

lemma fmt_dec_num: "num_of 10 (fmt_dec n) = n \<and> list_all (digit_in 10) (fmt_dec n) \<and> fmt_dec n \<noteq> []"
proof (induction n rule: fmt_dec.induct)
  case (1 n)
  show ?case
  proof (cases "n < 10")
    case True
    then show ?thesis using digit_dec [of n] by (simp add: fmt_dec.simps [of n] num_of_def digit_in_def)
  next
    case False
    then show ?thesis using 1 digit_dec [of "n mod 10"] by (simp add: fmt_dec.simps [of n] num_of_append digit_in_def)
  qed
qed

lemma fmt_hex_num: "num_of 16 (fmt_hex n) = n \<and> list_all (digit_in 16) (fmt_hex n) \<and> fmt_hex n \<noteq> []"
proof (induction n rule: fmt_hex.induct)
  case (1 n)
  show ?case
  proof (cases "n < 16")
    case True
    then show ?thesis using digit_hex [of n] by (simp add: fmt_hex.simps [of n] num_of_def digit_in_def)
  next
    case False
    then show ?thesis using 1 digit_hex [of "n mod 16"] by (simp add: fmt_hex.simps [of n] num_of_append digit_in_def)
  qed
qed

lemma scan_digits_append:
  "\<lbrakk>list_all (digit_in base) ds; ds \<noteq> []; \<not> digit_in base b\<rbrakk> \<Longrightarrow> scan_digits base (ds @ b # rest) = Some (num_of base ds)"
  by (simp add: scan_digits_def takeWhile_append2 list_all_iff)

lemma fmt_dec_head: "0 < n \<Longrightarrow> hd (fmt_dec n) \<noteq> 48"
proof (induction n rule: fmt_dec.induct)
  case (1 n)
  show ?case
  proof (cases "n < 10")
    case True
    have "unat (word_of_nat (48 + n) :: u8) = 48 + n" using True by (intro small_u8) simp
    then have "(word_of_nat (48 + n) :: u8) \<noteq> 48" using 1(2) by auto
    then show ?thesis using True by (simp add: fmt_dec.simps [of n])
  next
    case False
    then show ?thesis using 1 fmt_dec_num [of "n div 10"] by (simp add: fmt_dec.simps [of n])
  qed
qed

lemma digit_not_blank: "digit_in 10 b \<Longrightarrow> \<not> is_space b \<and> b \<noteq> 45 \<and> b \<noteq> 43"
  by (auto simp: digit_in_def digit_val_def is_space_def)

lemma fscanf_u: "n < 2 ^ 63 \<Longrightarrow> fscanf_i64 (fmt_dec n @ [10]) = Some (word_of_nat n)"
proof -
  assume n: "n < 2 ^ 63"
  obtain b ds where bs: "fmt_dec n = b # ds" using fmt_dec_num [of n] by (cases "fmt_dec n") auto
  have b: "digit_in 10 b" using fmt_dec_num [of n] by (simp add: bs)
  have nl: "\<not> digit_in base 10" for base by (simp add: digit_in_def digit_val_def)
  have "scan_base0 (b # ds @ [10]) = Some n"
  proof (cases "n = 0")
    case True
    then have "b = 48" "ds = []" using bs by (simp_all add: fmt_dec.simps [of 0])
    then show ?thesis using True by (simp add: scan_base0_def scan_digits_def digit_in_def digit_val_def num_of_def)
  next
    case False
    then have "b \<noteq> 48" using fmt_dec_head [of n] bs by simp
    then have "scan_base0 (b # ds @ [10]) = scan_digits 10 (b # ds @ [10])"
      by (simp add: scan_base0_def)
    also have "\<dots> = Some n" using scan_digits_append [of 10 "b # ds" 10 "[]"] fmt_dec_num [of n] nl bs by simp
    finally show ?thesis .
  qed
  moreover have "unsign (dropWhile is_space (b # ds @ [10])) = (False, b # ds @ [10])"
    using digit_not_blank [OF b] by (simp add: unsign_def)
  moreover have "min (2 ^ 63 - 1) (int n) = int n" using n by simp
  ultimately show ?thesis by (simp add: fscanf_i64_def bs del: dropWhile.simps)
qed

lemma fscanf_x: "n < 2 ^ 63 \<Longrightarrow> fscanf_i64 (48 # 120 # fmt_pad w (fmt_hex n) @ [10]) = Some (word_of_nat n)"
proof -
  assume n: "n < 2 ^ 63"
  have nl: "\<not> digit_in 16 10" by (simp add: digit_in_def digit_val_def)
  have "list_all (digit_in 16) (fmt_pad w (fmt_hex n))" "fmt_pad w (fmt_hex n) \<noteq> []"
    using fmt_hex_num [of n] digit_zero(2) [of 16] by (auto simp: fmt_pad_def list_all_iff)
  from scan_digits_append [OF this nl, of "[]"] have "scan_digits 16 (fmt_pad w (fmt_hex n) @ [10]) = Some n"
    using fmt_hex_num [of n] by (simp add: fmt_pad_def num_of_zeros)
  moreover have "min (2 ^ 63 - 1) (int n) = int n" using n by simp
  ultimately show ?thesis by (simp add: fscanf_i64_def unsign_def is_space_def scan_base0_def)
qed


lemma strtoul_u: "n < 2 ^ 64 \<Longrightarrow> strtoul10 (fmt_dec n) = word_of_nat n"
proof -
  assume n: "n < 2 ^ 64"
  obtain b ds where bs: "fmt_dec n = b # ds" using fmt_dec_num [of n] by (cases "fmt_dec n") auto
  have "unsign (dropWhile is_space (b # ds)) = (False, b # ds)"
    using digit_not_blank [of b] fmt_dec_num [of n] by (simp add: unsign_def bs)
  moreover have "scan_digits 10 (b # ds) = Some n"
    using fmt_dec_num [of n] by (simp add: scan_digits_def bs takeWhile_eq_all_conv [THEN iffD2] list_all_iff)
  ultimately show ?thesis using n by (simp add: strtoul10_def bs del: dropWhile.simps)
qed

end
