(* ===== verification/Rt_Library.thy ===== *)
theory Rt_Library
  imports Drv_Cdev C_Text
begin

text \<open>
  The user library, \<open>runtime/src\<close>, over the ioctl it calls: \<open>open.c\<close>, \<open>scan.c\<close>, \<open>info.c\<close>, \<open>stats.c\<close> and
  \<open>alloc.c\<close>. The locale \<open>char_device\<close> states what the library relies on, and the driver with the device
  behind it is its interpretation. \<open>free\<close> of the structures has no effect here, a \<open>calloc\<close> is a flag.
\<close>

section \<open>Data\<close>

record velocitor_device_info =
  di_present :: bool
  di_minor :: u32
  di_devname :: bytes
  di_fw_minor :: u32
  di_fw_major :: u32
  di_memory :: u64
  di_nodes :: u32
  di_engines :: u32

record velocitor_device =
  fd :: int
  dev_info :: velocitor_device_info

text \<open>\<open>struct velocitor_handle\<close> of the library: the ioctl structure, in bytes, and the device.\<close>

record library_handle =
  lh_alloc :: bytes
  lh_device :: velocitor_device

text \<open>\<open>ioctl\<close> acts on the world: from the descriptor, the command and the argument's bytes to 0 or
  \<open>- errno\<close> and the argument afterwards.\<close>

type_synonym 'w sys_ioctl = "'w \<Rightarrow> int \<Rightarrow> u32 \<Rightarrow> bytes \<Rightarrow> 'w \<times> int \<times> bytes"

definition VEL_IOC_INFO :: u32 where [simp]: "VEL_IOC_INFO = 0x80087630"
definition VEL_IOC_STATS :: u32 where [simp]: "VEL_IOC_STATS = 0x80287631"
definition VEL_IOC_ALLOC_DEV :: u32 where [simp]: "VEL_IOC_ALLOC_DEV = 0xC0207632"
definition VEL_IOC_FREE_DEV :: u32 where [simp]: "VEL_IOC_FREE_DEV = 0x400C7633"
definition VEL_DEVNAME_MAX :: nat where [simp]: "VEL_DEVNAME_MAX = 64"
definition VEL_MAX_DEVICES :: nat where [simp]: "VEL_MAX_DEVICES = 8"
definition PATH_MAX :: nat where [simp]: "PATH_MAX = 4096"

section \<open>Opening and closing\<close>

text \<open>\<open>sys_open\<close> is a descriptor or \<open>- errno\<close>.\<close>

definition velocitor_open ::
  "bool \<Rightarrow> (bytes \<Rightarrow> int) \<Rightarrow> velocitor_device_info option \<Rightarrow> int + velocitor_device" where
  "velocitor_open calloc_ok sys_open desc =
     (case desc of
        None \<Rightarrow> Inl (- EINVAL)
      | Some i \<Rightarrow>
          let path = str ''/dev/'' @ di_devname i in
          if length path \<ge> PATH_MAX then Inl (- ENAMETOOLONG)
          else if \<not> calloc_ok then Inl (- ENOMEM)
          else if sys_open path < 0 then Inl (sys_open path)
          else Inr \<lparr>fd = sys_open path, dev_info = i\<rparr>)"

text \<open>\<open>sys_close\<close> is 0 or \<open>- errno\<close>.\<close>

definition velocitor_close :: "(int \<Rightarrow> int) \<Rightarrow> velocitor_device option \<Rightarrow> int" where
  "velocitor_close sys_close device =
     (case device of None \<Rightarrow> 0 | Some d \<Rightarrow> if fd d \<ge> 0 \<and> sys_close (fd d) < 0 then sys_close (fd d) else 0)"

definition velocitor_info :: "velocitor_device option \<Rightarrow> velocitor_device_info option" where
  "velocitor_info device = map_option dev_info device"

section \<open>State and statistics\<close>

definition velocitor_state_of :: "'w sys_ioctl \<Rightarrow> velocitor_device option \<Rightarrow> 'w \<Rightarrow> 'w \<times> (int + u32 \<times> u32)" where
  "velocitor_state_of ioctl device w =
     (case device of
        None \<Rightarrow> (w, Inl (- EINVAL))
      | Some d \<Rightarrow>
          if fd d = - 1 then (w, Inl (- EINVAL))
          else case ioctl w (fd d) VEL_IOC_INFO (replicate 8 0) of
            (w, err, raw) \<Rightarrow> if err < 0 then (w, Inl err) else (w, Inr (get_le 0 4 raw, get_le 4 4 raw)))"

definition velocitor_stats ::
  "'w sys_ioctl \<Rightarrow> velocitor_device option \<Rightarrow> 'w \<Rightarrow> 'w \<times> (int + u32 \<times> (u64 \<times> u64) list)" where
  "velocitor_stats ioctl device w =
     (case device of
        None \<Rightarrow> (w, Inl (- EINVAL))
      | Some d \<Rightarrow>
          if fd d = - 1 then (w, Inl (- EINVAL))
          else case ioctl w (fd d) VEL_IOC_STATS (replicate 40 0) of
            (w, err, raw) \<Rightarrow>
              if err < 0 then (w, Inl err)
              else (w, Inr (get_le 0 4 raw, map (\<lambda>i. (get_le (8 + 16 * i) 8 raw, get_le (16 + 16 * i) 8 raw)) [0..<2])))"

section \<open>Handles\<close>

definition velocitor_alloc_handle ::
  "'w sys_ioctl \<Rightarrow> bool \<Rightarrow> velocitor_device option \<Rightarrow> u64 \<Rightarrow> u32 \<Rightarrow> u32 \<Rightarrow> 'w \<Rightarrow> 'w \<times> (int + library_handle)" where
  "velocitor_alloc_handle ioctl calloc_ok device sz node type w =
     (case device of
        None \<Rightarrow> (w, Inl (- EINVAL))
      | Some d \<Rightarrow>
          if fd d = - 1 then (w, Inl (- EINVAL))
          else if \<not> calloc_ok then (w, Inl (- ENOMEM))
          else
            let arg = put_le 8 sz @ put_le 4 node @ put_le 4 type @ replicate 16 0 in
            case ioctl w (fd d) VEL_IOC_ALLOC_DEV arg of
              (w, err, arg) \<Rightarrow> if err < 0 then (w, Inl err) else (w, Inr \<lparr>lh_alloc = arg, lh_device = d\<rparr>))"

definition velocitor_free_handle :: "'w sys_ioctl \<Rightarrow> library_handle option \<Rightarrow> 'w \<Rightarrow> 'w \<times> int" where
  "velocitor_free_handle ioctl handle w =
     (case handle of
        None \<Rightarrow> (w, - EINVAL)
      | Some h \<Rightarrow>
          (case ioctl w (fd (lh_device h)) VEL_IOC_FREE_DEV (take 12 (drop 16 (lh_alloc h))) of
             (w, err, _) \<Rightarrow> (w, if err < 0 then err else 0)))"

section \<open>Scanning\<close>

text \<open>
  \<open>fgets\<close> yields the lines of \<open>uevent\<close>, cut at their newline, or \<open>fopen\<close> an errno. The result is the errno, or the
  device name and the minor.
\<close>

fun uevent_lines :: "bytes list \<Rightarrow> bytes option \<Rightarrow> u32 option \<Rightarrow> int + bytes \<times> u32" where
  "uevent_lines [] devname minor =
     (case (devname, minor) of (Some n, Some m) \<Rightarrow> Inr (n, m) | _ \<Rightarrow> Inl (- ENOENT))"
| "uevent_lines (line # rest) devname minor =
     (if take 8 line = str ''DEVNAME='' then
        (if length (drop 8 line) \<ge> VEL_DEVNAME_MAX then Inl (- ENAMETOOLONG)
         else uevent_lines rest (Some (drop 8 line)) minor)
      else if take 6 line = str ''MINOR='' then uevent_lines rest devname (Some (ucast (strtoul10 (drop 6 line))))
      else uevent_lines rest devname minor)"

definition sysfs_read_uevent :: "(int + bytes list) \<Rightarrow> int + bytes \<times> u32" where
  "sysfs_read_uevent file = (case file of Inl err \<Rightarrow> Inl err | Inr lines \<Rightarrow> uevent_lines lines None None)"

text \<open>\<open>file\<close> is the errno of \<open>fopen\<close> or what the file holds.\<close>

definition sysfs_read_u64 :: "(int + bytes) \<Rightarrow> int + u64" where
  "sysfs_read_u64 file =
     (case file of
        Inl err \<Rightarrow> Inl err
      | Inr content \<Rightarrow> (case fscanf_i64 content of None \<Rightarrow> Inl (- EINVAL) | Some v \<Rightarrow> Inr v))"

record sysfs_entry =
  se_uevent :: "int + bytes list"
  se_attr :: "string \<Rightarrow> int + bytes"

definition velocitor_sysfs_read_device_attrs ::
  "sysfs_entry \<Rightarrow> int + velocitor_device_info" where
  "velocitor_sysfs_read_device_attrs e =
     (case sysfs_read_uevent (se_uevent e) of
        Inl err \<Rightarrow> Inl err
      | Inr (devname, minor) \<Rightarrow>
          (case sysfs_read_u64 (se_attr e ''version'') of
             Inl err \<Rightarrow> Inl err
           | Inr version \<Rightarrow>
               (case sysfs_read_u64 (se_attr e ''mem_size'') of
                  Inl err \<Rightarrow> Inl err
                | Inr memory \<Rightarrow>
                    (case sysfs_read_u64 (se_attr e ''nodes'') of
                       Inl err \<Rightarrow> Inl err
                     | Inr nodes \<Rightarrow>
                         (case sysfs_read_u64 (se_attr e ''engines'') of
                            Inl err \<Rightarrow> Inl err
                          | Inr engines \<Rightarrow>
                              Inr \<lparr>di_present = True, di_minor = minor, di_devname = devname,
                                   di_fw_minor = ucast (version AND 0xffff), di_fw_major = ucast (drop_bit 16 version),
                                   di_memory = memory, di_nodes = ucast nodes, di_engines = ucast engines\<rparr>)))))"

text \<open>\<open>names\<close> is what \<open>readdir\<close> yields; \<open>found\<close> the part of the array filled so far.\<close>

fun scan_entries ::
  "(string \<Rightarrow> sysfs_entry) \<Rightarrow> nat \<Rightarrow> string list \<Rightarrow> velocitor_device_info list \<Rightarrow> velocitor_device_info list" where
  "scan_entries sysfs count [] found = found"
| "scan_entries sysfs count (name # rest) found =
     (if length found \<ge> count then found
      else if take 1 name = ''.'' then scan_entries sysfs count rest found
      else case velocitor_sysfs_read_device_attrs (sysfs name) of
        Inl err \<Rightarrow> scan_entries sysfs count rest found
      | Inr d \<Rightarrow> scan_entries sysfs count rest (found @ [d]))"

definition velocitor_scan ::
  "(string \<Rightarrow> sysfs_entry) \<Rightarrow> (int + string list) \<Rightarrow> nat \<Rightarrow> int + velocitor_device_info list" where
  "velocitor_scan sysfs dir count =
     (let count = (if count > VEL_MAX_DEVICES then VEL_MAX_DEVICES else count) in
      case dir of Inl err \<Rightarrow> Inl err | Inr names \<Rightarrow> Inr (scan_entries sysfs count names []))"


section \<open>What the library relies on\<close>

text \<open>The session handle in an allocation structure: address and generation.\<close>

definition alloc_key :: "bytes \<Rightarrow> u32 \<times> u32" where
  "alloc_key arg = (get_le 16 4 arg, get_le 24 4 arg)"

definition free_key :: "bytes \<Rightarrow> u32 \<times> u32" where
  "free_key arg = (get_le 0 4 arg, get_le 8 4 arg)"

lemma free_key_of_alloc: "length arg = 32 \<Longrightarrow> free_key (take 12 (drop 16 arg)) = alloc_key arg"
  by (simp add: free_key_def alloc_key_def get_le_def drop_take)

locale char_device =
  fixes ioctl :: "'w sys_ioctl" and good :: "'w \<Rightarrow> bool" and live :: "'w \<Rightarrow> (u32 \<times> u32) set"
  assumes alloc_law: "\<lbrakk>good w; length arg = 32; ioctl w f VEL_IOC_ALLOC_DEV arg = (w', err, arg')\<rbrakk> \<Longrightarrow>
      good w' \<and> (err < 0 \<and> live w' = live w
        \<or> err = 0 \<and> length arg' = 32 \<and> alloc_key arg' \<notin> live w \<and> live w' = insert (alloc_key arg') (live w))"
    and free_law: "\<lbrakk>good w; length arg = 12; ioctl w f VEL_IOC_FREE_DEV arg = (w', err, arg')\<rbrakk> \<Longrightarrow>
      good w' \<and> live w' = live w - {free_key arg} \<and> (if free_key arg \<in> live w then err = 0 else err < 0)"

text \<open>A program that allocates and frees through the library, with the handles it holds.\<close>

datatype lib_op = Lib_alloc bool u64 u32 u32 | Lib_free nat

definition handle_key :: "library_handle \<Rightarrow> u32 \<times> u32" where
  "handle_key h = alloc_key (lh_alloc h)"

fun lib_step ::
  "'w sys_ioctl \<Rightarrow> velocitor_device \<Rightarrow> 'w \<times> library_handle list \<Rightarrow> lib_op \<Rightarrow> 'w \<times> library_handle list \<Rightarrow> bool" where
  "lib_step ioctl dev (w, held) (Lib_alloc calloc_ok sz node type) (w', held') \<longleftrightarrow>
     (case velocitor_alloc_handle ioctl calloc_ok (Some dev) sz node type w of
        (u, Inl err) \<Rightarrow> w' = u \<and> held' = held
      | (u, Inr h) \<Rightarrow> w' = u \<and> held' = h # held)"
| "lib_step ioctl dev (w, held) (Lib_free i) (w', held') \<longleftrightarrow>
     i < length held \<and> w' = fst (velocitor_free_handle ioctl (Some (held ! i)) w) \<and> held' = take i held @ drop (Suc i) held"

text \<open>The handles held are live, each once, and they are all that is live beyond what was before.\<close>

definition lib_good ::
  "('w \<Rightarrow> bool) \<Rightarrow> ('w \<Rightarrow> (u32 \<times> u32) set) \<Rightarrow> (u32 \<times> u32) set \<Rightarrow> 'w \<times> library_handle list \<Rightarrow> bool" where
  "lib_good good live base p \<longleftrightarrow> good (fst p) \<and> distinct (map handle_key (snd p)) \<and> base \<inter> set (map handle_key (snd p)) = {}
     \<and> live (fst p) = base \<union> set (map handle_key (snd p)) \<and> list_all (\<lambda>h. length (lh_alloc h) = 32) (snd p)"

context char_device
begin

lemma free_held:
  assumes "lib_good good live base (w, held)" and "i < length held"
  shows "\<exists>w'. velocitor_free_handle ioctl (Some (held ! i)) w = (w', 0)
     \<and> lib_good good live base (w', take i held @ drop (Suc i) held)"
proof -
  let ?h = "held ! i"
  let ?arg = "take 12 (drop 16 (lh_alloc ?h))"
  obtain w' err arg' where io: "ioctl w (fd (lh_device ?h)) VEL_IOC_FREE_DEV ?arg = (w', err, arg')" by (metis prod_cases3)
  have len: "length (lh_alloc ?h) = 32" using assms by (simp add: lib_good_def list_all_iff)
  have key: "free_key ?arg = handle_key ?h" using free_key_of_alloc [OF len] by (simp add: handle_key_def)
  have lv: "handle_key ?h \<in> live w" using assms by (auto simp: lib_good_def)
  have law: "good w'" "live w' = live w - {handle_key ?h}" "err = 0"
    using free_law [OF _ _ io] assms(1) len lv by (auto simp: lib_good_def key)
  have split: "held = take i held @ ?h # drop (Suc i) held" using assms(2) by (rule id_take_nth_drop)
  define k where "k = take i held @ drop (Suc i) held"
  have sets: "set (map handle_key held) = insert (handle_key ?h) (set (map handle_key k))" "handle_key ?h \<notin> set (map handle_key k)"
    "distinct (map handle_key k)" "set k \<subseteq> set held"
  proof -
    have keys: "map handle_key held = map handle_key (take i held) @ handle_key ?h # map handle_key (drop (Suc i) held)"
      using arg_cong [OF split, of "map handle_key"] by (simp only: map_append list.map)
    show "set (map handle_key held) = insert (handle_key ?h) (set (map handle_key k))" by (simp only: keys k_def) auto
    have "distinct (map handle_key held)" using assms(1) by (simp add: lib_good_def)
    then show "handle_key ?h \<notin> set (map handle_key k)" "distinct (map handle_key k)" by (simp_all add: keys k_def del: set_map)
    show "set k \<subseteq> set held" using set_take_subset [of i held] set_drop_subset [of "Suc i" held] by (simp add: k_def)
  qed
  have "lib_good good live base (w', k)"
    using assms(1) law sets by (auto simp: lib_good_def list_all_iff)
  then show ?thesis using io law(3) by (simp add: velocitor_free_handle_def k_def)
qed

lemma free_twice:
  assumes good: "lib_good good live base (w, held)" and i: "i < length held"
  shows "\<exists>u. velocitor_free_handle ioctl (Some (held ! i)) w = (u, 0) \<and> good u \<and> live u = live w - {handle_key (held ! i)}
     \<and> snd (velocitor_free_handle ioctl (Some (held ! i)) u) < 0"
proof -
  let ?h = "held ! i"
  let ?arg = "take 12 (drop 16 (lh_alloc ?h))"
  have len: "length (lh_alloc ?h) = 32" using assms by (simp add: lib_good_def list_all_iff)
  have key: "free_key ?arg = handle_key ?h" using free_key_of_alloc [OF len] by (simp add: handle_key_def)
  obtain u where u: "velocitor_free_handle ioctl (Some ?h) w = (u, 0)" using free_held [OF assms] by blast
  obtain w1 e1 a1 where io1: "ioctl w (fd (lh_device ?h)) VEL_IOC_FREE_DEV ?arg = (w1, e1, a1)" by (metis prod_cases3)
  obtain w2 e2 a2 where io2: "ioctl u (fd (lh_device ?h)) VEL_IOC_FREE_DEV ?arg = (w2, e2, a2)" by (metis prod_cases3)
  have "w1 = u" using u io1 by (simp add: velocitor_free_handle_def)
  then have law: "good u" "live u = live w - {handle_key ?h}"
    using free_law [OF _ _ io1] good len by (simp_all add: lib_good_def key)
  then have "e2 < 0" using free_law [OF law(1) _ io2] len by (simp add: key)
  with u law io2 show ?thesis by (simp add: velocitor_free_handle_def)
qed

lemma lib_step_good: "lib_good good live base p \<Longrightarrow> lib_step ioctl dev p l q \<Longrightarrow> lib_good good live base q"
proof -
  assume p: "lib_good good live base p" and st: "lib_step ioctl dev p l q"
  obtain w held where p': "p = (w, held)" by fastforce
  obtain w' held' where q': "q = (w', held')" by fastforce
  show "lib_good good live base q"
  proof (cases l)
    case (Lib_free i)
    then show ?thesis using st free_held [OF p [unfolded p'], of i] by (auto simp: p' q')
  next
    case (Lib_alloc calloc_ok sz node type)
    let ?arg = "put_le 8 sz @ put_le 4 node @ put_le 4 type @ replicate 16 0"
    obtain u err arg where io: "ioctl w (fd dev) VEL_IOC_ALLOC_DEV ?arg = (u, err, arg)" by (metis prod_cases3)
    have "good w" using p by (simp add: p' lib_good_def)
    then have law: "good u \<and> (err < 0 \<and> live u = live w
        \<or> err = 0 \<and> length arg = 32 \<and> alloc_key arg \<notin> live w \<and> live u = insert (alloc_key arg) (live w))"
      by (rule alloc_law [OF _ _ io]) simp
    consider "q = p" | "err < 0" "q = (u, held)" | "\<not> err < 0" "q = (u, \<lparr>lh_alloc = arg, lh_device = dev\<rparr> # held)"
      using st Lib_alloc io by (auto simp: p' q' velocitor_alloc_handle_def split: if_splits)
    then show ?thesis
      using p law by cases (auto simp: p' lib_good_def handle_key_def)
  qed
qed

lemma lib_run_good: "run (lib_step ioctl dev) p ls q \<Longrightarrow> lib_good good live base p \<Longrightarrow> lib_good good live base q"
  by (induction rule: run.induct) (auto intro: lib_step_good)

end


section \<open>The driver behind the library\<close>

text \<open>
  The world is the device and the driver's part of it, at rest between two calls; \<open>driver_ioctl\<close> is an
  undisturbed call of \<open>velocitor_cdev_ioctl\<close> on the argument's bytes, during which the device serves
  the request, if one was sent.
\<close>

definition driver_ioctl :: "('h velocitor_state \<times> cdev_state) sys_ioctl" where
  "driver_ioctl w f cmd arg =
     (case w of (s, d) \<Rightarrow>
        (case velocitor_cdev_ioctl (calm s arg) cmd s d of
           None \<Rightarrow> (w, - EIO, arg)
         | Some (s', d', err, out) \<Rightarrow>
             ((if sent (cd_ctrl d') = sent (cd_ctrl d) then s' else fst (device_answer s (last (sent (cd_ctrl d')))), d'),
              err, case out of None \<Rightarrow> arg | Some bs \<Rightarrow> bs)))"

definition at_rest :: "'h velocitor_state \<times> cdev_state \<Rightarrow> bool" where
  "at_rest w \<longleftrightarrow> (case w of (s, d) \<Rightarrow> mirrors (handles (cd_dev d)) s \<and> rpdev (cd_ctrl d) \<and> drvdata (cd_ctrl d)
     \<and> objs (cd_ctrl d) = (\<lambda>_. None) \<and> set (inflight (cd_ctrl d)) = {})"

definition device_live :: "'h velocitor_state \<times> cdev_state \<Rightarrow> (u32 \<times> u32) set" where
  "device_live w = (case w of (s, d) \<Rightarrow> {(h, g). g = generation s \<and> heap_lookup s h \<noteq> None})"

lemma rest_undisturbed: "at_rest (s, d) \<Longrightarrow> undisturbed (calm s arg) s d"
  by (simp add: at_rest_def undisturbed_def calm_def idr_find_def)

lemma ioc_fields:
  "ioc_type VEL_IOC_ALLOC_DEV = VEL_DRV_MAGIC" "ioc_nr VEL_IOC_ALLOC_DEV = 0x32" "ioc_size VEL_IOC_ALLOC_DEV = 32"
  "ioc_type VEL_IOC_FREE_DEV = VEL_DRV_MAGIC" "ioc_nr VEL_IOC_FREE_DEV = 0x33" "ioc_size VEL_IOC_FREE_DEV = 12"
  "ioc_type VEL_IOC_INFO = VEL_DRV_MAGIC" "ioc_nr VEL_IOC_INFO = 0x30" "ioc_size VEL_IOC_INFO = 8"
  "ioc_type VEL_IOC_STATS = VEL_DRV_MAGIC" "ioc_nr VEL_IOC_STATS = 0x31" "ioc_size VEL_IOC_STATS = 40"
  by code_simp+

lemma calm_copy: "copy_struct_from_user (calm s u) k n = Inr u"
  by (simp add: calm_def)

lemma channel_served_rest:
  "\<lbrakk>at_rest (s, d); channel_served s s' d d'; mirrors (handles (cd_dev d')) s'\<rbrakk> \<Longrightarrow>
     at_rest (s', d') \<and> sent (cd_ctrl d') \<noteq> sent (cd_ctrl d) \<and> fst (device_answer s (last (sent (cd_ctrl d')))) = s'"
  by (auto simp: at_rest_def channel_served_def)

lemma driver_alloc:
  assumes "at_rest w" and "length arg = 32" and io: "driver_ioctl w f VEL_IOC_ALLOC_DEV arg = (w', err, arg')"
  shows "at_rest w' \<and> (err < 0 \<and> device_live w' = device_live w
        \<or> err = 0 \<and> length arg' = 32 \<and> alloc_key arg' \<notin> device_live w
            \<and> device_live w' = insert (alloc_key arg') (device_live w))"
proof -
  obtain s d where w: "w = (s, d)" by fastforce
  have rest: "at_rest (s, d)" using assms(1) w by simp
  have mir: "mirrors (handles (cd_dev d)) s" using rest by (simp add: at_rest_def)
  define req where "req = \<lparr>areq_size = get_le 0 8 arg, areq_dtype = get_le 12 4 arg, areq_node = get_le 8 4 arg\<rparr>"
  obtain s' res where al: "velocitor_alloc_block s req = (s', res)" by fastforce
  from alloc_served [OF rest_undisturbed [OF rest] calm_copy mir req_def al, of 32] obtain d' e out where
    run: "velocitor_cdev_ioctl_alloc (calm s arg) 32 d = Some (d', e, out)"
    and m: "mirrors (handles (cd_dev d')) s'" and ch: "channel_served s s' d d'"
    and res: "case res of Inl e' \<Rightarrow> e = e' \<and> out = None
      | Inr r \<Rightarrow> e = 0 \<and> out = Some (take 16 arg @ put_le 4 (aresp_handle r) @ put_le 4 (aresp_node r)
          @ put_le 4 (aresp_generation r) @ drop 28 arg) \<and> heap_lookup s (aresp_handle r) = None"
    by (cases res) (simp, blast)+
  note after = channel_served_rest [OF rest ch m]
  have "velocitor_cdev_ioctl (calm s arg) VEL_IOC_ALLOC_DEV s d = Some (s, d', e, out)"
    using run by (simp add: velocitor_cdev_ioctl_def ioc_fields del: VEL_IOC_ALLOC_DEV_def)
  then have out: "w' = (s', d')" "err = e" "arg' = (case out of None \<Rightarrow> arg | Some bs \<Rightarrow> bs)"
    using io after by (auto simp: driver_ioctl_def w simp del: VEL_IOC_ALLOC_DEV_def)
  show ?thesis
  proof (cases res)
    case (Inl e')
    have "e < 0" using alloc_block_err [of s req] al Inl res by auto
    moreover have "heap_of s' = heap_of s" "generation s' = generation s"
      using alloc_block_Inl [of s req s' e'] alloc_block_generation [OF al] al Inl by auto
    then have "device_live (s', d') = device_live (s, d)" using heap_lookup_cong [of s' s] by (simp add: device_live_def)
    ultimately show ?thesis using out after w by simp
  next
    case (Inr r)
    define k where "k = aresp_handle r"
    have ok: "heap_ok s" using mir by (simp add: mirrors_def)
    have new: "heap_lookup s k = None" and e: "e = 0" using res Inr by (simp_all add: k_def)
    have gen: "generation s' = generation s" using alloc_block_generation [OF al] .
    have rg: "aresp_generation r = generation s"
      using al Inr by (auto simp: velocitor_alloc_block_def Let_def split: if_splits prod.splits)
    obtain b where b: "heap_lookup s' = (heap_lookup s)(k \<mapsto> b)"
    proof -
      have "next_handle s \<noteq> 0" using ok by (auto simp: heap_ok_def Let_def)
      then obtain node sz where "next_handle s \<le> VEL_MAX_HANDLES" "s' = heap_push s node sz" "k = next_handle s"
        by (metis alloc_block_Inr [OF al [unfolded Inr]] alloc_resp.simps(1) k_def)
      then show ?thesis using heap_push_lookup(3) [OF ok, of node sz] that by simp
    qed
    have arg': "arg' = take 16 arg @ put_le 4 k @ put_le 4 (aresp_node r) @ put_le 4 (generation s) @ drop 28 arg"
      using out(3) res Inr by (simp add: k_def rg)
    have key: "length arg' = 32" "alloc_key arg' = (k, generation s)"
      using assms(2) by (simp_all add: arg' alloc_key_def get_le_skip)
    have "device_live (s', d') = insert (k, generation s) (device_live (s, d))"
      by (auto simp: device_live_def b gen)
    then show ?thesis using out(1,2) after w key e new by (simp add: device_live_def)
  qed
qed

lemma driver_free:
  assumes "at_rest w" and "length arg = 12" and io: "driver_ioctl w f VEL_IOC_FREE_DEV arg = (w', err, arg')"
  shows "at_rest w' \<and> device_live w' = device_live w - {free_key arg} \<and> (if free_key arg \<in> device_live w then err = 0 else err < 0)"
proof -
  obtain s d where w: "w = (s, d)" by fastforce
  have rest: "at_rest (s, d)" using assms(1) w by simp
  have mir: "mirrors (handles (cd_dev d)) s" using rest by (simp add: at_rest_def)
  define h g where "h = (get_le 0 4 arg :: u32)" and "g = (get_le 8 4 arg :: u32)"
  have key: "free_key arg = (h, g)" by (simp add: free_key_def h_def g_def)
  obtain s' res where fr: "velocitor_free_block s h = (s', res)" by fastforce
  note served = free_served [OF rest_undisturbed [OF rest] calm_copy mir h_def g_def fr, of 12]
  have call: "driver_ioctl w f VEL_IOC_FREE_DEV arg = ((if sent (cd_ctrl d') = sent (cd_ctrl d) then s
      else fst (device_answer s (last (sent (cd_ctrl d')))), d'), e, arg)"
    if "velocitor_cdev_ioctl_free (calm s arg) 12 d = Some (d', e, None)" for d' e
    using that by (simp add: driver_ioctl_def w velocitor_cdev_ioctl_def ioc_fields del: VEL_IOC_FREE_DEV_def)
  consider "g \<noteq> generation s" | "g = generation s" "heap_lookup s h = None" | "g = generation s" "heap_lookup s h \<noteq> None" by blast
  then show ?thesis
  proof cases
    case 1
    then have "velocitor_cdev_ioctl_free (calm s arg) 12 d = Some (d, - ESTALE, None)" using served by blast
    from call [OF this] io 1 rest key show ?thesis by (auto simp: w device_live_def)
  next
    case 2
    then obtain d' where d': "velocitor_cdev_ioctl_free (calm s arg) 12 d = Some (d', - EINVAL, None)"
        "cd_ctrl d' = cd_ctrl d" "mirrors (handles (cd_dev d')) s"
      using served by blast
    have "at_rest (s, d')" using rest d' by (simp add: at_rest_def)
    with call [OF d'(1)] io 2 d'(2) key show ?thesis by (auto simp: w device_live_def)
  next
    case 3
    then obtain d' where d': "velocitor_cdev_ioctl_free (calm s arg) 12 d = Some (d', 0, None)"
        "mirrors (handles (cd_dev d')) s'" "heap_lookup s' = (heap_lookup s)(h := None)" "channel_served s s' d d'"
      using served by blast
    note after = channel_served_rest [OF rest d'(4,2)]
    have "generation s' = generation s" using d'(2) 3 fr by (auto simp: velocitor_free_block_def split: if_splits)
    then have "device_live (s', d') = device_live (s, d) - {(h, g)}" using d'(3) 3 by (auto simp: device_live_def split: if_splits)
    with call [OF d'(1)] io 3 after key show ?thesis by (auto simp: w device_live_def)
  qed
qed

interpretation library: char_device driver_ioctl at_rest device_live
  using driver_alloc driver_free by unfold_locales blast+


section \<open>Properties\<close>


lemma booted_session_rest: "at_rest (booted, session fresh_table)"
  using booted_mirrors by (simp add: at_rest_def session_def velocitor_ctrl_zero_def)

lemma booted_library_alloc:
  "\<exists>w h. velocitor_alloc_handle driver_ioctl True (Some dev) 100 0 0 (booted, session fresh_table) = (w, Inr h)"
  if "fd dev \<noteq> - 1"
proof -
  have "\<lparr>areq_size = get_le 0 8 ask_100, areq_dtype = get_le 12 4 ask_100, areq_node = get_le 8 4 ask_100\<rparr> =
      \<lparr>areq_size = 100, areq_dtype = 0, areq_node = 0\<rparr>"
    by (simp add: ask_100_def get_le_skip)
  then obtain r where r: "velocitor_alloc_block booted
      \<lparr>areq_size = get_le 0 8 ask_100, areq_dtype = get_le 12 4 ask_100, areq_node = get_le 8 4 ask_100\<rparr> = (one_block, Inr r)"
    using booted_alloc by metis
  have "mirrors (handles (cd_dev (session fresh_table))) booted" using booted_mirrors by (simp add: session_def)
  from alloc_served [OF calm_undisturbed calm_copy this refl r(1), of 32] obtain d' out where
    "velocitor_cdev_ioctl_alloc (calm booted ask_100) 32 (session fresh_table) = Some (d', 0, Some out)"
    by (simp split: sum.splits) blast
  then have "velocitor_cdev_ioctl (calm booted ask_100) VEL_IOC_ALLOC_DEV booted (session fresh_table) = Some (booted, d', 0, Some out)"
    by (simp add: velocitor_cdev_ioctl_def ioc_fields del: VEL_IOC_ALLOC_DEV_def)
  then show ?thesis
    using that by (simp add: velocitor_alloc_handle_def ask_100_def driver_ioctl_def Let_def del: VEL_IOC_ALLOC_DEV_def)
qed

definition card0 :: velocitor_device where
  "card0 = \<lparr>fd = 3, dev_info = \<lparr>di_present = True, di_minor = 0, di_devname = str ''velocitor0'', di_fw_minor = 0, di_fw_major = 1,
     di_memory = 0x20000000, di_nodes = 2, di_engines = 4\<rparr>\<rparr>"


text \<open>The scan reports at most \<open>count\<close> devices, never more than eight, each of them present.\<close>

lemma scan_entries_bound:
  "\<lbrakk>length found \<le> count; list_all di_present found\<rbrakk> \<Longrightarrow>
     length (scan_entries sysfs count names found) \<le> count \<and> list_all di_present (scan_entries sysfs count names found)"
proof (induction names arbitrary: found)
  case (Cons name rest)
  have "di_present d" if "velocitor_sysfs_read_device_attrs (sysfs name) = Inr d" for d
    using that by (auto simp: velocitor_sysfs_read_device_attrs_def split: sum.splits prod.splits)
  with Cons show ?case by (auto split: sum.splits)
qed simp

lemma velocitor_scan_bound:
  "velocitor_scan sysfs dir count = Inr ds \<Longrightarrow> length ds \<le> count \<and> length ds \<le> 8 \<and> list_all di_present ds"
proof -
  assume scan: "velocitor_scan sysfs dir count = Inr ds"
  define n where "n = (if count > VEL_MAX_DEVICES then VEL_MAX_DEVICES else count)"
  obtain names where "ds = scan_entries sysfs n names []"
    using scan by (auto simp: velocitor_scan_def n_def split: sum.splits)
  then have "length ds \<le> n \<and> list_all di_present ds" using scan_entries_bound [of "[]" n sysfs] by simp
  then show ?thesis by (auto simp: n_def split: if_splits)
qed

end
