(* ===== verification/Drv_Sysfs.thy ===== *)
theory Drv_Sysfs
  imports Rt_Library
begin

text \<open>
  The sysfs attributes of the character device, \<open>cdev-sysfs.c\<close>, and the way the identity of the card takes from its
  registers over the driver and sysfs to a program that scans for devices.
\<close>

section \<open>Attributes\<close>

definition version_show :: "velocitor_identity \<Rightarrow> bytes" where
  "version_show i = str ''0x'' @ fmt_pad 8 (fmt_x (push_bit 16 (ucast (id_major i)) OR ucast (id_minor i) :: u32)) @ [10]"

definition nodes_show :: "velocitor_identity \<Rightarrow> bytes" where
  "nodes_show i = fmt_u (id_nodes i) @ [10]"

definition engines_show :: "velocitor_identity \<Rightarrow> bytes" where
  "engines_show i = fmt_u (id_engines i) @ [10]"

definition mem_size_show :: "velocitor_identity \<Rightarrow> bytes" where
  "mem_size_show i = fmt_u (id_mem_size i) @ [10]"

definition caps_show :: "velocitor_identity \<Rightarrow> bytes" where
  "caps_show i = str ''0x'' @ fmt_pad 8 (fmt_x (id_caps i)) @ [10]"

text \<open>The group, by the names of the files.\<close>

definition velocitor_cdev_attrs :: "(string \<times> (velocitor_identity \<Rightarrow> bytes)) list" where
  "velocitor_cdev_attrs = [(''version'', version_show), (''nodes'', nodes_show), (''engines'', engines_show),
     (''mem_size'', mem_size_show), (''caps'', caps_show)]"

text \<open>The directory of a card: the attributes, and the \<open>uevent\<close> file the kernel writes for a device node.\<close>

definition card_entry :: "velocitor_identity \<Rightarrow> bytes \<Rightarrow> bytes \<Rightarrow> u32 \<Rightarrow> sysfs_entry" where
  "card_entry i major name minor =
     \<lparr>se_uevent = Inr [str ''MAJOR='' @ major, str ''MINOR='' @ fmt_u minor, str ''DEVNAME='' @ name],
      se_attr = (\<lambda>a. case map_of velocitor_cdev_attrs a of None \<Rightarrow> Inl (- ENOENT) | Some show \<Rightarrow> Inr (show i))\<rparr>"

section \<open>Reading them back\<close>

lemma read_u: "LENGTH('a) \<le> 32 \<Longrightarrow> sysfs_read_u64 (Inr (fmt_u (v :: 'a::len word) @ [10])) = Inr (ucast v)"
proof -
  assume "LENGTH('a) \<le> 32"
  then have "(2 :: nat) ^ LENGTH('a) \<le> 2 ^ 32" by (intro power_increasing) simp_all
  with unsigned_less [of v] have "unat v < 2 ^ 32" by (rule less_le_trans)
  then have "unat v < 2 ^ 63" by simp
  from fscanf_u [OF this] show ?thesis by (simp add: sysfs_read_u64_def fmt_u_def)
qed

lemma read_x: "sysfs_read_u64 (Inr (str ''0x'' @ fmt_pad 8 (fmt_x (v :: u32)) @ [10])) = Inr (ucast v)" for v
proof -
  have "unat v < 2 ^ LENGTH(32)" by (rule unsigned_less)
  then have "unat v < 2 ^ 63" by simp
  from fscanf_x [OF this, of 8] show ?thesis by (simp add: sysfs_read_u64_def fmt_x_def str_def)
qed

lemma version_halves:
  fixes ma mi :: u16
  defines "v \<equiv> (ucast (push_bit 16 (ucast ma) OR ucast mi :: u32) :: u64)"
  shows "ucast (v AND 0xffff) = (ucast mi :: u32)" "ucast (drop_bit 16 v) = (ucast ma :: u32)"
proof -
  have m: "(0xffff :: u64) = mask 16" by (simp add: mask_eq_exp_minus_1)
  show "ucast (v AND 0xffff) = (ucast mi :: u32)" "ucast (drop_bit 16 v) = (ucast ma :: u32)"
    unfolding v_def m by (rule bit_word_eqI; auto simp: bit_simps dest: bit_imp_le_length)+
qed

lemma uevent_read:
  "length name < VEL_DEVNAME_MAX \<Longrightarrow> sysfs_read_uevent (se_uevent (card_entry i major name minor)) = Inr (name, minor)"
proof -
  have "unat minor < 2 ^ LENGTH(32)" by (rule unsigned_less)
  then have "unat minor < 2 ^ 64" by simp
  then have "ucast (strtoul10 (fmt_u minor)) = minor" by (simp add: fmt_u_def strtoul_u)
  then show "length name < VEL_DEVNAME_MAX \<Longrightarrow> sysfs_read_uevent (se_uevent (card_entry i major name minor)) = Inr (name, minor)"
    by (simp add: sysfs_read_uevent_def card_entry_def str_def)
qed

lemma card_read:
  assumes "length name < VEL_DEVNAME_MAX"
  shows "velocitor_sysfs_read_device_attrs (card_entry i major name minor) =
     Inr \<lparr>di_present = True, di_minor = minor, di_devname = name, di_fw_minor = ucast (id_minor i), di_fw_major = ucast (id_major i),
        di_memory = ucast (id_mem_size i), di_nodes = ucast (id_nodes i), di_engines = ucast (id_engines i)\<rparr>"
proof -
  have attr: "se_attr (card_entry i major name minor) ''version'' = Inr (version_show i)"
    "se_attr (card_entry i major name minor) ''mem_size'' = Inr (mem_size_show i)"
    "se_attr (card_entry i major name minor) ''nodes'' = Inr (nodes_show i)"
    "se_attr (card_entry i major name minor) ''engines'' = Inr (engines_show i)"
    by (simp_all add: card_entry_def velocitor_cdev_attrs_def)
  have read: "sysfs_read_u64 (Inr (version_show i)) = Inr (ucast (push_bit 16 (ucast (id_major i)) OR ucast (id_minor i) :: u32))"
    "sysfs_read_u64 (Inr (mem_size_show i)) = Inr (ucast (id_mem_size i))"
    "sysfs_read_u64 (Inr (nodes_show i)) = Inr (ucast (id_nodes i))"
    "sysfs_read_u64 (Inr (engines_show i)) = Inr (ucast (id_engines i))"
    by (simp_all add: version_show_def mem_size_show_def nodes_show_def engines_show_def read_u read_x del: append_assoc)
  have "ucast (ucast (v :: u16) :: u64) = (ucast v :: u32)" for v by (rule bit_word_eqI) (auto simp: bit_simps)
  then show ?thesis
    by (simp add: velocitor_sysfs_read_device_attrs_def uevent_read [OF assms] attr read version_halves)
qed

text \<open>A scan of a system with one card.\<close>

lemma scan_one:
  assumes "length name < VEL_DEVNAME_MAX" and "0 < count" and "take 1 entry \<noteq> ''.''" and "sysfs entry = card_entry i major name minor"
  shows "velocitor_scan sysfs (Inr [''.'', ''..'', entry]) count =
     Inr [\<lparr>di_present = True, di_minor = minor, di_devname = name, di_fw_minor = ucast (id_minor i), di_fw_major = ucast (id_major i),
        di_memory = ucast (id_mem_size i), di_nodes = ucast (id_nodes i), di_engines = ucast (id_engines i)\<rparr>]"
proof -
  have "\<exists>n. (if count > VEL_MAX_DEVICES then VEL_MAX_DEVICES else count) = Suc n" using assms(2) by (cases count) auto
  then show ?thesis using assms(3,4) card_read [OF assms(1), of i major minor] by (auto simp: velocitor_scan_def Let_def)
qed

section \<open>Properties\<close>

text \<open>C10. What a program learns from a scan is what the card's registers say: the driver's identity, printed by
  the sysfs attributes and read back by the library, comes through unchanged (the version's halves,
  the memory size, the nodes, the engines), with the device's name and minor from \<open>uevent\<close>; the two
  dot entries of the directory are passed over.\<close>

theorem scan_reports_identity:
  assumes "velocitor_identity_initialize s = (s', i)" and "length name < VEL_DEVNAME_MAX" and "0 < count"
    and "take 1 entry \<noteq> ''.''" and "sysfs entry = card_entry i major name minor"
  shows "velocitor_scan sysfs (Inr [''.'', ''..'', entry]) count =
     Inr [\<lparr>di_present = True, di_minor = minor, di_devname = name,
        di_fw_minor = VEL_VERSION AND 0xffff, di_fw_major = drop_bit 16 VEL_VERSION,
        di_memory = VEL_MEM_SIZE, di_nodes = VEL_NODES, di_engines = VEL_ENGINES\<rparr>]"
proof -
  have i: "i = \<lparr>id_minor = ucast (VEL_VERSION :: u32), id_major = ucast (drop_bit 16 (VEL_VERSION :: u32)), id_nodes = VEL_NODES,
      id_engines = VEL_ENGINES, id_mem_size = VEL_MEM_SIZE, id_caps = 7\<rparr>"
    using assms(1) probe_identifies [of undefined s] by simp
  show ?thesis using scan_one [of name count entry sysfs i major minor, OF assms(2-5)] by (simp add: i)
qed

theorem scan_reports_identity_witness:
  "velocitor_scan (\<lambda>_. card_entry (snd (velocitor_identity_initialize (velocitor_new ()))) [50] (str ''velocitor0'') 0)
     (Inr [''.'', ''..'', ''velocitor0'']) 8 =
   Inr [\<lparr>di_present = True, di_minor = 0, di_devname = str ''velocitor0'', di_fw_minor = 6, di_fw_major = 0,
     di_memory = 0x10000000, di_nodes = 2, di_engines = 2\<rparr>]"
  using scan_reports_identity [OF prod.collapse [symmetric], of "str ''velocitor0''" 8 "''velocitor0''"
      "\<lambda>_. card_entry (snd (velocitor_identity_initialize (velocitor_new ()))) [50] (str ''velocitor0'') 0" "velocitor_new ()" "[50]" 0]
  by (simp add: str_def)

end
