(* ===== verification/Rt_Test.thy ===== *)
theory Rt_Test
  imports Drv_Life Drv_Sysfs
begin

text \<open>
  The acceptance test of the control plane, \<open>runtime/ctrl-test.c\<close>, as a program over whatever system it runs on (the record
  \<open>bench\<close>), and that system as the driver and the device make it on a kernel: the probed card, its character device and the fault
  injected through debugfs. What the kernel adds (the record \<open>platform\<close>) is a parameter, of which the documented
  behaviour is assumed. The test passes on it.
\<close>

section \<open>The program\<close>

text \<open>
  What the program calls: \<open>readdir\<close> and the files of sysfs, \<open>open\<close> and \<open>close\<close> of a device node (a descriptor or 0, or
  \<open>- errno\<close>), \<open>ioctl\<close>, writing a number to \<open>inject_error\<close> if that file can be opened, and the \<open>i\<close>-th nap.
\<close>

record 'w bench =
  b_dir :: "'w \<Rightarrow> int + string list"
  b_sysfs :: "'w \<Rightarrow> string \<Rightarrow> sysfs_entry"
  b_open :: "bytes \<Rightarrow> 'w \<Rightarrow> 'w \<times> int"
  b_close :: "int \<Rightarrow> 'w \<Rightarrow> 'w \<times> int"
  b_ioctl :: "'w sys_ioctl"
  b_inject :: "(u64 \<Rightarrow> 'w \<Rightarrow> 'w) option"
  b_nap :: "nat \<Rightarrow> 'w \<Rightarrow> 'w"

text \<open>The world, the checks made so far, oldest first, and the local \<open>stats\<close>.\<close>

record 'w test =
  t_world :: 'w
  t_checks :: "(bool \<times> string) list"
  t_stats :: "u32 \<times> (u64 \<times> u64) list"

definition NODE0_ALLOCATABLE :: u64 where [simp]: "NODE0_ALLOCATABLE = 112 * 1024 * 1024"
definition NODE1_ALLOCATABLE :: u64 where [simp]: "NODE1_ALLOCATABLE = 128 * 1024 * 1024"
definition BLOCK :: u64 where [simp]: "BLOCK = 4096"

definition check :: "bool \<Rightarrow> string \<Rightarrow> 'w test \<Rightarrow> 'w test" where
  "check ok what t = t\<lparr>t_checks := t_checks t @ [(ok, what)]\<rparr>"

definition failed :: "'w test \<Rightarrow> nat" where
  "failed t = length (filter (\<lambda>c. \<not> fst c) (t_checks t))"

text \<open>A call of the library, and the check of what it returned.\<close>

definition test_open :: "'w bench \<Rightarrow> int \<Rightarrow> velocitor_device_info \<Rightarrow> string \<Rightarrow> 'w test \<Rightarrow> 'w test \<times> velocitor_device option" where
  "test_open B expected i what t =
     (case velocitor_open True (\<lambda>path. snd (b_open B path (t_world t))) (Some i) of
        Inl err \<Rightarrow> (check (expected = err) what t, None)
      | Inr dev \<Rightarrow> (check (expected = 0) what (t\<lparr>t_world := fst (b_open B (str ''/dev/'' @ di_devname i) (t_world t))\<rparr>), Some dev))"

definition test_stats :: "'w bench \<Rightarrow> velocitor_device \<Rightarrow> string \<Rightarrow> 'w test \<Rightarrow> 'w test" where
  "test_stats B dev what t =
     (case velocitor_stats (b_ioctl B) (Some dev) (t_world t) of
        (w, Inl err) \<Rightarrow> check False what (t\<lparr>t_world := w\<rparr>)
      | (w, Inr stats) \<Rightarrow> check True what (t\<lparr>t_world := w, t_stats := stats\<rparr>))"

definition test_alloc ::
  "'w bench \<Rightarrow> int \<Rightarrow> velocitor_device \<Rightarrow> u64 \<Rightarrow> u32 \<Rightarrow> string \<Rightarrow> 'w test \<Rightarrow> 'w test \<times> library_handle option" where
  "test_alloc B expected dev sz node what t =
     (case velocitor_alloc_handle (b_ioctl B) True (Some dev) sz node 0 (t_world t) of
        (w, Inl err) \<Rightarrow> (check (expected = err) what (t\<lparr>t_world := w\<rparr>), None)
      | (w, Inr h) \<Rightarrow> (check (expected = 0) what (t\<lparr>t_world := w\<rparr>), Some h))"

definition test_free :: "'w bench \<Rightarrow> int \<Rightarrow> library_handle option \<Rightarrow> string \<Rightarrow> 'w test \<Rightarrow> 'w test" where
  "test_free B expected h what t =
     (case velocitor_free_handle (b_ioctl B) h (t_world t) of
        (w, err) \<Rightarrow> check (expected = err) what (t\<lparr>t_world := w\<rparr>))"

definition test_close :: "'w bench \<Rightarrow> velocitor_device \<Rightarrow> string \<Rightarrow> 'w test \<Rightarrow> 'w test" where
  "test_close B dev what t =
     check (velocitor_close (\<lambda>f. snd (b_close B f (t_world t))) (Some dev) = 0) what
       (t\<lparr>t_world := if fd dev \<ge> 0 then fst (b_close B (fd dev) (t_world t)) else t_world t\<rparr>)"

definition node_free :: "nat \<Rightarrow> 'w test \<Rightarrow> u64" where
  "node_free n t = snd (snd (t_stats t) ! n)"

definition live :: "'w test \<Rightarrow> u32" where
  "live t = fst (t_stats t)"

text \<open>Sections 3 to 6 of the program.\<close>

definition stat_section :: "'w bench \<Rightarrow> velocitor_device \<Rightarrow> 'w test \<Rightarrow> 'w test" where
  "stat_section B dev t =
     (let t = test_stats B dev ''STAT answers'' t;
          t = check (NODE0_ALLOCATABLE = node_free 0 t) ''node 0 offers 112 MiB, aperture deducted (spec 3.2)'' t;
          t = check (NODE1_ALLOCATABLE = node_free 1 t) ''node 1 offers 128 MiB'' t
      in check (live t = 0) ''no live handle yet'' t)"

definition alloc_section :: "'w bench \<Rightarrow> velocitor_device \<Rightarrow> 'w test \<Rightarrow> 'w test \<times> library_handle option" where
  "alloc_section B dev t =
     (case test_alloc B 0 dev BLOCK 0 ''ALLOC of 4096 bytes on node 0'' t of (t, block) \<Rightarrow>
        let t = test_stats B dev ''STAT after the allocation'' t;
            t = check (live t = 1) ''one live handle'' t;
            t = check (NODE0_ALLOCATABLE - BLOCK = node_free 0 t) ''node 0 lost exactly what was asked for'' t
        in (check (NODE1_ALLOCATABLE = node_free 1 t) ''node 1 untouched'' t, block))"

definition free_section :: "'w bench \<Rightarrow> velocitor_device \<Rightarrow> library_handle option \<Rightarrow> 'w test \<Rightarrow> 'w test" where
  "free_section B dev block t =
     (let t = test_free B 0 block ''FREE of that handle'' t;
          t = test_stats B dev ''STAT after the free'' t;
          t = check (live t = 0) ''no live handle again'' t
      in check (NODE0_ALLOCATABLE - BLOCK = node_free 0 t) ''the memory did not come back (bump allocator, spec 14)'' t)"

definition refusal_section :: "'w bench \<Rightarrow> velocitor_device \<Rightarrow> 'w test \<Rightarrow> 'w test" where
  "refusal_section B dev t =
     (let t = fst (test_alloc B (- 22) dev 0 0 ''ALLOC of zero bytes is -EINVAL'' t)
      in fst (test_alloc B (- 22) dev BLOCK 99 ''ALLOC on a node that does not exist is -EINVAL'' t))"

text \<open>
  Section 7. The loop naps and asks for the state until the generation has changed, fifty times at most;
  \<open>spins\<close> counts the rounds done, a state that cannot be read leaves \<open>after\<close> as it was.
\<close>

function await :: "'w bench \<Rightarrow> velocitor_device \<Rightarrow> u32 \<Rightarrow> nat \<Rightarrow> u32 \<times> u32 \<Rightarrow> 'w \<Rightarrow> 'w \<times> (u32 \<times> u32)" where
  "await B dev before spins after w =
     (case velocitor_state_of (b_ioctl B) (Some dev) (b_nap B spins w) of (w, r) \<Rightarrow>
        let after = (case r of Inl err \<Rightarrow> after | Inr st \<Rightarrow> st)
        in if snd after = before \<and> Suc spins < 50 then await B dev before (Suc spins) after w else (w, after))"
  by pat_completeness auto
termination
  by (relation "measure (\<lambda>(B, dev, before, spins, after, w). 50 - spins)") auto

declare await.simps [simp del]

definition recovered_section :: "'w bench \<Rightarrow> velocitor_device \<Rightarrow> library_handle option \<Rightarrow> 'w test \<Rightarrow> 'w test" where
  "recovered_section B dev doomed t =
     (let t = test_stats B dev ''the same fd still serves STAT'' t;
          t = check (live t = 0) ''the new generation starts with no handle'' t;
          t = test_free B (- 116) doomed ''FREE of a handle from the previous generation is -ESTALE'' t
      in case test_alloc B 0 dev BLOCK 0 ''ALLOC works again after the recovery'' t of (t, fresh) \<Rightarrow>
        let t = test_free B 0 fresh ''and so does FREE'' t
        in test_close B dev ''close'' t)"

definition crash_section :: "'w bench \<Rightarrow> velocitor_device \<Rightarrow> 'w test \<Rightarrow> 'w test" where
  "crash_section B dev t =
     (case velocitor_state_of (b_ioctl B) (Some dev) (t_world t) of (w, r) \<Rightarrow>
        let before = (case r of Inl err \<Rightarrow> (0, 0) | Inr st \<Rightarrow> st);
            t = check (case r of Inl err \<Rightarrow> False | Inr st \<Rightarrow> True) ''INFO before the crash'' (t\<lparr>t_world := w\<rparr>);
            t = check (fst before = VEL_DEVICE_INFO_READY) ''state is READY'' t
        in case test_alloc B 0 dev BLOCK 0 ''ALLOC that will not survive the crash'' t of (t, doomed) \<Rightarrow>
          (case b_inject B of
             None \<Rightarrow> check False ''debugfs inject_error is reachable'' t
           | Some inject \<Rightarrow>
               (case await B dev (snd before) 0 (0, 0) (inject 4 (t_world t)) of (w, after) \<Rightarrow>
                  let t = check (snd after > snd before) ''GENERATION moved on, the firmware rebooted (spec 6.5)'' (t\<lparr>t_world := w\<rparr>);
                      t = check (fst after = VEL_DEVICE_INFO_READY) ''state is READY again'' t
                  in recovered_section B dev doomed t)))"

text \<open>The result is the state at the end and the exit code.\<close>

definition ctrl_test :: "'w bench \<Rightarrow> 'w \<Rightarrow> 'w test \<times> int" where
  "ctrl_test B w =
     (let scan = velocitor_scan (b_sysfs B w) (b_dir B w) VEL_MAX_DEVICES;
          found = (case scan of Inl err \<Rightarrow> err | Inr ds \<Rightarrow> int (length ds));
          t = check (found = 1) ''sysfs enumeration finds exactly one device'' \<lparr>t_world = w, t_checks = [], t_stats = (0, [(0, 0), (0, 0)])\<rparr>
      in if found \<noteq> 1 then (t, 2)
         else
           let i = (case scan of Inr (i # _) \<Rightarrow> i);
               t = check (di_devname i = str ''velocitor0'') ''devname is velocitor0'' t;
               t = check (di_nodes i = 2) ''topology says two nodes'' t;
               t = check (di_engines i = 2) ''topology says two engines'' t
           in case test_open B 0 i ''open succeeds'' t of
                (t, None) \<Rightarrow> (t, 2)
              | (t, Some dev) \<Rightarrow>
                  let t = fst (test_open B (- 16) i ''second open is -EBUSY'' t);
                      t = stat_section B dev t
                  in case alloc_section B dev t of (t, block) \<Rightarrow>
                    let t = free_section B dev block t;
                        t = refusal_section B dev t;
                        t = crash_section B dev t
                    in (t, int (failed t)))"


text \<open>\<open>runtime/scan-test.c\<close>: the exit code and what it prints.\<close>

definition scan_line :: "velocitor_device_info \<Rightarrow> bytes" where
  "scan_line d =
     str ''  /dev/'' @ di_devname d @ str '' (minor '' @ fmt_u (di_minor d) @ str ''): version '' @ fmt_u (di_fw_major d) @ str ''.'' @
     fmt_u (di_fw_minor d) @ str '', '' @ fmt_u (di_nodes d) @ str '' node(s), '' @ fmt_u (di_engines d) @ str '' engine(s), '' @
     fmt_u (di_memory d) @ str '' byte(s)'' @ [10]"

definition scan_test :: "'w bench \<Rightarrow> 'w \<Rightarrow> int \<times> bytes" where
  "scan_test B w =
     (case velocitor_scan (b_sysfs B w) (b_dir B w) VEL_MAX_DEVICES of
        Inl err \<Rightarrow> (1, str ''scan failed: '' @ fmt_d err @ [10])
      | Inr ds \<Rightarrow> (0, str ''found '' @ fmt_dec (length ds) @ str '' device(s)'' @ [10] @ concat (map scan_line ds)))"

section \<open>The system\<close>

text \<open>
  What surrounds the driver and the device, none of it in the repository: the bus, what the device does while the
  driver polls, \<open>memset\<close> on the coherent rings, the cached resource table and its length, the loader of the image, the
  object and the number the kernel gives to the INFO request of a new channel, the descriptor \<open>open\<close> returns, and what
  happens to the system during the program's \<open>i\<close>-th nap.
\<close>

record 'h platform =
  pf_bus :: "'h pci_bus"
  pf_env :: "'h velocitor_state \<Rightarrow> 'h velocitor_state"
  pf_memset :: "u64 \<Rightarrow> nat \<Rightarrow> 'h \<Rightarrow> 'h"
  pf_table :: bytes
  pf_len :: u32
  pf_load :: "'h velocitor_state \<Rightarrow> 'h velocitor_state"
  pf_object :: nat
  pf_seq :: int
  pf_fd :: int
  pf_nap :: "nat \<Rightarrow> 'h velocitor_state \<times> cdev_state \<Rightarrow> 'h velocitor_state \<times> cdev_state"

text \<open>
  The control channel of a generation: once the channel is announced, the driver's probe runs, and the device
  answers the INFO request the probe sent. \<open>None\<close> is a failure.
\<close>

definition channel_up ::
  "'h platform \<Rightarrow> 'h velocitor_state \<times> cdev_state \<Rightarrow> ('h velocitor_state \<times> cdev_state) option" where
  "channel_up P w =
     (case w of (s, d) \<Rightarrow>
        Option.bind (velocitor_ctrl_rpmsg_probe True (Some (pf_object P)) (pf_seq P) 0 (cd_ctrl d)) (\<lambda>(c, err).
          if err \<noteq> 0 then None
          else map_option (Pair (fst (device_answer s (last (sent c))))) (served s (d\<lparr>cd_ctrl := c\<rparr>))))"

definition started :: "'h platform \<Rightarrow> velocitor_dev \<Rightarrow> 'h velocitor_state \<Rightarrow> velocitor_dev \<times> 'h velocitor_state \<times> int" where
  "started P d s =
     velocitor_rproc_start (pf_bus P) (pf_env P) (pf_memset P) (Some (pf_table P)) (pf_len P) d (pf_load P s)"

text \<open>
  The documented behaviour relied on. The boot timer expires while the driver polls; the loader puts the segments of
  the generator's image in device memory, zeroes up to their \<open>p_memsz\<close>, and changes nothing of the device but its memory
  and the host's; the table is well formed, of version 1, one the driver accepts, and readable at its address once
  the rings of \<open>d0\<close> are cleared; the numbers the kernel gives are valid.
\<close>

definition platform_ok :: "'h platform \<Rightarrow> velocitor_dev \<Rightarrow> bool" where
  "platform_ok P d0 \<longleftrightarrow> boot_env (pf_env P)
     \<and> (\<forall>s. segment_loaded (fst mkfw) (mem (pf_load P s)) \<and> (\<exists>m h. pf_load P s = s\<lparr>mem := m, host := h\<rparr>))
     \<and> table_ok (pf_table P) \<and> get_le 0 4 (pf_table P) = (1 :: u32)
     \<and> (\<forall>rings. snd (velocitor_rproc_walk_rsc_table (Some (pf_table P)) rings) = 0)
     \<and> (\<forall>s d. (\<forall>q < 4. ring_id (vqs d q) = ring_id (vqs d0 q)) \<longrightarrow>
          published (pf_bus P) (pf_table P) ((snd (velocitor_vring_invalidate (pf_memset P) d (pf_load P s)))
            \<lparr>rsc_addr_lo := lower_32_bits (rsc_dma d0), rsc_addr_hi := upper_32_bits (rsc_dma d0), rsc_len := pf_len P\<rparr>))
     \<and> 0 \<le> pf_seq P \<and> pf_seq P < 2 ^ 31 \<and> 0 \<le> pf_fd P"

text \<open>
  The recovery, in the order in which remoteproc is documented to call the driver once the error interrupt has reported
  a crash: the channel is removed, \<open>stop\<close>, the image is loaded again, \<open>start\<close> with the cached table, and the channel is
  announced anew. It happens during the \<open>k\<close>-th nap, and nothing happens during those before.
\<close>

definition recovers_at :: "'h platform \<Rightarrow> nat \<Rightarrow> bool" where
  "recovers_at P k \<longleftrightarrow> (\<forall>i < k. \<forall>w. pf_nap P i w = w)
     \<and> (\<forall>s d c dev t w. fw_status s = VEL_FW_STATUS_CRASHED \<longrightarrow> velocitor_ctrl_rpmsg_remove (cd_ctrl d) = Some c \<longrightarrow>
          started P (cd_dev d) (velocitor_rproc_stop (pf_bus P) (fst (irq_error_event (pf_bus P) s))) = (dev, t, 0) \<longrightarrow>
          channel_up P (t, d\<lparr>cd_dev := dev, cd_ctrl := c\<rparr>) = Some w \<longrightarrow> pf_nap P k (s, d) = w)"

text \<open>The bench the driver makes.\<close>

definition node_path :: bytes where
  "node_path = str ''/dev/velocitor0''"

definition drv_bench :: "'h platform \<Rightarrow> bytes \<Rightarrow> ('h velocitor_state \<times> cdev_state) bench" where
  "drv_bench P major =
     \<lparr>b_dir = (\<lambda>w. Inr [''.'', ''..'', ''velocitor0'']),
      b_sysfs = (\<lambda>(s, d) entry. card_entry (identity (cd_dev d)) major (str ''velocitor0'') 0),
      b_open = (\<lambda>path (s, d). if path \<noteq> node_path then ((s, d), - ENOENT)
         else case velocitor_cdev_open d of (d, err) \<Rightarrow> ((s, d), if err \<noteq> 0 then err else pf_fd P)),
      b_close = (\<lambda>f (s, d). case velocitor_cdev_release d of (d, err) \<Rightarrow> ((s, d), err)),
      b_ioctl = driver_ioctl,
      b_inject = Some (\<lambda>v (s, d). (fst (velocitor_debugfs_inject_error (pf_bus P) v s), d)),
      b_nap = pf_nap P\<rparr>"

section \<open>Serving\<close>

text \<open>
  The driver and the device as the program meets them between two calls: \<open>x\<close> bytes free on node 0 and all of node 1,
  \<open>n\<close> live handles, the next one \<open>h\<close>, generation \<open>g\<close>.
\<close>

definition serving :: "u32 \<Rightarrow> u64 \<Rightarrow> u32 \<Rightarrow> u32 \<Rightarrow> 'h velocitor_state \<times> cdev_state \<Rightarrow> bool" where
  "serving g x n h w \<longleftrightarrow> (case w of (s, d) \<Rightarrow> at_rest (s, d) \<and> fw_status s = VEL_FW_STATUS_RUNNING \<and> generation s = g
     \<and> rproc_generation (cd_dev d) = g \<and> velocitor_node_free s 0 = x \<and> velocitor_node_free s 1 = NODE1_ALLOCATABLE
     \<and> live_handles s = n \<and> next_handle s = h \<and> err_inject s AND VEL_ERR_INJECT_ALLOC_FAIL = 0)"

text \<open>What no call through the character device changes: the rings, the resource table, the open flag.\<close>

definition card_part :: "'h velocitor_state \<times> cdev_state \<Rightarrow> (nat \<times> nat \<times> u64) list \<times> u64 \<times> bool" where
  "card_part w = (case w of (s, d) \<Rightarrow> (map (\<lambda>q. ring_id (vqs (cd_dev d) q)) [0..<4], rsc_dma (cd_dev d), usageFlags d))"

lemma serving_rest: "serving g x n h (s, d) \<Longrightarrow> at_rest (s, d) \<and> mirrors (handles (cd_dev d)) s \<and> heap_ok s"
  by (simp add: serving_def at_rest_def mirrors_def)

lemma stats_answered:
  assumes "serving g x n h w" and "fd dev \<noteq> - 1"
  shows "\<exists>w' c0 c1. velocitor_stats driver_ioctl (Some dev) w = (w', Inr (n, [(c0, x), (c1, NODE1_ALLOCATABLE)]))
     \<and> serving g x n h w' \<and> card_part w' = card_part w \<and> device_live w' = device_live w"
proof -
  obtain s d where w: "w = (s, d)" by fastforce
  have sv: "serving g x n h (s, d)" using assms(1) w by simp
  note rest = serving_rest [OF sv]
  obtain d' where run: "velocitor_cdev_ioctl_stats (calm s (replicate 40 0)) 40 d = Some (d', 0, Some (put_le 4 (live_handles s) @ put_le 4 (0 :: u32) @
       put_le 8 (velocitor_node_end 0 - velocitor_node_base 0) @ put_le 8 (velocitor_node_free s 0) @
       put_le 8 (velocitor_node_end 1 - velocitor_node_base 1) @ put_le 8 (velocitor_node_free s 1)))"
    and dev: "cd_dev d' = cd_dev d" and ch: "channel_served s s d d'"
    using stats_served [OF rest_undisturbed, of s d] rest by blast
  have after: "at_rest (s, d')" "sent (cd_ctrl d') \<noteq> sent (cd_ctrl d)" "fst (device_answer s (last (sent (cd_ctrl d')))) = s"
    using channel_served_rest [OF _ ch] rest dev by simp_all
  have io: "driver_ioctl (s, d) (fd dev) VEL_IOC_STATS (replicate 40 0) = ((s, d'), 0,
      put_le 4 (live_handles s) @ put_le 4 (0 :: u32) @
       put_le 8 (velocitor_node_end 0 - velocitor_node_base 0) @ put_le 8 (velocitor_node_free s 0) @
       put_le 8 (velocitor_node_end 1 - velocitor_node_base 1) @ put_le 8 (velocitor_node_free s 1))"
    using run after(3) by (simp add: driver_ioctl_def velocitor_cdev_ioctl_def ioc_fields del: VEL_IOC_STATS_def)
  have "serving g x n h (s, d')" using sv after(1) dev by (simp add: serving_def)
  moreover have "card_part (s, d') = card_part (s, d)" using ch dev by (simp add: card_part_def channel_served_def)
  moreover have "velocitor_stats driver_ioctl (Some dev) w = ((s, d'), Inr (n, [(velocitor_node_end 0 - velocitor_node_base 0, x),
      (velocitor_node_end 1 - velocitor_node_base 1, NODE1_ALLOCATABLE)]))"
    using sv assms(2) io
    by (simp add: velocitor_stats_def w upt_rec get_le_skip serving_def del: VEL_IOC_STATS_def)
  ultimately show ?thesis using w by (auto simp: device_live_def)
qed


lemma alloc_runs:
  assumes "serving g x n h (s, d)" and "fd dev \<noteq> - 1"
    and "velocitor_alloc_block s \<lparr>areq_size = sz, areq_dtype = 0, areq_node = node\<rparr> = (s', res)"
  shows "\<exists>d'. velocitor_alloc_handle driver_ioctl True (Some dev) sz node 0 (s, d) = ((s', d'),
       case res of Inl e \<Rightarrow> Inl e
       | Inr r \<Rightarrow> Inr \<lparr>lh_alloc = put_le 8 sz @ put_le 4 node @ put_le 4 (0 :: u32) @ put_le 4 (aresp_handle r) @ put_le 4 (aresp_node r)
           @ put_le 4 (aresp_generation r) @ replicate 4 0, lh_device = dev\<rparr>)
     \<and> at_rest (s', d') \<and> rproc_generation (cd_dev d') = rproc_generation (cd_dev d) \<and> card_part (s', d') = card_part (s, d)"
proof -
  define arg where "arg = put_le 8 sz @ put_le 4 node @ put_le 4 (0 :: u32) @ replicate 16 0"
  note rest = serving_rest [OF assms(1)]
  have req: "\<lparr>areq_size = sz, areq_dtype = 0, areq_node = node\<rparr> =
      \<lparr>areq_size = get_le 0 8 arg, areq_dtype = get_le 12 4 arg, areq_node = get_le 8 4 arg\<rparr>"
    by (simp add: arg_def get_le_skip)
  have u: "undisturbed (calm s arg) s d" using rest by (simp add: rest_undisturbed)
  have mir: "mirrors (handles (cd_dev d)) s" using rest by blast
  from alloc_served [OF u calm_copy mir req assms(3), of 32] obtain d' e out where
    run: "velocitor_cdev_ioctl_alloc (calm s arg) 32 d = Some (d', e, out)"
    and m: "mirrors (handles (cd_dev d')) s'" and ch: "channel_served s s' d d'"
    and res: "case res of Inl e' \<Rightarrow> e = e' \<and> out = None
      | Inr r \<Rightarrow> e = 0 \<and> out = Some (take 16 arg @ put_le 4 (aresp_handle r) @ put_le 4 (aresp_node r)
          @ put_le 4 (aresp_generation r) @ drop 28 arg)"
    by (cases res) (simp, blast)+
  have after: "at_rest (s', d')" "sent (cd_ctrl d') \<noteq> sent (cd_ctrl d)" "fst (device_answer s (last (sent (cd_ctrl d')))) = s'"
    using channel_served_rest [OF _ ch m] rest by simp_all
  have io: "driver_ioctl (s, d) (fd dev) VEL_IOC_ALLOC_DEV arg = ((s', d'), e, case out of None \<Rightarrow> arg | Some bs \<Rightarrow> bs)"
    using run after(2,3) by (simp add: driver_ioctl_def velocitor_cdev_ioctl_def ioc_fields del: VEL_IOC_ALLOC_DEV_def)
  have neg: "e < 0" if "res = Inl e'" for e'
    using alloc_block_err [of s] assms(3) that res by fastforce
  have "velocitor_alloc_handle driver_ioctl True (Some dev) sz node 0 (s, d) = ((s', d'),
       case res of Inl e \<Rightarrow> Inl e
       | Inr r \<Rightarrow> Inr \<lparr>lh_alloc = put_le 8 sz @ put_le 4 node @ put_le 4 (0 :: u32) @ put_le 4 (aresp_handle r) @ put_le 4 (aresp_node r)
           @ put_le 4 (aresp_generation r) @ replicate 4 0, lh_device = dev\<rparr>)"
    using io res neg assms(2)
    by (cases res) (auto simp: velocitor_alloc_handle_def arg_def [symmetric] simp del: VEL_IOC_ALLOC_DEV_def, simp add: arg_def)
  moreover have dev: "cd_dev d' = (cd_dev d)\<lparr>handles := handles (cd_dev d')\<rparr>" "usageFlags d' = usageFlags d"
    using ch by (simp_all add: channel_served_def)
  have "rproc_generation (cd_dev d') = rproc_generation (cd_dev d)" "vqs (cd_dev d') = vqs (cd_dev d)" "rsc_dma (cd_dev d') = rsc_dma (cd_dev d)"
    by (subst dev(1), simp)+
  ultimately show ?thesis using after(1) dev(2) by (simp add: card_part_def)
qed

lemma alloc_granted:
  assumes "serving g x n h w" and "fd dev \<noteq> - 1" and "4096 \<le> x" and "h \<le> VEL_MAX_HANDLES"
  shows "\<exists>w' b. velocitor_alloc_handle driver_ioctl True (Some dev) BLOCK 0 0 w = (w', Inr b) \<and> serving g (x - 4096) (n + 1) (h + 1) w'
     \<and> card_part w' = card_part w \<and> handle_key b = (h, g) \<and> length (lh_alloc b) = 32 \<and> (h, g) \<in> device_live w'"
proof -
  obtain s d where w: "w = (s, d)" by fastforce
  have sv: "serving g x n h (s, d)" using assms(1) w by simp
  note rest = serving_rest [OF sv]
  have s: "next_handle s = h" "generation s = g" "velocitor_node_free s 0 = x" "err_inject s AND VEL_ERR_INJECT_ALLOC_FAIL = 0"
    using sv by (simp_all add: serving_def)
  have h: "h \<noteq> 0" using rest s(1) by (auto simp: heap_ok_def Let_def)
  define r where "r = \<lparr>aresp_handle = h, aresp_node = 0, aresp_generation = g, aresp_reserved = 0, aresp_dev_offset = node_bump s 0\<rparr>"
  have "velocitor_alloc_block s \<lparr>areq_size = BLOCK, areq_dtype = 0, areq_node = 0\<rparr> = (heap_push s 0 4096, Inr r)"
    using s assms(3,4) h
    by (simp add: velocitor_alloc_block_def Let_def velocitor_alloc_pick_node_def ROUND_UP_256 heap_push_def r_def unat_minus_one)
  from alloc_runs [OF sv assms(2) this] obtain d' where
    run: "velocitor_alloc_handle driver_ioctl True (Some dev) BLOCK 0 0 (s, d) = ((heap_push s 0 4096, d'),
       Inr \<lparr>lh_alloc = put_le 8 BLOCK @ put_le 4 (0 :: u32) @ put_le 4 (0 :: u32) @ put_le 4 h @ put_le 4 (0 :: u32)
           @ put_le 4 g @ replicate 4 0, lh_device = dev\<rparr>)"
    and d': "at_rest (heap_push s 0 4096, d')" "rproc_generation (cd_dev d') = rproc_generation (cd_dev d)"
      "card_part (heap_push s 0 4096, d') = card_part (s, d)"
    by (auto simp: r_def)
  have "heap_lookup (heap_push s 0 4096) h \<noteq> None"
    using heap_push_lookup(2) [of s 0 4096] rest s(1) assms(4) by auto
  then have live: "(h, g) \<in> device_live (heap_push s 0 4096, d')" by (simp add: device_live_def heap_push_def s)
  have "serving g (x - 4096) (n + 1) (h + 1) (heap_push s 0 4096, d')"
    using sv d' by (simp add: serving_def heap_push_def velocitor_node_free_def)
  then show ?thesis
    using run d'(3) live w
    by (intro exI conjI) (assumption | simp add: handle_key_def alloc_key_def get_le_skip)+
qed

lemma alloc_refused:
  assumes "serving g x n h w" and "fd dev \<noteq> - 1" and "sz = 0 \<or> node \<noteq> VEL_NODE_ANY \<and> node \<ge> VEL_NODES"
  shows "\<exists>w'. velocitor_alloc_handle driver_ioctl True (Some dev) sz node 0 w = (w', Inl (- 22)) \<and> serving g x n h w'
     \<and> card_part w' = card_part w \<and> device_live w' = device_live w"
proof -
  obtain s d where w: "w = (s, d)" by fastforce
  have sv: "serving g x n h (s, d)" using assms(1) w by simp
  have "velocitor_alloc_block s \<lparr>areq_size = sz, areq_dtype = 0, areq_node = node\<rparr> = (s, Inl (- 22))"
    using assms(3) by (auto simp: velocitor_alloc_block_def Let_def)
  from alloc_runs [OF sv assms(2) this] obtain d' where
    "velocitor_alloc_handle driver_ioctl True (Some dev) sz node 0 (s, d) = ((s, d'), Inl (- 22))"
    "at_rest (s, d')" "rproc_generation (cd_dev d') = rproc_generation (cd_dev d)" "card_part (s, d') = card_part (s, d)"
    by auto
  with sv show ?thesis by (intro exI [of _ "(s, d')"]) (simp add: w serving_def device_live_def)
qed

lemma free_granted:
  assumes "serving g x n h w" and "length (lh_alloc b) = 32" and "handle_key b = (k, g)" and "(k, g) \<in> device_live w"
  shows "\<exists>w'. velocitor_free_handle driver_ioctl (Some b) w = (w', 0) \<and> serving g x (n - 1) h w' \<and> card_part w' = card_part w"
proof -
  obtain s d where w: "w = (s, d)" by fastforce
  have sv: "serving g x n h (s, d)" using assms(1) w by simp
  note rest = serving_rest [OF sv]
  define arg where "arg = take 12 (drop 16 (lh_alloc b))"
  have key: "get_le 0 4 arg = k" "get_le 8 4 arg = g"
    using free_key_of_alloc [OF assms(2)] assms(3) by (simp_all add: handle_key_def free_key_def arg_def)
  have g: "g = generation s" using sv by (simp add: serving_def)
  have there: "heap_lookup s k \<noteq> None" using assms(4) w by (simp add: device_live_def)
  define s' where "s' = s\<lparr>alloc := (alloc s)(unat (k - 1) := (alloc s (unat (k - 1)))\<lparr>a_live := 0\<rparr>), live_handles := live_handles s - 1\<rparr>"
  have fr: "velocitor_free_block s k = (s', 0)"
    using there by (auto simp: velocitor_free_block_def heap_lookup_def s'_def split: if_splits)
  have u: "undisturbed (calm s arg) s d" using rest by (simp add: rest_undisturbed)
  have mir: "mirrors (handles (cd_dev d)) s" using rest by blast
  obtain d' where d': "velocitor_cdev_ioctl_free (calm s arg) 12 d = Some (d', 0, None)"
    "mirrors (handles (cd_dev d')) s'" "channel_served s s' d d'"
    using free_served [OF u calm_copy mir key(1) [symmetric] key(2) [symmetric] fr, of 12] g there by blast
  have after: "at_rest (s', d')" "sent (cd_ctrl d') \<noteq> sent (cd_ctrl d)" "fst (device_answer s (last (sent (cd_ctrl d')))) = s'"
    using channel_served_rest [OF _ d'(3,2)] rest by simp_all
  have io: "driver_ioctl (s, d) (fd (lh_device b)) VEL_IOC_FREE_DEV arg = ((s', d'), 0, arg)"
    using d'(1) after(2,3) by (simp add: driver_ioctl_def velocitor_cdev_ioctl_def ioc_fields del: VEL_IOC_FREE_DEV_def)
  have dev: "cd_dev d' = (cd_dev d)\<lparr>handles := handles (cd_dev d')\<rparr>" "usageFlags d' = usageFlags d"
    using d'(3) by (simp_all add: channel_served_def)
  have same: "rproc_generation (cd_dev d') = rproc_generation (cd_dev d)" "vqs (cd_dev d') = vqs (cd_dev d)" "rsc_dma (cd_dev d') = rsc_dma (cd_dev d)"
    by (subst dev(1), simp)+
  have "serving g x (n - 1) h (s', d')"
    using sv after(1) same by (simp add: serving_def s'_def velocitor_node_free_def)
  moreover have "card_part (s', d') = card_part (s, d)" using same dev by (simp add: card_part_def)
  moreover have "velocitor_free_handle driver_ioctl (Some b) (s, d) = ((s', d'), 0)"
    using io by (simp add: velocitor_free_handle_def arg_def)
  ultimately show ?thesis using w by blast
qed

lemma free_stale:
  assumes "serving g x n h w" and "length (lh_alloc b) = 32" and "handle_key b = (k, old)" and "old \<noteq> g"
  shows "velocitor_free_handle driver_ioctl (Some b) w = (w, - 116)"
proof -
  obtain s d where w: "w = (s, d)" by fastforce
  have sv: "serving g x n h (s, d)" using assms(1) w by simp
  note rest = serving_rest [OF sv]
  define arg where "arg = take 12 (drop 16 (lh_alloc b))"
  have key: "get_le 0 4 arg = k" "get_le 8 4 arg = old"
    using free_key_of_alloc [OF assms(2)] assms(3) by (simp_all add: handle_key_def free_key_def arg_def)
  have u: "undisturbed (calm s arg) s d" using rest by (simp add: rest_undisturbed)
  have mir: "mirrors (handles (cd_dev d)) s" using rest by blast
  have "velocitor_cdev_ioctl_free (calm s arg) 12 d = Some (d, - ESTALE, None)"
    using free_served [OF u calm_copy mir key(1) [symmetric] key(2) [symmetric] prod.collapse [symmetric], of 12] assms(4) sv
    by (simp add: serving_def)
  then have "driver_ioctl (s, d) (fd (lh_device b)) VEL_IOC_FREE_DEV arg = ((s, d), - 116, arg)"
    by (simp add: driver_ioctl_def velocitor_cdev_ioctl_def ioc_fields del: VEL_IOC_FREE_DEV_def)
  then show ?thesis by (simp add: velocitor_free_handle_def arg_def w)
qed

lemma state_answered:
  assumes "fd dev \<noteq> - 1" and "fw_status s = VEL_FW_STATUS_RUNNING \<and> st = VEL_DEVICE_INFO_READY
      \<or> fw_status s = VEL_FW_STATUS_CRASHED \<and> st = VEL_DEVICE_INFO_CRASHED"
  shows "velocitor_state_of driver_ioctl (Some dev) (s, d) = ((s, d), Inr (st, rproc_generation (cd_dev d)))"
proof -
  have copy: "velocitor_safe_copy_to_user (calm s u) n bs = 0" for u n bs by (simp add: velocitor_safe_copy_to_user_def calm_def)
  have "velocitor_cdev_ioctl_info (calm s u) n s d = (s, 0, Some (put_le 4 st @ put_le 4 (rproc_generation (cd_dev d))))" for u n
    using assms(2) by (auto simp: velocitor_cdev_ioctl_info_def readl_regs copy Let_def simp del: VEL_REG_FW_STATUS_def)
  then show ?thesis
    using assms(1) by (simp add: velocitor_state_of_def driver_ioctl_def velocitor_cdev_ioctl_def ioc_fields get_le_skip del: VEL_IOC_INFO_def)
qed


section \<open>Crash and recovery\<close>

lemma channel_up_info:
  assumes "objs (cd_ctrl d) = (\<lambda>_. None)" and "inflight (cd_ctrl d) = []" and "0 \<le> pf_seq P" and "pf_seq P < 2 ^ 31"
  shows "\<exists>d'. channel_up P (s, d) = Some (s, d') \<and> cd_dev d' = cd_dev d \<and> usageFlags d' = usageFlags d
     \<and> objs (cd_ctrl d') = (\<lambda>_. None) \<and> inflight (cd_ctrl d') = [] \<and> rpdev (cd_ctrl d') \<and> drvdata (cd_ctrl d')
     \<and> info_valid (cd_ctrl d') \<and> info (cd_ctrl d') = put_info (info_fill s)"
proof -
  define a where "a = pf_object P"
  define q where "q = nat (pf_seq P)"
  have q: "pf_seq P = int q" "q < 2 ^ 31" using assms(3,4) by (simp_all add: q_def)
  have uq: "unat (word_of_nat q :: u32) = q" using q(2) by (simp add: unat_of_nat)
  define c where "c = (cd_ctrl d)\<lparr>rpdev := True, drvdata := True\<rparr>"
  define m where "m = \<lparr>cm_seq = word_of_nat q, cm_op = VEL_OP_INFO, cm_flags = 0, cm_status = 0, cm_reserved = 0\<rparr>"
  define t where "t = \<lparr>t_status = 0, t_msg = m, t_payload = replicate 16 0, t_answer = replicate 40 0, t_seq = q, t_sync = False,
    t_notified = 0, t_refs = 1\<rparr>"
  define e where "e = c\<lparr>objs := (\<lambda>_. None)(a := Some t), inflight := [(q, a)], sent := sent c @ [put_ctrl m]\<rparr>"
  have probe: "velocitor_ctrl_rpmsg_probe True (Some a) (pf_seq P) 0 (cd_ctrl d) = Some (e, 0)"
    using assms(1,2)
    by (simp add: velocitor_ctrl_rpmsg_probe_def velocitor_ctrl_transaction_alloc_def velocitor_ctrl_transaction_send_def q(1)
        send_get_def send_post_def obj_upd_def velocitor_ctrl_transaction_release_def request_payload_len_def Let_def e_def c_def t_def m_def)
  have ans: "device_answer s (put_ctrl m) = (s, put_ctrl m @ put_info (info_fill s))"
    by (simp add: device_answer_def get_put_ctrl [of m "[]", simplified] ctrl_op_def Let_def) (simp add: m_def)
  have len: "length (put_info (info_fill s)) = 28" "length (put_ctrl m) = 16" by simp_all
  define e' where "e' = e\<lparr>objs := (\<lambda>_. None), inflight := [], info := put_info (info_fill s), info_valid := True\<rparr>"
  have "velocitor_ctrl_rpmsg_callback (put_ctrl m @ put_info (info_fill s)) e = Some e'"
    by (simp add: velocitor_ctrl_rpmsg_callback_def callback_claim_def get_put_ctrl answer_transaction_def finish_def obj_upd_def
        velocitor_ctrl_transaction_notify_def velocitor_ctrl_oninfo_def velocitor_ctrl_transaction_release_def uq
        velocitor_ctrl_transaction_free_def idr_find_def idr_remove_def answer_len_def e_def e'_def t_def m_def c_def Let_def len)
  then have "channel_up P (s, d) = Some (s, d\<lparr>cd_ctrl := e'\<rparr>)"
    by (simp add: channel_up_def a_def [symmetric] probe served_def ans) (simp add: e_def ans)
  then show ?thesis by (intro exI [of _ "d\<lparr>cd_ctrl := e'\<rparr>"]) (simp add: e'_def e_def c_def)
qed

lemma stop_halts:
  assumes "s' = velocitor_rproc_stop B (fst (irq_error_event B s))"
  shows "stopped s'" "generation s' = generation s" "err_inject s' = err_inject s"
proof -
  define u where "u = fst (irq_error_event B s)"
  have u: "generation u = generation s" "err_inject u = err_inject s"
    by (simp_all add: u_def irq_error_event_def velocitor_error_read_def readl_regs writel_regs Let_def case_prod_beta
        del: VEL_REG_IRQ_ACK_def VEL_REG_ERR_CODE_def VEL_REG_ERR_INFO_LO_def VEL_REG_ERR_INFO_HI_def VEL_REG_ERR_NOTIFYID_def
        VEL_REG_ERR_HANDLE_def VEL_REG_ERR_GENERATION_def VEL_REG_ERR_DROPPED_def)
  have "trace_da s' = 0" "generation s' = generation u"
    unfolding assms u_def [symmetric]
    by (simp_all add: velocitor_rproc_stop_def writel_regs velocitor_reset_write_def velocitor_rsc_publish_def Let_def
      velocitor_vq_purge_def del: VEL_REG_RESET_def VEL_REG_RSC_VALID_def)
  with u stop_state(1) [of B u] show "stopped s'" "generation s' = generation s" by (simp_all add: stopped_def assms u_def)
  show "err_inject s' = err_inject s"
    unfolding assms u_def [symmetric] u(2) [symmetric]
    by (simp add: velocitor_rproc_stop_def writel_regs del: VEL_REG_RESET_def VEL_REG_RSC_VALID_def)
qed


lemma loads:
  assumes "platform_ok P d0"
  shows "segment_loaded (fst mkfw) (mem (pf_load P s))" "stopped (pf_load P s) = stopped s"
    "generation (pf_load P s) = generation s" "err_inject (pf_load P s) = err_inject s"
proof -
  obtain m h where "pf_load P s = s\<lparr>mem := m, host := h\<rparr>" using assms unfolding platform_ok_def by blast
  then show "stopped (pf_load P s) = stopped s" "generation (pf_load P s) = generation s" "err_inject (pf_load P s) = err_inject s"
    by (simp_all add: stopped_def)
  show "segment_loaded (fst mkfw) (mem (pf_load P s))" using assms unfolding platform_ok_def by blast
qed

text \<open>The rings and the table as the driver \<open>d0\<close> has them.\<close>

definition ours :: "velocitor_dev \<Rightarrow> 'h velocitor_state \<times> cdev_state \<Rightarrow> bool" where
  "ours d0 w \<longleftrightarrow> fst (card_part w) = map (\<lambda>q. ring_id (vqs d0 q)) [0..<4] \<and> fst (snd (card_part w)) = rsc_dma d0"

lemma ours_rings: "ours d0 (s, d) \<longleftrightarrow> (\<forall>q < 4. ring_id (vqs (cd_dev d) q) = ring_id (vqs d0 q)) \<and> rsc_dma (cd_dev d) = rsc_dma d0"
  by (auto simp: ours_def card_part_def upt_rec less_Suc_eq numeral_eq_Suc)

definition rings_ready :: "velocitor_dev \<Rightarrow> bool" where
  "rings_ready d \<longleftrightarrow> (\<forall>q < 4. ring_ready (vqs d q) \<and> vr_index (vqs d q) = q)"

lemma regenerated: "table_good t \<Longrightarrow> h_generation t \<noteq> g \<Longrightarrow>
    velocitor_handles_regenerate g t = \<lparr>h_entries = [], h_generation = g, h_objects = 0\<rparr>"
  by (simp add: velocitor_handles_regenerate_def erase_each_all)

lemma start_identity: "velocitor_rproc_start B env memset0 tbl n d s = (dev, t, err) \<Longrightarrow> identity dev = identity d"
  by (auto simp: velocitor_rproc_start_def invalidate_effect Let_def split: prod.splits bool.splits if_splits)

text \<open>Starting the generator's firmware on the driver's rings.\<close>

lemma bench_start:
  assumes "platform_ok P d0" and "rings_ready d0" and "stopped s"
    and "\<forall>q < 4. ring_id (vqs d q) = ring_id (vqs d0 q)" and "rsc_dma d = rsc_dma d0"
  shows "\<exists>dev t. started P d s = (dev, t, 0)
     \<and> fw_status t = VEL_FW_STATUS_RUNNING \<and> generation t = generation s + 1 \<and> rproc_generation dev = generation t
     \<and> heap_of t = heap_of (velocitor_alloc_reset (pf_load P s)) \<and> handles dev = velocitor_handles_regenerate (generation t) (handles d)
     \<and> (\<forall>q < 4. ring_id (vqs dev q) = ring_id (vqs d q)) \<and> rsc_dma dev = rsc_dma d \<and> err_inject t = err_inject s
     \<and> identity dev = identity d"
proof -
  note load = loads [OF assms(1), of s]
  have ready: "\<forall>q < 4. ring_ready (vqs d q) \<and> vr_index (vqs d q) = q"
    using assms(2,4) ring_ready_id unfolding rings_ready_def ring_id_def by (metis prod.inject)
  obtain d1 s1 where inv: "velocitor_vring_invalidate (pf_memset P) d (pf_load P s) = (d1, s1)" by fastforce
  have tbl: "boot_env (pf_env P)" "table_ok (pf_table P)" "get_le 0 4 (pf_table P) = (1 :: u32)"
    "snd (velocitor_rproc_walk_rsc_table (Some (pf_table P)) (vqs d1)) = 0"
    and pub: "published (pf_bus P) (pf_table P) (s1\<lparr>rsc_addr_lo := lower_32_bits (rsc_dma d), rsc_addr_hi := upper_32_bits (rsc_dma d),
      rsc_len := pf_len P\<rparr>)"
    using assms(1,4,5) inv unfolding platform_ok_def by (blast, blast, blast, blast, metis snd_conv)
  obtain rs where walk: "velocitor_rproc_walk_rsc_table (Some (pf_table P)) (vqs d1) = (rs, 0)"
    using tbl(4) by (metis prod.collapse)
  have "stopped (pf_load P s)" using load(2) assms(3) by simp
  from start_brings_up [OF tbl(1) load(1) this ready inv walk tbl(2,3) pub] show ?thesis
    unfolding started_def load(3,4) using start_identity by metis
qed

text \<open>A fresh generation serves once its channel is up.\<close>

lemma fresh_generation:
  assumes "fw_status t = VEL_FW_STATUS_RUNNING" and "rproc_generation (cd_dev e) = generation t"
    and "heap_of t = heap_of (velocitor_alloc_reset s)" and "handles (cd_dev e) = \<lparr>h_entries = [], h_generation = generation t, h_objects = 0\<rparr>"
    and "err_inject t AND VEL_ERR_INJECT_ALLOC_FAIL = 0" and "objs (cd_ctrl e) = (\<lambda>_. None)" and "inflight (cd_ctrl e) = []"
    and "0 \<le> pf_seq P" and "pf_seq P < 2 ^ 31"
  shows "\<exists>d. channel_up P (t, e) = Some (t, d) \<and> serving (generation t) NODE0_ALLOCATABLE 0 1 (t, d) \<and> cd_dev d = cd_dev e
     \<and> usageFlags d = usageFlags e"
proof -
  obtain d where d: "channel_up P (t, e) = Some (t, d)" "cd_dev d = cd_dev e" "usageFlags d = usageFlags e"
    "objs (cd_ctrl d) = (\<lambda>_. None)" "inflight (cd_ctrl d) = []" "rpdev (cd_ctrl d)" "drvdata (cd_ctrl d)"
    using channel_up_info [OF assms(6-9)] by blast
  have heap: "heap_of t = heap_of (velocitor_alloc_reset (s\<lparr>generation := generation t\<rparr>))"
    using assms(3) by (simp add: heap_of_def velocitor_alloc_reset_def)
  have "mirrors (handles (cd_dev e)) t"
    using mirrors_same [OF mirrors_reset heap] by (simp add: assms(4) velocitor_alloc_reset_def)
  then have "serving (generation t) NODE0_ALLOCATABLE 0 1 (t, d)"
    using assms(1,2,5) heap d
    by (simp add: serving_def at_rest_def heap_of_def velocitor_alloc_reset_def velocitor_node_free_def velocitor_node_end_def
        velocitor_node_base_def)
  with d show ?thesis by blast
qed

lemma nap_recovers:
  assumes ok: "platform_ok P d0" "rings_ready d0" "recovers_at P k" and crash: "fw_status s = VEL_FW_STATUS_CRASHED"
    and rest: "at_rest (s, d)" and gen: "generation s = g" and calm: "err_inject s AND VEL_ERR_INJECT_ALLOC_FAIL = 0" and ours: "ours d0 (s, d)"
  shows "\<exists>w. pf_nap P k (s, d) = w \<and> serving (g + 1) NODE0_ALLOCATABLE 0 1 w \<and> card_part w = card_part (s, d)"
proof -
  have seq: "0 \<le> pf_seq P" "pf_seq P < 2 ^ 31" using ok(1) by (simp_all add: platform_ok_def)
  have idle: "objs (cd_ctrl d) = (\<lambda>_. None)" "inflight (cd_ctrl d) = []" using rest by (simp_all add: at_rest_def)
  have tbl: "table_good (handles (cd_dev d))" "h_generation (handles (cd_dev d)) = g" using rest gen by (simp_all add: at_rest_def mirrors_def)
  define c where "c = (cd_ctrl d)\<lparr>rpdev := False, drvdata := False\<rparr>"
  have gone: "velocitor_ctrl_rpmsg_remove (cd_ctrl d) = Some c" using idle by (simp add: velocitor_ctrl_rpmsg_remove_def Let_def c_def)
  define s1 where "s1 = velocitor_rproc_stop (pf_bus P) (fst (irq_error_event (pf_bus P) s))"
  note halted = stop_halts [OF s1_def]
  have rings: "\<forall>q < 4. ring_id (vqs (cd_dev d) q) = ring_id (vqs d0 q)" "rsc_dma (cd_dev d) = rsc_dma d0"
    using ours by (simp_all add: ours_rings)
  obtain dev t where start: "started P (cd_dev d) s1 = (dev, t, 0)"
    and t: "fw_status t = VEL_FW_STATUS_RUNNING" "generation t = generation s1 + 1" "rproc_generation dev = generation t"
      "heap_of t = heap_of (velocitor_alloc_reset (pf_load P s1))" "handles dev = velocitor_handles_regenerate (generation t) (handles (cd_dev d))"
      "\<forall>q < 4. ring_id (vqs dev q) = ring_id (vqs (cd_dev d) q)" "rsc_dma dev = rsc_dma (cd_dev d)" "err_inject t = err_inject s1"
    using bench_start [OF ok(1,2) halted(1) rings] by blast
  define e where "e = d\<lparr>cd_dev := dev, cd_ctrl := c\<rparr>"
  have table: "handles dev = \<lparr>h_entries = [], h_generation = generation t, h_objects = 0\<rparr>"
    unfolding t(5) by (rule regenerated [OF tbl(1)]) (simp add: t(2) halted(2) gen tbl(2))
  have "\<exists>d'. channel_up P (t, e) = Some (t, d') \<and> serving (generation t) NODE0_ALLOCATABLE 0 1 (t, d') \<and> cd_dev d' = cd_dev e
     \<and> usageFlags d' = usageFlags e"
    by (rule fresh_generation [OF t(1) _ t(4)]) (use t halted(3) calm idle table seq in \<open>simp_all add: e_def c_def\<close>)
  then obtain d' where d': "channel_up P (t, e) = Some (t, d')" "serving (generation t) NODE0_ALLOCATABLE 0 1 (t, d')" "cd_dev d' = cd_dev e"
     "usageFlags d' = usageFlags e" by blast
  have "pf_nap P k (s, d) = (t, d')"
    using ok(3) crash gone start [unfolded s1_def] d'(1) [unfolded e_def] unfolding recovers_at_def by blast
  moreover have "card_part (t, d') = card_part (s, d)" using t(6,7) d'(3,4) by (simp add: card_part_def e_def)
  ultimately show ?thesis using d'(2) t(2) halted(2) gen by auto
qed

lemma crash_noticed:
  assumes "serving g x n h (s, d)" and "t = fst (velocitor_debugfs_inject_error B 4 s)"
  shows "at_rest (t, d) \<and> generation t = g \<and> err_inject t AND VEL_ERR_INJECT_ALLOC_FAIL = 0 \<and> fw_status t = VEL_FW_STATUS_CRASHED
     \<and> rproc_generation (cd_dev d) = g \<and> card_part (t, d) = card_part (s, d)"
proof -
  have bits: "(4 :: u32) AND VEL_ERR_INJECT_FW_CRASH \<noteq> 0" "(4 :: u32) AND VEL_ERR_INJECT_ALLOC_FAIL = 0" by simp_all
  have t: "t = err_inject_write s 4" using assms(2) by (simp add: velocitor_debugfs_inject_error_def writel_regs del: VEL_REG_ERR_INJECT_def)
  have "generation t = generation s" "err_inject t = 4"
    by (simp_all add: t err_inject_write_def Let_def velocitor_vq_purge_def)
  moreover have "heap_of t = heap_of s" by (simp add: t frames)
  ultimately show ?thesis
    using assms(1) crash_purges_unqualified [OF bits(1) t] bits(2) mirrors_same [of "handles (cd_dev d)" s t]
    by (simp add: serving_def at_rest_def card_part_def)
qed


section \<open>The sections pass\<close>

definition passing :: "'w test \<Rightarrow> bool" where
  "passing t \<longleftrightarrow> list_all fst (t_checks t)"

lemma check_simps [simp]:
  "t_world (check ok what t) = t_world t" "live (check ok what t) = live t" "node_free i (check ok what t) = node_free i t"
  "passing (check ok what t) \<longleftrightarrow> passing t \<and> ok" "passing (t_world_update f t) = passing t" "passing (t_stats_update f' t) = passing t"
  "length (t_checks (check ok what t)) = Suc (length (t_checks t))"
  by (auto simp: check_def passing_def live_def node_free_def)

lemma passing_failed: "passing t \<Longrightarrow> failed t = 0"
  by (auto simp: passing_def failed_def list_all_iff filter_empty_conv)

lemma bench_simps [simp]:
  "b_ioctl (drv_bench P major) = driver_ioctl"
  "b_inject (drv_bench P major) = Some (\<lambda>v (s, d). (fst (velocitor_debugfs_inject_error (pf_bus P) v s), d))"
  "b_nap (drv_bench P major) i w = pf_nap P i w"
  by (simp_all add: drv_bench_def)

text \<open>The state between two steps of the program: the \<open>m\<close> checks so far have passed, the system serves.\<close>

definition going :: "u32 \<Rightarrow> u64 \<Rightarrow> u32 \<Rightarrow> u32 \<Rightarrow> (nat \<times> nat \<times> u64) list \<times> u64 \<times> bool \<Rightarrow> nat \<Rightarrow>
    ('h velocitor_state \<times> cdev_state) test \<Rightarrow> bool" where
  "going g x n h c m t \<longleftrightarrow> serving g x n h (t_world t) \<and> card_part (t_world t) = c \<and> passing t \<and> length (t_checks t) = m"

lemma going_check: "going g x n h c m t \<Longrightarrow> ok \<Longrightarrow> going g x n h c (Suc m) (check ok what t)"
  by (simp add: going_def)

lemma going_stats:
  assumes "going g x n h c m t" and "fd dev \<noteq> - 1" and "u = test_stats (drv_bench P major) dev what t"
  shows "going g x n h c (Suc m) u \<and> live u = n \<and> node_free 0 u = x \<and> node_free 1 u = NODE1_ALLOCATABLE
     \<and> device_live (t_world u) = device_live (t_world t)"
proof -
  obtain w c0 c1 where w: "velocitor_stats driver_ioctl (Some dev) (t_world t) = (w, Inr (n, [(c0, x), (c1, NODE1_ALLOCATABLE)]))"
    "serving g x n h w" "card_part w = card_part (t_world t)" "device_live w = device_live (t_world t)"
    using stats_answered [OF _ assms(2)] assms(1) unfolding going_def by blast
  have u: "u = check True what (t\<lparr>t_world := w, t_stats := (n, [(c0, x), (c1, NODE1_ALLOCATABLE)])\<rparr>)"
    using w(1) by (simp add: assms(3) test_stats_def)
  show ?thesis using w assms(1) by (simp add: u going_def) (simp add: live_def node_free_def)
qed

lemma going_alloc:
  assumes "going g x n h c m t" and "fd dev \<noteq> - 1" and "4096 \<le> x" and "h \<le> VEL_MAX_HANDLES"
  shows "\<exists>u b. test_alloc (drv_bench P major) 0 dev BLOCK 0 what t = (u, Some b) \<and> going g (x - 4096) (n + 1) (h + 1) c (Suc m) u
     \<and> handle_key b = (h, g) \<and> length (lh_alloc b) = 32 \<and> (h, g) \<in> device_live (t_world u)"
proof -
  obtain w b where w: "velocitor_alloc_handle driver_ioctl True (Some dev) BLOCK 0 0 (t_world t) = (w, Inr b)"
    "serving g (x - 4096) (n + 1) (h + 1) w" "card_part w = card_part (t_world t)" "handle_key b = (h, g)" "length (lh_alloc b) = 32"
    "(h, g) \<in> device_live w"
    using alloc_granted [OF _ assms(2-4)] assms(1) unfolding going_def by blast
  have "test_alloc (drv_bench P major) 0 dev BLOCK 0 what t = (check True what (t\<lparr>t_world := w\<rparr>), Some b)"
    using w(1) by (simp add: test_alloc_def)
  then show ?thesis using w assms(1) by (simp add: going_def)
qed

lemma going_refused:
  assumes "going g x n h c m t" and "fd dev \<noteq> - 1" and "sz = 0 \<or> node \<noteq> VEL_NODE_ANY \<and> node \<ge> VEL_NODES"
  shows "going g x n h c (Suc m) (fst (test_alloc (drv_bench P major) (- 22) dev sz node what t))"
proof -
  obtain w where w: "velocitor_alloc_handle driver_ioctl True (Some dev) sz node 0 (t_world t) = (w, Inl (- 22))"
    "serving g x n h w" "card_part w = card_part (t_world t)"
    using alloc_refused [OF _ assms(2,3)] assms(1) unfolding going_def by blast
  have "fst (test_alloc (drv_bench P major) (- 22) dev sz node what t) = check True what (t\<lparr>t_world := w\<rparr>)"
    using w(1) by (simp add: test_alloc_def)
  then show ?thesis using w assms(1) by (simp add: going_def)
qed

lemma going_free:
  assumes "going g x n h c m t" and "length (lh_alloc b) = 32" and "handle_key b = (i, g)" and "(i, g) \<in> device_live (t_world t)"
  shows "going g x (n - 1) h c (Suc m) (test_free (drv_bench P major) 0 (Some b) what t)"
proof -
  obtain w where w: "velocitor_free_handle driver_ioctl (Some b) (t_world t) = (w, 0)" "serving g x (n - 1) h w"
    "card_part w = card_part (t_world t)"
    using free_granted [OF _ assms(2-4)] assms(1) unfolding going_def by blast
  then show ?thesis using assms(1) by (simp add: test_free_def going_def)
qed

lemma going_stale:
  assumes "going g x n h c m t" and "length (lh_alloc b) = 32" and "handle_key b = (i, old)" and "old \<noteq> g"
  shows "going g x n h c (Suc m) (test_free (drv_bench P major) (- 116) (Some b) what t)"
proof -
  have "velocitor_free_handle driver_ioctl (Some b) (t_world t) = (t_world t, - 116)"
    using free_stale [OF _ assms(2-4)] assms(1) unfolding going_def by blast
  then show ?thesis using assms(1) by (simp add: test_free_def going_def)
qed

text \<open>The loop ends in the round of the recovery, if that is one of the fifty.\<close>

lemma await_recovery:
  assumes crash: "fw_status s = VEL_FW_STATUS_CRASHED" "rproc_generation (cd_dev d) = g"
    and naps: "\<forall>i < k. \<forall>w. pf_nap P i w = w" and up: "pf_nap P k (s, d) = w" "serving (g + 1) x n h w"
    and dev: "fd dev \<noteq> - 1" and "j \<le> k" and "k < 50"
  shows "await (drv_bench P major) dev g j after (s, d) = (w, (VEL_DEVICE_INFO_READY, g + 1))"
  using assms(7)
proof (induction "k - j" arbitrary: j after)
  case 0
  obtain s' d' where w: "w = (s', d')" by fastforce
  have st: "velocitor_state_of driver_ioctl (Some dev) (s', d') = ((s', d'), Inr (VEL_DEVICE_INFO_READY, g + 1))"
    using state_answered [OF dev, of s' VEL_DEVICE_INFO_READY d'] up(2) by (simp add: w serving_def)
  have "j = k" using 0 by simp
  then show ?case using up(1) st by (simp add: await.simps [of "drv_bench P major"] w)
next
  case (Suc m)
  have "velocitor_state_of driver_ioctl (Some dev) (s, d) = ((s, d), Inr (VEL_DEVICE_INFO_CRASHED, g))"
    using state_answered [OF dev, of s VEL_DEVICE_INFO_CRASHED d] crash by simp
  moreover have "Suc j < 50" "j < k" using Suc assms(8) by simp_all
  ultimately show ?case
    using Suc.hyps(1) [of "Suc j"] Suc.hyps(2) Suc.prems naps by (simp add: await.simps [of "drv_bench P major" dev g j])
qed

lemma stat_passes:
  assumes "going g NODE0_ALLOCATABLE 0 h c m t" and "fd dev \<noteq> - 1"
  shows "going g NODE0_ALLOCATABLE 0 h c (m + 4) (stat_section (drv_bench P major) dev t)"
proof -
  let ?u = "test_stats (drv_bench P major) dev ''STAT answers'' t"
  have u: "going g NODE0_ALLOCATABLE 0 h c (Suc m) ?u" "live ?u = 0" "node_free 0 ?u = NODE0_ALLOCATABLE" "node_free 1 ?u = NODE1_ALLOCATABLE"
    using going_stats [OF assms refl] by blast+
  then show ?thesis
    unfolding stat_section_def Let_def
    by (simp add: going_def)
qed


lemma alloc_passes:
  assumes "going g NODE0_ALLOCATABLE 0 h c m t" and "fd dev \<noteq> - 1" and "h \<le> VEL_MAX_HANDLES"
  shows "\<exists>u b. alloc_section (drv_bench P major) dev t = (u, Some b) \<and> going g (NODE0_ALLOCATABLE - BLOCK) 1 (h + 1) c (m + 5) u
     \<and> handle_key b = (h, g) \<and> length (lh_alloc b) = 32 \<and> (h, g) \<in> device_live (t_world u)"
proof -
  have "4096 \<le> NODE0_ALLOCATABLE" by simp
  from going_alloc [OF assms(1,2) this assms(3)] obtain u b where
    u: "test_alloc (drv_bench P major) 0 dev BLOCK 0 ''ALLOC of 4096 bytes on node 0'' t = (u, Some b)"
      "going g (NODE0_ALLOCATABLE - 4096) (0 + 1) (h + 1) c (Suc m) u" "handle_key b = (h, g)" "length (lh_alloc b) = 32"
      "(h, g) \<in> device_live (t_world u)"
    by blast
  let ?v = "test_stats (drv_bench P major) dev ''STAT after the allocation'' u"
  have v: "going g (NODE0_ALLOCATABLE - 4096) (0 + 1) (h + 1) c (Suc (Suc m)) ?v" "live ?v = 0 + 1" "node_free 0 ?v = NODE0_ALLOCATABLE - 4096"
    "node_free 1 ?v = NODE1_ALLOCATABLE" "device_live (t_world ?v) = device_live (t_world u)"
    using going_stats [OF u(2) assms(2) refl] by blast+
  show ?thesis
    using v u(3-5) unfolding alloc_section_def u(1) prod.case Let_def by (simp add: going_def)
qed

lemma free_passes:
  assumes "going g (NODE0_ALLOCATABLE - BLOCK) 1 h c m t" and "fd dev \<noteq> - 1"
    and "handle_key b = (i, g)" and "length (lh_alloc b) = 32" and "(i, g) \<in> device_live (t_world t)"
  shows "going g (NODE0_ALLOCATABLE - BLOCK) 0 h c (m + 4) (free_section (drv_bench P major) dev (Some b) t)"
proof -
  let ?u = "test_free (drv_bench P major) 0 (Some b) ''FREE of that handle'' t"
  have u: "going g (NODE0_ALLOCATABLE - BLOCK) (1 - 1) h c (Suc m) ?u" by (rule going_free [OF assms(1,4,3,5)])
  let ?v = "test_stats (drv_bench P major) dev ''STAT after the free'' ?u"
  have v: "going g (NODE0_ALLOCATABLE - BLOCK) (1 - 1) h c (Suc (Suc m)) ?v" "live ?v = 1 - 1" "node_free 0 ?v = NODE0_ALLOCATABLE - BLOCK"
    using going_stats [OF u assms(2) refl] by blast+
  then show ?thesis unfolding free_section_def Let_def by (simp add: going_def)
qed

lemma refusal_passes:
  assumes "going g x n h c m t" and "fd dev \<noteq> - 1"
  shows "going g x n h c (m + 2) (refusal_section (drv_bench P major) dev t)"
proof -
  have node: "(99 :: u32) \<noteq> VEL_NODE_ANY \<and> (99 :: u32) \<ge> VEL_NODES" by simp
  have "going g x n h c (Suc (Suc m)) (refusal_section (drv_bench P major) dev t)"
    unfolding refusal_section_def Let_def using node by (intro going_refused assms) simp_all
  then show ?thesis by simp
qed

lemma recovered_passes:
  assumes "going g NODE0_ALLOCATABLE 0 1 c m t" and "0 \<le> fd dev"
    and "length (lh_alloc b) = 32" and "handle_key b = (i, old)" and "old \<noteq> g"
  shows "passing (recovered_section (drv_bench P major) dev (Some b) t)
     \<and> length (t_checks (recovered_section (drv_bench P major) dev (Some b) t)) = m + 6
     \<and> \<not> usageFlags (snd (t_world (recovered_section (drv_bench P major) dev (Some b) t)))"
proof -
  have fd: "fd dev \<noteq> - 1" using assms(2) by simp
  let ?t1 = "test_stats (drv_bench P major) dev ''the same fd still serves STAT'' t"
  let ?t2 = "check (live ?t1 = 0) ''the new generation starts with no handle'' ?t1"
  let ?t3 = "test_free (drv_bench P major) (- 116) (Some b) ''FREE of a handle from the previous generation is -ESTALE'' ?t2"
  have t1: "going g NODE0_ALLOCATABLE 0 1 c (Suc m) ?t1" "live ?t1 = 0" using going_stats [OF assms(1) fd refl] by blast+
  have t3: "going g NODE0_ALLOCATABLE 0 1 c (Suc (Suc (Suc m))) ?t3"
    by (rule going_stale [OF going_check [OF t1(1)] assms(3-5)]) (rule t1(2))
  have small: "4096 \<le> NODE0_ALLOCATABLE" "(1 :: u32) \<le> VEL_MAX_HANDLES" by simp_all
  obtain t4 e where t4: "test_alloc (drv_bench P major) 0 dev BLOCK 0 ''ALLOC works again after the recovery'' ?t3 = (t4, Some e)"
    "going g (NODE0_ALLOCATABLE - 4096) (0 + 1) (1 + 1) c (Suc (Suc (Suc (Suc m)))) t4" "handle_key e = (1, g)" "length (lh_alloc e) = 32"
    "(1, g) \<in> device_live (t_world t4)"
    using going_alloc [OF t3 fd small] by blast
  define t5 where "t5 = test_free (drv_bench P major) 0 (Some e) ''and so does FREE'' t4"
  have t5: "going g (NODE0_ALLOCATABLE - 4096) (0 + 1 - 1) (1 + 1) c (Suc (Suc (Suc (Suc (Suc m))))) t5"
    unfolding t5_def by (rule going_free [OF t4(2,4,3,5)])
  have run: "recovered_section (drv_bench P major) dev (Some b) t = test_close (drv_bench P major) dev ''close'' t5"
    by (simp only: recovered_section_def Let_def t4(1) prod.case t5_def)
  obtain s d where w: "t_world t5 = (s, d)" by fastforce
  show ?thesis
    unfolding run using t5 assms(2)
    by (simp add: test_close_def velocitor_close_def drv_bench_def velocitor_cdev_release_def w going_def)
qed

lemma crash_passes:
  assumes t: "going g x 0 h c m t" and fd: "0 \<le> fd dev" and "4096 \<le> x" and "h \<le> VEL_MAX_HANDLES"
    and "ours d0 (t_world t)" and "g < g + 1" and "k < 50" and ok: "platform_ok P d0" "rings_ready d0" "recovers_at P k"
  shows "passing (crash_section (drv_bench P major) dev t) \<and> length (t_checks (crash_section (drv_bench P major) dev t)) = m + 11
     \<and> \<not> usageFlags (snd (t_world (crash_section (drv_bench P major) dev t)))"
proof -
  have dev: "fd dev \<noteq> - 1" using fd by simp
  obtain s d where w: "t_world t = (s, d)" by fastforce
  have st: "velocitor_state_of driver_ioctl (Some dev) (t_world t) = (t_world t, Inr (VEL_DEVICE_INFO_READY, g))"
    using state_answered [OF dev, of s VEL_DEVICE_INFO_READY d] t by (simp add: w going_def serving_def)
  let ?t2 = "check (VEL_DEVICE_INFO_READY = VEL_DEVICE_INFO_READY) ''state is READY'' (check True ''INFO before the crash'' t)"
  have t2: "going g x 0 h c (Suc (Suc m)) ?t2" by (intro going_check t) simp_all
  obtain t3 b where t3: "test_alloc (drv_bench P major) 0 dev BLOCK 0 ''ALLOC that will not survive the crash'' ?t2 = (t3, Some b)"
    "going g (x - 4096) (0 + 1) (h + 1) c (Suc (Suc (Suc m))) t3" "handle_key b = (h, g)" "length (lh_alloc b) = 32"
    using going_alloc [OF t2 dev assms(3,4)] by blast
  obtain s3 d3 where w3: "t_world t3 = (s3, d3)" by fastforce
  define s4 where "s4 = fst (velocitor_debugfs_inject_error (pf_bus P) 4 s3)"
  have sv: "serving g (x - 4096) (0 + 1) (h + 1) (s3, d3)" using t3(2) by (simp add: going_def w3)
  note crash = crash_noticed [OF sv s4_def]
  have same: "card_part (s4, d3) = card_part (t_world t)" using crash t3(2) t by (simp add: going_def w3)
  then have mine: "ours d0 (s4, d3)" using assms(5) by (simp add: ours_def)
  obtain w' where w': "pf_nap P k (s4, d3) = w'" "serving (g + 1) NODE0_ALLOCATABLE 0 1 w'" "card_part w' = card_part (s4, d3)"
    using nap_recovers [OF ok _ _ _ _ mine] crash by blast
  have naps: "\<forall>i < k. \<forall>w. pf_nap P i w = w" using ok(3) by (simp add: recovers_at_def)
  have loop: "await (drv_bench P major) dev g 0 (0, 0) (s4, d3) = (w', (VEL_DEVICE_INFO_READY, g + 1))"
    using await_recovery [OF _ _ naps w'(1,2) dev _ assms(7)] crash by simp
  let ?t4 = "check (VEL_DEVICE_INFO_READY = VEL_DEVICE_INFO_READY) ''state is READY again''
    (check (g + 1 > g) ''GENERATION moved on, the firmware rebooted (spec 6.5)'' (t3\<lparr>t_world := w'\<rparr>))"
  have "going (g + 1) NODE0_ALLOCATABLE 0 1 c (Suc (Suc (Suc m))) (t3\<lparr>t_world := w'\<rparr>)"
    using w' t3(2) same t by (simp add: going_def)
  then have t4: "going (g + 1) NODE0_ALLOCATABLE 0 1 c (Suc (Suc (Suc (Suc (Suc m))))) ?t4"
    by (intro going_check) (use assms(6) in simp_all)
  have run: "crash_section (drv_bench P major) dev t = recovered_section (drv_bench P major) dev (Some b) ?t4"
  proof -
    have t: "t\<lparr>t_world := t_world t\<rparr> = t" by simp
    show ?thesis
      unfolding crash_section_def bench_simps(1) st prod.case sum.case snd_conv fst_conv t Let_def t3(1) bench_simps(2) option.case w3
        s4_def [symmetric] loop
      by simp
  qed
  have "g \<noteq> g + 1" using assms(6) by auto
  from recovered_passes [OF t4 fd t3(4,3) this] show ?thesis unfolding run by simp
qed


lemma open_first:
  assumes "t_world t = (s, d)" and "di_devname i = str ''velocitor0''" and "0 \<le> pf_fd P"
  shows "\<not> usageFlags d \<Longrightarrow> test_open (drv_bench P major) 0 i what t =
      (check True what (t\<lparr>t_world := (s, d\<lparr>usageFlags := True\<rparr>)\<rparr>), Some \<lparr>fd = pf_fd P, dev_info = i\<rparr>)"
    and "usageFlags d \<Longrightarrow> test_open (drv_bench P major) (- 16) i what t = (check True what t, None)"
proof -
  have path: "str ''/dev/'' @ di_devname i = node_path" "length node_path < PATH_MAX" using assms(2) by (simp_all add: node_path_def str_def)
  show "\<not> usageFlags d \<Longrightarrow> test_open (drv_bench P major) 0 i what t =
      (check True what (t\<lparr>t_world := (s, d\<lparr>usageFlags := True\<rparr>)\<rparr>), Some \<lparr>fd = pf_fd P, dev_info = i\<rparr>)"
    and "usageFlags d \<Longrightarrow> test_open (drv_bench P major) (- 16) i what t = (check True what t, None)"
    using path assms(3) by (simp_all add: test_open_def velocitor_open_def drv_bench_def velocitor_cdev_open_def assms(1) Let_def not_less)
qed

text \<open>The whole program, on a system that serves and that nobody has open.\<close>

lemma test_runs:
  assumes sv: "serving g NODE0_ALLOCATABLE 0 h (s, d)" and rings: "ours d0 (s, d)" and shut: "\<not> usageFlags d"
    and i: "id_nodes (identity (cd_dev d)) = 2" "id_engines (identity (cd_dev d)) = 2"
    and h: "h < VEL_MAX_HANDLES" and g: "g < g + 1" and k: "k < 50"
    and ok: "platform_ok P d0" "rings_ready d0" "recovers_at P k"
  shows "\<exists>t. ctrl_test (drv_bench P major) (s, d) = (t, 0) \<and> passing t \<and> length (t_checks t) = 32 \<and> \<not> usageFlags (snd (t_world t))"
proof -
  define B where "B = drv_bench P major"
  have pfd: "0 \<le> pf_fd P" using ok(1) by (simp add: platform_ok_def)
  define i0 where "i0 = \<lparr>di_present = True, di_minor = 0, di_devname = str ''velocitor0'', di_fw_minor = ucast (id_minor (identity (cd_dev d))),
     di_fw_major = ucast (id_major (identity (cd_dev d))), di_memory = ucast (id_mem_size (identity (cd_dev d))), di_nodes = 2, di_engines = 2\<rparr>"
  have scan: "velocitor_scan (b_sysfs B (s, d)) (b_dir B (s, d)) VEL_MAX_DEVICES = Inr [i0]"
    using scan_one [of "str ''velocitor0''" 8 "''velocitor0''" "b_sysfs B (s, d)" "identity (cd_dev d)" major 0] i
    by (simp add: B_def drv_bench_def i0_def) (simp add: str_def)
  define dev where "dev = \<lparr>fd = pf_fd P, dev_info = i0\<rparr>"
  define e where "e = d\<lparr>usageFlags := True\<rparr>"
  define t0 where "t0 = check (di_engines i0 = 2) ''topology says two engines'' (check (di_nodes i0 = 2) ''topology says two nodes''
    (check (di_devname i0 = str ''velocitor0'') ''devname is velocitor0'' (check True ''sysfs enumeration finds exactly one device''
      \<lparr>t_world = (s, d), t_checks = [], t_stats = (0, [(0, 0), (0, 0)])\<rparr>)))"
  have t0: "t_world t0 = (s, d)" "passing t0" "length (t_checks t0) = 4" by (simp_all add: t0_def i0_def) (simp_all add: passing_def)
  define t1 where "t1 = check True ''second open is -EBUSY'' (check True ''open succeeds'' (t0\<lparr>t_world := (s, e)\<rparr>))"
  have name: "di_devname i0 = str ''velocitor0''" by (simp add: i0_def)
  have open1: "test_open B 0 i0 ''open succeeds'' t0 = (check True ''open succeeds'' (t0\<lparr>t_world := (s, e)\<rparr>), Some dev)"
    using open_first(1) [OF t0(1) name pfd shut] by (simp add: B_def dev_def e_def)
  have open2: "fst (test_open B (- 16) i0 ''second open is -EBUSY'' (check True ''open succeeds'' (t0\<lparr>t_world := (s, e)\<rparr>))) = t1"
    using open_first(2) [of _ s e i0, OF _ name pfd] by (simp add: B_def t1_def e_def)
  have "serving g NODE0_ALLOCATABLE 0 h (s, e)" using sv by (simp add: serving_def at_rest_def e_def)
  then have go1: "going g NODE0_ALLOCATABLE 0 h (card_part (s, e)) 6 t1" using t0 by (simp add: going_def t1_def)
  have fd: "0 \<le> fd dev" "fd dev \<noteq> - 1" using pfd by (simp_all add: dev_def)
  define t2 where "t2 = stat_section B dev t1"
  have go2: "going g NODE0_ALLOCATABLE 0 h (card_part (s, e)) 10 t2"
    using stat_passes [OF go1 fd(2), of P major] by (simp add: t2_def B_def)
  have h1: "h \<le> VEL_MAX_HANDLES" "h + 1 \<le> VEL_MAX_HANDLES" using h by (simp_all add: word_le_nat_alt word_less_nat_alt unat_word_ariths)
  obtain t3 b where t3: "alloc_section B dev t2 = (t3, Some b)" "going g (NODE0_ALLOCATABLE - BLOCK) 1 (h + 1) (card_part (s, e)) 15 t3"
    "handle_key b = (h, g)" "length (lh_alloc b) = 32" "(h, g) \<in> device_live (t_world t3)"
    using alloc_passes [OF go2 fd(2) h1(1), of P major] by (auto simp: B_def)
  define t5 where "t5 = refusal_section B dev (free_section B dev (Some b) t3)"
  have go5: "going g (NODE0_ALLOCATABLE - BLOCK) 0 (h + 1) (card_part (s, e)) 21 t5"
    using refusal_passes [OF free_passes [OF t3(2) fd(2) t3(3-5)] fd(2), of P major] by (simp add: t5_def B_def)
  have big: "4096 \<le> NODE0_ALLOCATABLE - BLOCK" by simp
  have ours: "ours d0 (t_world t5)" using go5 rings by (simp add: going_def ours_def card_part_def e_def)
  define t where "t = crash_section B dev t5"
  have t: "passing t" "length (t_checks t) = 32" "\<not> usageFlags (snd (t_world t))"
    using crash_passes [OF go5 fd(1) big h1(2) ours g k ok, of major] by (simp_all add: t_def B_def)
  have "ctrl_test B (s, d) = (t, 0)"
    unfolding ctrl_test_def scan Let_def sum.case list.case open1 [unfolded t0_def] open2 [unfolded t0_def]
    using open1 open2 t3(1) passing_failed [OF t(1)]
    by (simp add: t0_def t2_def t5_def t_def)
  then show ?thesis using t unfolding B_def by blast
qed


section \<open>Properties\<close>

text \<open>The world of a probed card: the device, and the driver's parts, nobody having it open.\<close>

definition probed :: "'h probe \<Rightarrow> 'h velocitor_state \<times> cdev_state" where
  "probed p = (c_dev (p_card p), \<lparr>cd_dev = c_drv (p_card p), cd_ctrl = c_ctrl (p_card p), usageFlags = False\<rparr>)"

lemma probe_serves:
  assumes "grants K" and "a_boot K = start_boot (pf_bus P) (pf_env P) (pf_memset P) (pf_table P) (pf_len P) (pf_load P)"
    and d0: "d0 = c_drv (handed_card K s)" and ok: "platform_ok P d0" "rings_ready d0"
    and "stopped s" and "err_inject s AND VEL_ERR_INJECT_ALLOC_FAIL = 0"
  shows "\<exists>p t d. velocitor_pci_probe (pf_bus P) K (unbound s) = (p, 0) \<and> channel_up P (probed p) = Some (t, d)
     \<and> serving (generation s + 1) NODE0_ALLOCATABLE 0 1 (t, d) \<and> ours d0 (t, d) \<and> \<not> usageFlags d
     \<and> id_nodes (identity (cd_dev d)) = 2 \<and> id_engines (identity (cd_dev d)) = 2"
proof -
  let ?c = "handed_card K s"
  have seq: "0 \<le> pf_seq P" "pf_seq P < 2 ^ 31" using ok(1) by (simp_all add: platform_ok_def)
  have s0: "stopped (c_dev ?c)" "generation (c_dev ?c) = generation s" "err_inject (c_dev ?c) = err_inject s"
    using assms(6) by (simp_all add: handed_card_def stopped_def)
  obtain dev t where start: "started P d0 (c_dev ?c) = (dev, t, 0)"
    and t: "fw_status t = VEL_FW_STATUS_RUNNING" "generation t = generation (c_dev ?c) + 1" "rproc_generation dev = generation t"
      "heap_of t = heap_of (velocitor_alloc_reset (pf_load P (c_dev ?c)))" "handles dev = velocitor_handles_regenerate (generation t) (handles d0)"
      "\<forall>q < 4. ring_id (vqs dev q) = ring_id (vqs d0 q)" "rsc_dma dev = rsc_dma d0" "err_inject t = err_inject (c_dev ?c)" "identity dev = identity d0"
    using bench_start [OF ok s0(1), of d0] by blast
  have "a_boot K ?c = (?c\<lparr>c_drv := dev, c_dev := t\<rparr>, 0)"
    using start by (simp add: assms(2) start_boot_def started_def d0)
  from granted_probe [OF assms(1) this] obtain p where p: "velocitor_pci_probe (pf_bus P) K (unbound s) = (p, 0)"
    "p_card p = ?c\<lparr>c_drv := dev, c_dev := t\<rparr>" by blast
  define e where "e = \<lparr>cd_dev = dev, cd_ctrl = velocitor_ctrl_zero, usageFlags = False\<rparr>"
  have probed: "probed p = (t, e)" by (simp add: probed_def p(2) e_def handed_card_def)
  have table: "handles dev = \<lparr>h_entries = [], h_generation = generation t, h_objects = 0\<rparr>"
    by (simp add: t(5) d0 handed_card_def drv_zero_def velocitor_handles_regenerate_def velocitor_handles_initialize_def)
  have "\<exists>d'. channel_up P (t, e) = Some (t, d') \<and> serving (generation t) NODE0_ALLOCATABLE 0 1 (t, d') \<and> cd_dev d' = cd_dev e
     \<and> usageFlags d' = usageFlags e"
    by (rule fresh_generation [OF t(1) _ t(4)])
      (use t s0(3) assms(7) table seq in \<open>simp_all add: e_def velocitor_ctrl_zero_def\<close>)
  then obtain d where d: "channel_up P (t, e) = Some (t, d)" "serving (generation t) NODE0_ALLOCATABLE 0 1 (t, d)" "cd_dev d = cd_dev e"
     "usageFlags d = usageFlags e" by blast
  have "id_nodes (identity d0) = 2" "id_engines (identity d0) = 2" by (simp_all add: d0 handed_card_def)
  moreover have "ours d0 (t, d)" using t(6,7) d(3) by (simp add: ours_rings e_def)
  ultimately show ?thesis
    using p(1) d t(2,9) s0(2) probed by (intro exI [of _ p] exI [of _ t] exI [of _ d]) (simp add: e_def)
qed

text \<open>C3. The acceptance test of the repository passes on the model of the whole system. Probe a card on which nothing
  runs and no allocation failure is injected, with a kernel that grants what the driver asks for, at whatever
  usable addresses; let the loader, the resource table, the boot and the kernel's recovery behave as documented
  (\<open>platform_ok\<close>, \<open>recovers_at\<close>), the recovery coming during whichever of the fifty naps; let GENERATION be two
  boots short of its wrap; and nobody else use the card. Then the probe succeeds, the control channel comes up,
  and \<open>ctrl-test\<close>, run through sysfs, the character device, the library, the control channel and the device's
  allocator, with its firmware crash, ends with exit code 0, all of its 32 checks pass, and the device is
  closed again.\<close>

theorem ctrl_test_passes:
  assumes "grants K" and "a_boot K = start_boot (pf_bus P) (pf_env P) (pf_memset P) (pf_table P) (pf_len P) (pf_load P)"
    and "\<forall>q < 4. a_dma K (R_ring q) \<noteq> 0 \<and> a_dma K (R_ring q) + 4096 \<noteq> 0 \<and> a_dma K (R_ring q) + 8192 \<noteq> 0"
    and "platform_ok P (c_drv (handed_card K s))" and "recovers_at P k" and "k < 50"
    and "stopped s" and "err_inject s AND VEL_ERR_INJECT_ALLOC_FAIL = 0" and "generation s + 1 < generation s + 2"
  shows "\<exists>p w t. velocitor_pci_probe (pf_bus P) K (unbound s) = (p, 0) \<and> channel_up P (probed p) = Some w
     \<and> ctrl_test (drv_bench P major) w = (t, 0) \<and> list_all fst (t_checks t) \<and> length (t_checks t) = 32
     \<and> \<not> usageFlags (snd (t_world t))"
proof -
  let ?d0 = "c_drv (handed_card K s)"
  have ready: "rings_ready ?d0" using assms(3) by (simp add: rings_ready_def handed_card_def ring_ready_def)
  obtain p u d where p: "velocitor_pci_probe (pf_bus P) K (unbound s) = (p, 0)" "channel_up P (probed p) = Some (u, d)"
    and w: "serving (generation s + 1) NODE0_ALLOCATABLE 0 1 (u, d)" "ours ?d0 (u, d)" "\<not> usageFlags d"
      "id_nodes (identity (cd_dev d)) = 2" "id_engines (identity (cd_dev d)) = 2"
    using probe_serves [OF assms(1,2) refl assms(4) ready assms(7,8)] by blast
  have h: "(1 :: u32) < VEL_MAX_HANDLES" and g: "generation s + 1 < generation s + 1 + 1" using assms(9) by (simp_all add: add.assoc)
  show ?thesis using test_runs [OF w h g assms(6,4) ready assms(5), of major] p unfolding passing_def by blast
qed

section \<open>A platform\<close>

text \<open>
  A kernel that behaves as documented, for the witness: plain memory, the generator's table at 0x10000, a loader that
  copies the segment, and the recovery during the third nap.
\<close>

definition core_load :: "store velocitor_state \<Rightarrow> store velocitor_state" where
  "core_load s = s\<lparr>mem := (\<lambda>i. if i < 0x20000 then loaded_image i else mem s i), host := mem_store (host s) 0x10000 filled_table\<rparr>"

definition quiet_platform :: "store platform" where
  "quiet_platform = \<lparr>pf_bus = ram_bus, pf_env = quick_boot, pf_memset = host_memset0, pf_table = filled_table, pf_len = 220,
     pf_load = core_load, pf_object = 3, pf_seq = 1, pf_fd = 5, pf_nap = (\<lambda>i w. w)\<rparr>"

definition core_recovery ::
  "'h platform \<Rightarrow> 'h velocitor_state \<times> cdev_state \<Rightarrow> ('h velocitor_state \<times> cdev_state) option" where
  "core_recovery P w =
     (case w of (s, d) \<Rightarrow>
        Option.bind (velocitor_ctrl_rpmsg_remove (cd_ctrl d)) (\<lambda>c.
          case started P (cd_dev d) (velocitor_rproc_stop (pf_bus P) (fst (irq_error_event (pf_bus P) s))) of
            (dev, s, err) \<Rightarrow> if err \<noteq> 0 then None else channel_up P (s, d\<lparr>cd_dev := dev, cd_ctrl := c\<rparr>)))"

definition store_platform :: "store platform" where
  "store_platform = quiet_platform\<lparr>pf_nap := \<lambda>i w. if i = 3 then (case core_recovery quiet_platform w of None \<Rightarrow> w | Some w \<Rightarrow> w) else w\<rparr>"

lemma store_platform_recovers: "recovers_at store_platform 3"
proof -
  have "channel_up store_platform = channel_up quiet_platform" "started store_platform = started quiet_platform"
    "pf_bus store_platform = pf_bus quiet_platform"
    by (simp_all add: fun_eq_iff channel_up_def started_def store_platform_def)
  then show ?thesis by (simp add: recovers_at_def) (simp add: store_platform_def core_recovery_def)
qed

lemma core_load_effect:
  "segment_loaded (fst mkfw) (mem (core_load s))" "mem_load (host (core_load s)) 0x10000 220 = filled_table"
proof -
  have "mem_load (mem (core_load s)) a n = mem_load loaded_image a n" if "a + n \<le> 0x20000" for a n
    using that by (intro nth_equalityI) (simp_all add: core_load_def)
  then show "segment_loaded (fst mkfw) (mem (core_load s))"
    using loaded_image by (simp add: segment_loaded_def Let_def mkfw_segment)
  show "mem_load (host (core_load s)) 0x10000 220 = filled_table" by (simp add: core_load_def filled_length)
qed

lemma store_platform_ok:
  assumes "\<forall>q < 4. ring_id (vqs d0 q) = ring_id (vqs drv_ready q)" and "rsc_dma d0 = 0x10000"
  shows "platform_ok store_platform d0"
proof -
  have "published ram_bus filled_table ((snd (velocitor_vring_invalidate host_memset0 d (core_load s)))
      \<lparr>rsc_addr_lo := lower_32_bits (rsc_dma d0), rsc_addr_hi := upper_32_bits (rsc_dma d0), rsc_len := 220\<rparr>)"
    if "\<forall>q < 4. ring_id (vqs d q) = ring_id (vqs d0 q)" for d and s :: "store velocitor_state"
  proof -
    let ?d = "d\<lparr>rsc_dma := rsc_dma d0\<rparr>"
    have "\<forall>q < 4. ring_id (vqs ?d q) = ring_id (vqs drv_ready q)" "rsc_dma ?d = 0x10000" using that assms by simp_all
    then obtain d1 s1 where "velocitor_vring_invalidate host_memset0 ?d (core_load s) = (d1, s1)"
      "published ram_bus filled_table (s1\<lparr>rsc_addr_lo := lower_32_bits (rsc_dma ?d), rsc_addr_hi := upper_32_bits (rsc_dma ?d), rsc_len := 220\<rparr>)"
      using start_loaded(1) [OF core_load_effect] by blast
    then show ?thesis by (auto simp: invalidate_effect)
  qed
  moreover have "snd (velocitor_rproc_walk_rsc_table (Some filled_table) rings) = 0" for rings
    using filled_walk [of rings] by auto
  moreover have "\<exists>m h. core_load s = s\<lparr>mem := m, host := h\<rparr>" for s by (auto simp: core_load_def)
  moreover have "boot_env quick_boot" by (simp add: boot_env_def quick_boot_def)
  ultimately show ?thesis
    by (simp add: platform_ok_def store_platform_def quiet_platform_def core_load_effect filled_ok filled_words)
qed

text \<open>A new card; the firmware is back after the fourth nap.\<close>

definition bench_kernel :: "store answers" where
  "bench_kernel = generous\<lparr>a_boot := start_boot ram_bus quick_boot host_memset0 filled_table 220 core_load\<rparr>"

theorem ctrl_test_passes_witness:
  "\<exists>p w t. velocitor_pci_probe ram_bus bench_kernel (unbound (velocitor_new (\<lambda>_. 0))) = (p, 0) \<and> channel_up store_platform (probed p) = Some w
     \<and> ctrl_test (drv_bench store_platform [50]) w = (t, 0) \<and> length (t_checks t) = 32 \<and> failed t = 0"
proof -
  let ?s = "velocitor_new (\<lambda>_. 0) :: store velocitor_state"
  have P: "pf_bus store_platform = ram_bus" by (simp add: store_platform_def quiet_platform_def)
  have K: "grants bench_kernel" "a_boot bench_kernel = start_boot (pf_bus store_platform) (pf_env store_platform) (pf_memset store_platform)
      (pf_table store_platform) (pf_len store_platform) (pf_load store_platform)"
    by (simp_all add: bench_kernel_def generous_def grants_def store_platform_def quiet_platform_def)
  have rings: "a_dma bench_kernel (R_ring q) = vr_dma (vqs drv_ready q)" for q by (simp add: bench_kernel_def generous_def drv_ready_def)
  have ready: "vr_dma (vqs drv_ready q) \<noteq> 0 \<and> vr_dma (vqs drv_ready q) + 4096 \<noteq> 0 \<and> vr_dma (vqs drv_ready q) + 8192 \<noteq> 0" if q: "q < 4" for q
  proof -
    consider "q = 0" | "q = 1" | "q = 2" | "q = 3" using q by linarith
    then show ?thesis by cases (simp_all add: drv_ready_def)
  qed
  have ok: "platform_ok store_platform (c_drv (handed_card bench_kernel ?s))"
    by (rule store_platform_ok) (simp_all add: handed_card_def ring_id_def rings, simp_all add: drv_ready_def bench_kernel_def generous_def)
  have s: "stopped ?s" "err_inject ?s AND VEL_ERR_INJECT_ALLOC_FAIL = 0" "generation ?s + 1 < generation ?s + 2"
    by (simp_all add: stopped_def velocitor_new_def no_queue_def)
  have dma: "\<forall>q < 4. a_dma bench_kernel (R_ring q) \<noteq> 0 \<and> a_dma bench_kernel (R_ring q) + 4096 \<noteq> 0 \<and> a_dma bench_kernel (R_ring q) + 8192 \<noteq> 0"
    using ready by (simp add: rings)
  have "(3 :: nat) < 50" by simp
  from ctrl_test_passes [OF K dma ok store_platform_recovers this s, of "[50]"] show ?thesis
    using passing_failed unfolding passing_def P by blast
qed


lemma scan_test_prints:
  assumes "identity (cd_dev d) = snd (velocitor_identity_initialize s0)"
  shows "scan_test (drv_bench P major) (s, d) = (0, str ''found 1 device(s)'' @ [10] @
     str ''  /dev/velocitor0 (minor 0): version 0.6, 2 node(s), 2 engine(s), 268435456 byte(s)'' @ [10])"
proof -
  have i: "identity (cd_dev d) = \<lparr>id_minor = 6, id_major = 0, id_nodes = 2, id_engines = 2, id_mem_size = 0x10000000, id_caps = 7\<rparr>"
    using assms probe_identifies [of undefined s0] by simp
  have "velocitor_scan (b_sysfs (drv_bench P major) (s, d)) (b_dir (drv_bench P major) (s, d)) VEL_MAX_DEVICES =
      Inr [\<lparr>di_present = True, di_minor = 0, di_devname = str ''velocitor0'', di_fw_minor = 6, di_fw_major = 0, di_memory = 0x10000000,
        di_nodes = 2, di_engines = 2\<rparr>]"
    using scan_one [of "str ''velocitor0''" 8 "''velocitor0''" "b_sysfs (drv_bench P major) (s, d)" "identity (cd_dev d)" major 0]
    by (simp add: drv_bench_def i) (simp add: str_def)
  moreover have "fmt_dec 268435456 = str ''268435456''" "fmt_dec 0 = str ''0''" "fmt_dec 6 = str ''6''" "fmt_dec 2 = str ''2''" "fmt_dec (Suc 0) = str ''1''"
    by (simp_all add: fmt_dec.simps str_def)
  ultimately show ?thesis by (simp add: scan_test_def scan_line_def fmt_u_def) (simp add: str_def)
qed

end
