(* ===== verification/Spec2Isabelle.thy ===== *)
theory Spec2Isabelle
  imports Drv_Window Drv_Dma Drv_Rproc Drv_Debugfs Rt_Test
begin

text \<open>
  A model of the Velocitor accelerator card and its software, and the theorems that make them correct.

  \<^bold>\<open>The program.\<close> \<open>qemu-device/velocitor.c\<close> is the card as a QEMU device: registers in BAR0, device memory behind
  BAR2 (a fixed aperture and a sliding window), a firmware life cycle, an allocator of device memory,
  a control endpoint (rpmsg over a pair of virtqueues) and one data queue per engine.
  \<open>firmware/mkfw.c\<close> makes the firmware image, \<open>module/src\<close> is the Linux driver and \<open>runtime/src\<close> the library a program
  links to. They meet in four places: the registers, the resource table the driver publishes in host
  memory, the rings, and the messages in them. The driver's operations are therefore modelled over the
  device model itself wherever they act on it, not over an idea of a device.

  \<^bold>\<open>The theories\<close>, in the order they build on each other:

  \<^item> \<open>Vel_Prelude\<close>: machine integers at their width, little-endian bytes, a byte-addressed memory, text
    formats. \<open>Vel_Run\<close>: runs of a step relation, and the contracts \<open>safe_machine\<close> (an invariant) and
    \<open>ordered_machine\<close> (a preorder). \<open>Vel_Loop\<close>: the contracts of a consuming loop, what it keeps, when it
    ends and within how many passes, when it never does.
  \<^item> \<open>Vel_HW\<close>: \<open>velocitor_hw.h\<close>, every constant. \<open>Vel_State\<close>: \<open>VelocitorState\<close> field by field, and the PCI bus as
    the parameter \<open>pci_bus\<close>.
  \<^item> \<open>Vel_Trace\<close>, \<open>Vel_Core\<close>, \<open>Vel_Alloc\<close>, \<open>Vel_Rsc\<close>, \<open>Vel_Queue\<close>, \<open>Vel_Firmware\<close>, \<open>Vel_Rpmsg\<close>, \<open>Vel_Data\<close>: the parts of \<open>velocitor.c\<close>, in
    the order of the file: the firmware's log; access checks, errors, interrupts, window, bring-up
    DMA; ALLOC, FREE and STAT; the walk over the resource table; the split rings; verification, boot
    and reset; the control endpoint; copies and the engine queues.
  \<^item> \<open>Vel_Machine\<close>: the whole device, as a step relation of host accesses and timer expiries.
  \<^item> \<open>Fw_Image\<close>: \<open>mkfw.c\<close>, the image byte by byte.
  \<^item> \<open>Drv_Mmio\<close>: the accessors of the driver and the modules that only read or write registers
    (\<open>lifecycle.c\<close>, \<open>identity.c\<close>, \<open>error.c\<close>, \<open>counters.c\<close>, \<open>irq.c\<close>). \<open>Drv_Window\<close>, \<open>Drv_Trace\<close>, \<open>Drv_Dma\<close>: \<open>window.c\<close>,
    \<open>device-trace.c\<close>, \<open>dma.c\<close>. \<open>Drv_Rsc\<close>, \<open>Drv_Rproc\<close>: \<open>vring.c\<close> and \<open>remoteproc.c\<close>. \<open>Drv_Handles\<close>: \<open>handles.c\<close>.
  \<^item> \<open>Drv_Ctrl\<close>: \<open>ctrl.c\<close> and \<open>ctrl-transaction.c\<close>; \<open>Drv_Ctrl_Run\<close>: their pieces interleaved. \<open>Drv_Cdev\<close>: \<open>cdev.c\<close>.
    \<open>Drv_Data\<close>: \<open>data.c\<close>, \<open>data-transaction.c\<close>, \<open>data-virtio.c\<close>.
  \<^item> \<open>Drv_Life\<close>: \<open>velocitor_pci_probe\<close> and \<open>init_\<close> of \<open>lifecycle.c\<close> with the initialisers of every module, as a sequence of
    acquisitions the driver core can take back. \<open>Drv_Sysfs\<close>: \<open>cdev-sysfs.c\<close>. \<open>Drv_Debugfs\<close>: \<open>trace.h\<close> and the listings of debugfs.
  \<^item> \<open>C_Text\<close>: \<open>fscanf\<close> and \<open>strtoul\<close> on the text the kernel prints. \<open>Rt_Library\<close>: \<open>runtime/src\<close>, the user library. \<open>Rt_Test\<close>: the
    programs \<open>ctrl-test.c\<close> and \<open>scan-test.c\<close>, over any system (the record \<open>bench\<close>), and run on the modelled one.

  \<^bold>\<open>How code became definitions.\<close> A function keeps its name; a function that releases a lock in the middle is cut
  there into the pieces that are atomic. State is passed explicitly: a record for each C structure. A
  C array is a function from the index, and that indices stay in range is proved. An errno is a
  negative \<open>int\<close>, a fallible function yields a sum; access to freed memory is \<open>None\<close>. What a kernel,
  QEMU or C library call answers is an argument: every answer is a branch, and the theorems hold
  for each.

  \<^bold>\<open>What is proved.\<close>

  \<^item> \<^emph>\<open>Device\<close>: every state the host can drive the device to is well formed (ring descriptions usable, window
    inside memory, allocations disjoint and inside their node, handles issued once); accesses out of
    contract change nothing but the error block; a handle freed stays dead for the session; the drain
    loops return, having taken at most the heads pending, as long as the available index keeps its
    value while they run, and a host that overlaps its rings makes the loop run for ever; a copy moves exactly its bytes and never writes outside
    a live block; taking a head off a ring is the dequeue of the abstract queue.
  \<^item> \<^emph>\<open>Firmware\<close>: the image \<open>mkfw\<close> makes carries the headers, the one loadable segment and the sections an ELF loader
    looks for, and the device verifies and boots it.
  \<^item> \<^emph>\<open>Driver against device\<close>: the window read delivers device memory; the trace reader takes exactly the unread
    lines; both walks over the resource table learn the same ring numbers; starting the remote processor
    brings the firmware to RUNNING with all rings live, or leaves it stopped; a control request
    gets the device's answer in its own transaction.
  \<^item> \<^emph>\<open>Driver under concurrency\<close>: in every interleaving of callers, answers and removals no freed transaction is
    touched and none is lost, as long as no removal falls between the allocation and the sending of
    one; in that gap the code does touch freed memory. Slots of the data plane are owned once.
  \<^item> \<^emph>\<open>End to end\<close>: through character device, control channel and allocator, the driver's table of
    handles and the device's live allocations stay the same set, and a program on the library holds
    distinct live handles, whatever it does. A free that cannot be sent breaks this for good. What a
    scan of sysfs tells a program is what the card's registers say.
  \<^item> \<^emph>\<open>Life cycle\<close>: wherever a probe stops, the driver core takes back exactly what was acquired; a probe that is
    granted everything brings the firmware up with every ring and interrupt in its place. At unbind
    there is a moment in which interrupts go through a dangling pointer.
  \<^item> \<^emph>\<open>The whole\<close>: \<open>ctrl_test_passes\<close>. The repository's acceptance test, run on a probed card, passes all of its 32 checks,
    in whichever of its fifty naps the firmware comes back from the crash it provokes. The system under
    it is the record \<open>platform\<close>: bus, environment, resource table, and the remoteproc core's loader and
    recovery are its fields, and \<open>platform_ok\<close>, \<open>recovers_at\<close> say what is relied on of them.

  \<^bold>\<open>Locales and their interpretations.\<close> \<open>safe_machine\<close>: the device, its windowed runs, the handle table, the transactions, the
  data plane. \<open>ordered_machine\<close>: sessions, lost timers, snapshots, the window between its commits. \<open>loop_keeps\<close>, \<open>loop_ends\<close>, \<open>loop_never_ends\<close>: the control and the engine
  drain. \<open>handle_allocator\<close>: the device's allocator. \<open>char_device\<close>: what the library relies on, provided by the
  driver over the device.

  \<^bold>\<open>Loops and bounds.\<close> The two drain loops of the device follow host memory, so nothing in the code bounds them: they
  are partial functions whose value \<open>None\<close> is not returning. All other loops are structural or have a
  measure. The polls of the driver run \<open>START_POLLS\<close> and \<open>DMA_POLLS\<close> times, timeout over interval as
  the code passes them to \<open>readl_poll_timeout\<close>. The loop of the control test ends after fifty rounds, its measure.

  \<^bold>\<open>Not modelled.\<close> Registration with the kernel and with QEMU (modules, PCI and rpmsg ids, devm actions, operation tables,
  type and class initialisation, the PCI configuration space and MSI-X tables): tables handed to code that
  is not in the repository. The kernel's own part of a crash recovery: the remoteproc core's ELF
  loader and recovery are parameters of \<open>Rt_Test\<close>, of which only the documented result is assumed; the
  concrete ones at the end of that theory serve to show that the assumptions can be met. Log lines of \<open>dev_info\<close> and \<open>dev_err\<close>: output only. The file \<open>counters_reset\<close>, whose handler takes a
  structure for another. The parsing of debugfs commands by \<open>sscanf\<close>. The scripts under \<open>devtools\<close>.
  Hosts are sequentially consistent here: barriers are the order of the steps.
\<close>

end
